(* ===== verification/Prelude.thy ===== *)
theory Prelude
  imports Main "HOL-Library.AList" "HOL-Library.Char_ord" "HOL-Library.List_Lexorder"
    "HOL-Library.Product_Lexorder" "HOL-Library.Sublist" "HOL-Library.Multiset" "HOL-Library.Word"
begin

text \<open>
  What every component of the development shares: Go maps as association lists with the
  operations the program uses, iteration over the sorted keys of a map, the order of
  \<^verbatim>\<open>sort.Strings\<close> and \<^verbatim>\<open>sort.Slice\<close>, and the two contracts (locales) that several
  components provide: a \<open>first_writer\<close> registry, where the first claim of a key wins, and a
  \<open>content_target\<close>, a store that is written only when its content differs.
\<close>

named_theorems gmap_simps \<open>lookups and key sets of updated Go maps\<close>

section \<open>Go maps\<close>

text \<open>
  A Go map is an association list; its list order is the (unspecified) iteration order of
  the map, so a theorem about code that ranges over a map without sorting holds for every
  order. \<open>gmap_ok\<close> is the representation invariant: no key twice.
\<close>

type_synonym ('k, 'v) gmap = "('k \<times> 'v) list"

abbreviation gget :: "('k, 'v) gmap \<Rightarrow> 'k \<Rightarrow> 'v option" where
  "gget \<equiv> map_of"

abbreviation gput :: "'k \<Rightarrow> 'v \<Rightarrow> ('k, 'v) gmap \<Rightarrow> ('k, 'v) gmap" where
  "gput \<equiv> AList.update"

abbreviation gdel :: "'k \<Rightarrow> ('k, 'v) gmap \<Rightarrow> ('k, 'v) gmap" where
  "gdel \<equiv> AList.delete"

abbreviation gkeys :: "('k, 'v) gmap \<Rightarrow> 'k list" where
  "gkeys m \<equiv> map fst m"

definition gmap_ok :: "('k, 'v) gmap \<Rightarrow> bool" where
  "gmap_ok m \<longleftrightarrow> distinct (gkeys m)"

definition ghas :: "('k, 'v) gmap \<Rightarrow> 'k \<Rightarrow> bool" where
  "ghas m k \<longleftrightarrow> gget m k \<noteq> None"

definition same_map :: "('k, 'v) gmap \<Rightarrow> ('k, 'v) gmap \<Rightarrow> bool" where
  "same_map m m' \<longleftrightarrow> gget m = gget m'"

text \<open>The Go read \<^verbatim>\<open>m[k]\<close> of a string map: the zero value when the key is absent.\<close>

definition gstr :: "('k, string) gmap \<Rightarrow> 'k \<Rightarrow> string" where
  "gstr m k = (case gget m k of None \<Rightarrow> [] | Some v \<Rightarrow> v)"

lemma gget_gput [gmap_simps]: "gget (gput k v m) = (gget m)(k \<mapsto> v)"
  by (rule update_conv')

lemma gget_gdel [gmap_simps]: "gget (gdel k m) = (gget m)(k := None)"
  by (rule delete_conv')

lemma set_gkeys_gput [gmap_simps]: "set (gkeys (gput k v m)) = insert k (set (gkeys m))"
  by (simp add: dom_update)

lemma gmap_ok_Nil [simp]: "gmap_ok []"
  by (simp add: gmap_ok_def)

lemma gmap_ok_gput [simp, intro]: "gmap_ok m \<Longrightarrow> gmap_ok (gput k v m)"
  unfolding gmap_ok_def by (rule distinct_update)

lemma gmap_ok_gdel [simp, intro]: "gmap_ok m \<Longrightarrow> gmap_ok (gdel k m)"
  unfolding gmap_ok_def by (rule distinct_delete)

lemma ghas_iff: "ghas m k \<longleftrightarrow> k \<in> set (gkeys m)"
  by (simp add: ghas_def map_of_eq_None_iff)

lemma ghas_gput [gmap_simps]: "ghas (gput k v m) j \<longleftrightarrow> j = k \<or> ghas m j"
  by (simp add: ghas_def gget_gput)

lemma same_map_refl [simp]: "same_map m m"
  by (simp add: same_map_def)

lemma same_map_keys:
  assumes "same_map m m'"
  shows "set (gkeys m) = set (gkeys m')"
proof -
  have "dom (gget m) = dom (gget m')" using assms by (simp add: same_map_def)
  then show ?thesis by (simp add: dom_map_of_conv_image_fst)
qed

lemma gput_nonempty: "gput k v m \<noteq> []"
  by simp

lemma gmap_in_set: "gmap_ok m \<Longrightarrow> (k, v) \<in> set m \<longleftrightarrow> gget m k = Some v"
  by (simp add: gmap_ok_def)

lemma gput_values: "(k', v') \<in> set (gput k v m) \<Longrightarrow> (k', v') = (k, v) \<or> (k', v') \<in> set m"
  by (induction m) (auto split: if_splits)

section \<open>Sorted iteration\<close>

text \<open>
  \<^verbatim>\<open>for k := range m { keys = append(keys, k) }; sort.Strings(keys)\<close>. The byte order on
  strings is the lexicographic order of \<open>List_Lexorder\<close> over \<open>Char_ord\<close>. The result depends
  on the contents of the map only, not on the iteration order.
\<close>

definition sorted_keys :: "('k::linorder, 'v) gmap \<Rightarrow> 'k list" where
  "sorted_keys m = sort (gkeys m)"

lemma sort_unique:
  fixes xs ys :: "'a::linorder list"
  assumes "distinct xs" "distinct ys" "set xs = set ys"
  shows "sort xs = sort ys"
proof (rule sorted_distinct_set_unique)
  show "sorted (sort xs)" "sorted (sort ys)" by simp_all
  show "distinct (sort xs)" "distinct (sort ys)" using assms by simp_all
  show "set (sort xs) = set (sort ys)" using assms by simp
qed

lemma set_sorted_keys [simp]: "set (sorted_keys m) = set (gkeys m)"
  by (simp add: sorted_keys_def)

lemma sorted_keys_same_map:
  "gmap_ok m \<Longrightarrow> gmap_ok m' \<Longrightarrow> same_map m m' \<Longrightarrow> sorted_keys m = sorted_keys m'"
  unfolding sorted_keys_def gmap_ok_def by (rule sort_unique, assumption, assumption, rule same_map_keys)

lemma sort_mset_eq:
  fixes xs ys :: "'a::linorder list"
  assumes "mset xs = mset ys"
  shows "sort xs = sort ys"
  using assms by (metis mset_sort properties_for_sort sorted_sort)

text \<open>
  \<^verbatim>\<open>sort.Slice\<close> by a key that no two elements share has one possible result, whatever
  the input order.
\<close>

lemma sort_key_perm:
  fixes f :: "'a \<Rightarrow> 'b::linorder"
  assumes perm: "mset xs = mset ys" and inj: "distinct (map f xs)"
  shows "sort_key f xs = sort_key f ys"
proof -
  have inj': "distinct (map f ys)"
    using inj perm by (metis mset_map mset_eq_imp_distinct_iff)
  have setxy: "set xs = set ys" using perm by (rule mset_eq_setD)
  have dist: "distinct (map f (sort_key f zs))" if "distinct (map f zs)" for zs
    using that by (metis mset_map mset_sort mset_eq_imp_distinct_iff)
  have eq: "map f (sort_key f xs) = map f (sort_key f ys)"
    by (rule sorted_distinct_set_unique) (use dist inj inj' setxy in simp_all)
  show ?thesis
    by (rule map_inj_on [OF eq]) (use inj setxy in \<open>simp add: distinct_map\<close>)
qed

section \<open>Registries where the first writer wins\<close>

text \<open>
  The render model keeps several registries (routes, certificates, host bindings,
  passthrough hosts) with one contract: a well-formed claim of a free key is stored, any other
  claim (ill-formed, of a blocked or of a taken key) changes nothing that can be looked up.
  \<open>claim_all\<close> runs a list of claims; \<open>claim_all_first\<close> says that the first well-formed claim
  of a key decides its value.
\<close>

locale first_writer =
  fixes look :: "'s \<Rightarrow> 'k \<Rightarrow> 'v option"
    and blocked :: "'s \<Rightarrow> 'k \<Rightarrow> bool"
    and wf :: "'k \<Rightarrow> 'v \<Rightarrow> bool"
    and claim :: "'s \<Rightarrow> 'k \<Rightarrow> 'v \<Rightarrow> 's"
  assumes granted: "wf k v \<Longrightarrow> \<not> blocked s k \<Longrightarrow> look s k = None \<Longrightarrow>
      look (claim s k v) = (look s)(k \<mapsto> v)"
    and refused: "\<not> wf k v \<or> blocked s k \<or> look s k \<noteq> None \<Longrightarrow> look (claim s k v) = look s"
    and blocked_frame: "blocked (claim s k v) = blocked s"
begin

fun claim_all :: "'s \<Rightarrow> ('k \<times> 'v) list \<Rightarrow> 's" where
  "claim_all s [] = s"
| "claim_all s ((k, v) # kvs) = claim_all (claim s k v) kvs"

lemma claim_look:
  "look (claim s k v) =
     (if wf k v \<and> \<not> blocked s k \<and> look s k = None then (look s)(k \<mapsto> v) else look s)"
  using granted [of k v s] refused [of k v s] by auto

lemma claim_keeps: "look s k = Some v \<Longrightarrow> look (claim s k' v') k = Some v"
  by (auto simp: claim_look)

lemma claim_all_keeps: "look s k = Some v \<Longrightarrow> look (claim_all s kvs) k = Some v"
  by (induction s kvs rule: claim_all.induct) (auto simp: claim_keeps)

lemma claim_all_first:
  "look (claim_all s kvs) k =
     (case look s k of Some v \<Rightarrow> Some v
      | None \<Rightarrow> if blocked s k then None else map_of (filter (\<lambda>(k, v). wf k v) kvs) k)"
proof (induction s kvs rule: claim_all.induct)
  case (1 s)
  show ?case by (simp split: option.split)
next
  case (2 s j v kvs)
  show ?case
    by (simp add: 2 claim_look blocked_frame split: option.splits)
qed

lemma claim_all_append: "claim_all s (xs @ ys) = claim_all (claim_all s xs) ys"
  by (induction s xs rule: claim_all.induct) auto

end

text \<open>
  A registry whose operation also tells the caller whether the claim was granted; the code
  reports every claim that was not.
\<close>

locale answering_writer = first_writer +
  fixes answer :: "'a \<Rightarrow> 'b \<Rightarrow> 'c \<Rightarrow> bool"
  assumes answer_iff: "answer s k v \<longleftrightarrow> wf k v \<and> \<not> blocked s k \<and> look s k = None"
begin

lemma answer_stored: "answer s k v \<Longrightarrow> look (claim s k v) k = Some v"
  by (simp add: answer_iff claim_look)

lemma no_answer_frame: "\<not> answer s k v \<Longrightarrow> look (claim s k v) = look s"
  by (auto simp: answer_iff claim_look)

lemma second_claim_refused: "answer s k v \<Longrightarrow> \<not> answer (claim s k v) k v'"
  by (simp add: answer_iff claim_look)

end

section \<open>Stores written only when the content differs\<close>

text \<open>
  The operator writes its outputs through operations that first read the target and leave it
  alone when the content is already there, and that report whether they wrote. \<open>read\<close>
  looks a target up, \<open>save s k v\<close> returns the result (an error, or whether anything
  changed) and the new state.
\<close>

locale content_target =
  fixes read :: "'s \<Rightarrow> 'k \<Rightarrow> 'v option"
    and save :: "'s \<Rightarrow> 'k \<Rightarrow> 'v \<Rightarrow> ('e + bool) \<times> 's"
  assumes write_same: "read s k = Some v \<Longrightarrow> save s k v = (Inr False, s)"
    and write_done: "fst (save s k v) = Inr c \<Longrightarrow> read (snd (save s k v)) k = Some v"
    and write_changed: "fst (save s k v) = Inr c \<Longrightarrow> c \<longleftrightarrow> read s k \<noteq> Some v"
begin

lemma write_idem: "fst (save s k v) = Inr c \<Longrightarrow>
    save (snd (save s k v)) k v = (Inr False, snd (save s k v))"
  by (rule write_same) (rule write_done)

lemma write_quiet: "fst (save s k v) = Inr False \<Longrightarrow> snd (save s k v) = s"
  using write_changed [of s k v False] write_same [of s k v] by simp

end

end
