(* ===== verification/GoStrings.thy ===== *)
theory GoStrings
  imports Prelude
begin

text \<open>
  The part of Go's \<^verbatim>\<open>strings\<close>, \<^verbatim>\<open>strconv\<close>, \<^verbatim>\<open>unicode/utf8\<close> and \<^verbatim>\<open>path/filepath\<close> packages
  that the operator uses, on byte strings: a Go string is a \<open>string\<close> (a list of \<open>char\<close>,
  each one byte). Where a library function works on runes, the UTF-8 decoding is written out.
  The one table that is not written out is \<^verbatim>\<open>unicode.IsPrint\<close> above code point 255, which is
  the parameter \<open>prt\<close> of \<open>quote\<close>.
\<close>

section \<open>Prefixes, suffixes, splitting\<close>

abbreviation nl :: string where
  "nl \<equiv> [CHR 0x0A]"

abbreviation dq :: string where
  "dq \<equiv> [CHR 0x22]"

fun has_prefix :: "string \<Rightarrow> string \<Rightarrow> bool" where
  "has_prefix s [] = True"
| "has_prefix [] (p # ps) = False"
| "has_prefix (c # s) (p # ps) = (c = p \<and> has_prefix s ps)"

definition has_suffix :: "string \<Rightarrow> string \<Rightarrow> bool" where
  "has_suffix s p = has_prefix (rev s) (rev p)"

definition trim_prefix :: "string \<Rightarrow> string \<Rightarrow> string" where
  "trim_prefix s p = (if has_prefix s p then drop (length p) s else s)"

definition trim_suffix :: "string \<Rightarrow> string \<Rightarrow> string" where
  "trim_suffix s p = (if has_suffix s p then take (length s - length p) s else s)"

definition trim_right_byte :: "char \<Rightarrow> string \<Rightarrow> string" where
  "trim_right_byte c s = rev (dropWhile (\<lambda>x. x = c) (rev s))"

fun contains :: "string \<Rightarrow> string \<Rightarrow> bool" where
  "contains [] p = (p = [])"
| "contains (c # s) p = (has_prefix (c # s) p \<or> contains s p)"

text \<open>\<^verbatim>\<open>strings.Split(s, sep)\<close> for a one-byte separator, \<^verbatim>\<open>strings.Join\<close>.\<close>

fun split_on :: "char \<Rightarrow> string \<Rightarrow> string list" where
  "split_on c [] = [[]]"
| "split_on c (x # s) =
     (if x = c then [] # split_on c s
      else case split_on c s of [] \<Rightarrow> [[x]] | y # ys \<Rightarrow> (x # y) # ys)"

fun join :: "string \<Rightarrow> string list \<Rightarrow> string" where
  "join sep [] = []"
| "join sep [x] = x"
| "join sep (x # y # ys) = x @ sep @ join sep (y # ys)"

text \<open>\<^verbatim>\<open>strings.LastIndex\<close> of a one-byte separator, as the text before and after it.\<close>

definition split_last :: "char \<Rightarrow> string \<Rightarrow> (string \<times> string) option" where
  "split_last c s =
     (if c \<in> set s then
        Some (rev (drop 1 (dropWhile (\<lambda>x. x \<noteq> c) (rev s))), rev (takeWhile (\<lambda>x. x \<noteq> c) (rev s)))
      else None)"

text \<open>\<^verbatim>\<open>strings.SplitN(s, sep, 2)\<close>: the text before and after the first separator.\<close>

fun split_first :: "char \<Rightarrow> string \<Rightarrow> (string \<times> string) option" where
  "split_first c [] = None"
| "split_first c (x # s) =
     (if x = c then Some ([], s)
      else case split_first c s of None \<Rightarrow> None | Some (a, b) \<Rightarrow> Some (x # a, b))"

lemma has_prefix_iff: "has_prefix s p \<longleftrightarrow> (\<exists>t. s = p @ t)"
  by (induction s p rule: has_prefix.induct) auto

lemma has_prefix_append [simp]: "has_prefix (p @ t) p"
  by (auto simp: has_prefix_iff)

lemma has_suffix_iff: "has_suffix s p \<longleftrightarrow> (\<exists>t. s = t @ p)"
proof
  assume "has_suffix s p"
  then obtain t where "rev s = rev p @ t" by (auto simp: has_suffix_def has_prefix_iff)
  then have "s = rev t @ p" by (metis rev_append rev_rev_ident)
  then show "\<exists>t. s = t @ p" by blast
qed (auto simp: has_suffix_def)

lemma trim_suffix_append [simp]: "trim_suffix (t @ p) p = t"
  by (simp add: trim_suffix_def has_suffix_def)

lemma trim_prefix_append [simp]: "trim_prefix (p @ t) p = t"
  by (simp add: trim_prefix_def)

lemma contains_iff: "contains s p \<longleftrightarrow> (\<exists>a b. s = a @ p @ b)"
proof (induction s)
  case Nil
  then show ?case by auto
next
  case (Cons c s)
  have "(\<exists>a b. c # s = a @ p @ b) \<longleftrightarrow> (\<exists>b. c # s = p @ b) \<or> (\<exists>a b. s = a @ p @ b)"
    by (metis append_Cons append_eq_Cons_conv self_append_conv2)
  then show ?case using Cons.IH by (simp add: has_prefix_iff)
qed

lemma split_on_nonempty [simp]: "split_on c s \<noteq> []"
  by (induction s) (auto split: list.split)

lemma split_on_no_sep: "x \<in> set (split_on c s) \<Longrightarrow> c \<notin> set x"
  by (induction s arbitrary: x) (auto split: list.splits if_splits)

lemma split_on_join: "join [c] (split_on c s) = s"
proof (induction s)
  case (Cons x s)
  obtain y ys where ys: "split_on c s = y # ys"
    using split_on_nonempty by (metis neq_Nil_conv)
  show ?case using Cons.IH ys by (cases ys) auto
qed simp

lemma split_on_single: "c \<notin> set s \<Longrightarrow> split_on c s = [s]"
  by (induction s) auto

lemma split_on_sep: "c \<notin> set a \<Longrightarrow> split_on c (a @ c # b) = a # split_on c b"
  by (induction a) auto

lemma split_on_join_fields:
  "fs \<noteq> [] \<Longrightarrow> (\<And>f. f \<in> set fs \<Longrightarrow> c \<notin> set f) \<Longrightarrow> split_on c (join [c] fs) = fs"
proof (induction "[c]" fs rule: join.induct)
  case (3 x y ys)
  then show ?case by (auto simp: split_on_sep)
qed (auto simp: split_on_single)

lemma trim_right_byte_split: "\<exists>n. s = trim_right_byte c s @ replicate n c"
proof -
  let ?t = "takeWhile (\<lambda>x. x = c) (rev s)"
  have "?t = replicate (length ?t) c" by (rule replicate_eqI) (auto dest: set_takeWhileD)
  moreover have "s = trim_right_byte c s @ rev ?t"
    by (metis rev_append rev_rev_ident takeWhile_dropWhile_id trim_right_byte_def)
  ultimately show ?thesis by (metis rev_replicate)
qed

lemma trim_right_byte_suffix: "trim_right_byte c s = [] \<or> last (trim_right_byte c s) \<noteq> c"
proof -
  have "dropWhile (\<lambda>x. x = c) (rev s) = [] \<or> hd (dropWhile (\<lambda>x. x = c) (rev s)) \<noteq> c"
    by (metis (mono_tags, lifting) hd_dropWhile)
  then show ?thesis by (auto simp: trim_right_byte_def last_rev)
qed

lemma trim_right_byte_id: "s = [] \<or> last s \<noteq> c \<Longrightarrow> trim_right_byte c s = s"
  by (cases s rule: rev_cases) (auto simp: trim_right_byte_def)

lemma trim_right_byte_idem [simp]:
  "trim_right_byte c (trim_right_byte c s) = trim_right_byte c s"
  by (rule trim_right_byte_id) (rule trim_right_byte_suffix)

lemma split_last_Some: "split_last c s = Some (a, b) \<longleftrightarrow> s = a @ c # b \<and> c \<notin> set b"
proof
  assume sp: "split_last c s = Some (a, b)"
  then have c: "c \<in> set (rev s)" and b: "b = rev (takeWhile (\<lambda>x. x \<noteq> c) (rev s))"
    and a: "a = rev (drop 1 (dropWhile (\<lambda>x. x \<noteq> c) (rev s)))"
    by (auto simp: split_last_def split: if_splits)
  have "dropWhile (\<lambda>x. x \<noteq> c) (rev s) \<noteq> []" using c by (simp add: dropWhile_eq_Nil_conv)
  moreover from this have "hd (dropWhile (\<lambda>x. x \<noteq> c) (rev s)) = c"
    using hd_dropWhile by (metis (mono_tags, lifting))
  ultimately have "dropWhile (\<lambda>x. x \<noteq> c) (rev s) = c # rev a"
    by (cases "dropWhile (\<lambda>x. x \<noteq> c) (rev s)") (auto simp: a)
  then have "rev s = rev b @ c # rev a"
    using takeWhile_dropWhile_id [of "\<lambda>x. x \<noteq> c" "rev s"] b by (metis rev_rev_ident)
  then have "s = a @ c # b" by (metis append.assoc append_Cons append_Nil rev.simps(2) rev_append rev_rev_ident)
  moreover have "c \<notin> set b" using b by (auto dest: set_takeWhileD)
  ultimately show "s = a @ c # b \<and> c \<notin> set b" by simp
next
  assume s: "s = a @ c # b \<and> c \<notin> set b"
  then have "takeWhile (\<lambda>x. x \<noteq> c) (rev s) = rev b"
    and "dropWhile (\<lambda>x. x \<noteq> c) (rev s) = c # rev a"
    by (auto simp: takeWhile_append dropWhile_append)
  then show "split_last c s = Some (a, b)" using s by (simp add: split_last_def)
qed

lemma split_last_None: "split_last c s = None \<longleftrightarrow> c \<notin> set s"
  by (simp add: split_last_def)

section \<open>Bytes, runes and UTF-8\<close>

abbreviation byte :: "char \<Rightarrow> int" where
  "byte c \<equiv> of_char c"

abbreviation rune_error :: int where
  "rune_error \<equiv> 65533"

definition cont_byte :: "int \<Rightarrow> bool" where
  "cont_byte b \<longleftrightarrow> 128 \<le> b \<and> b \<le> 191"

text \<open>
  \<^verbatim>\<open>utf8.DecodeRuneInString\<close>: the first rune and its width. An invalid or truncated sequence,
  an overlong form, a surrogate or a value above U+10FFFF is \<open>rune_error\<close> with width 1.
\<close>

definition decode_rune :: "string \<Rightarrow> int \<times> nat" where
  "decode_rune s =
     (case s of
        [] \<Rightarrow> (rune_error, 0)
      | c0 # s1 \<Rightarrow>
          let b0 = byte c0 in
          if b0 < 128 then (b0, 1)
          else if b0 < 194 \<or> 244 < b0 then (rune_error, 1)
          else (case s1 of
             [] \<Rightarrow> (rune_error, 1)
           | c1 # s2 \<Rightarrow>
               let b1 = byte c1 in
               if b0 < 224 then
                 (if cont_byte b1 then ((b0 - 192) * 64 + (b1 - 128), 2) else (rune_error, 1))
               else if \<not> cont_byte b1 \<or> b0 = 224 \<and> b1 < 160 \<or> b0 = 237 \<and> 159 < b1
                       \<or> b0 = 240 \<and> b1 < 144 \<or> b0 = 244 \<and> 143 < b1 then (rune_error, 1)
               else (case s2 of
                  [] \<Rightarrow> (rune_error, 1)
                | c2 # s3 \<Rightarrow>
                    let b2 = byte c2 in
                    if \<not> cont_byte b2 then (rune_error, 1)
                    else if b0 < 240 then
                      ((b0 - 224) * 4096 + (b1 - 128) * 64 + (b2 - 128), 3)
                    else (case s3 of
                       [] \<Rightarrow> (rune_error, 1)
                     | c3 # s4 \<Rightarrow>
                         let b3 = byte c3 in
                         if \<not> cont_byte b3 then (rune_error, 1)
                         else ((b0 - 240) * 262144 + (b1 - 128) * 4096 + (b2 - 128) * 64 + (b3 - 128), 4)))))"

lemma decode_rune_width: "s \<noteq> [] \<Longrightarrow> 1 \<le> snd (decode_rune s) \<and> snd (decode_rune s) \<le> length s"
  unfolding decode_rune_def by (auto simp: Let_def split: list.splits)

text \<open>\<^verbatim>\<open>for _, r := range s\<close>: the runes of a string with the bytes each one covers.\<close>

function runes :: "string \<Rightarrow> (int \<times> string) list" where
  "runes [] = []"
| "runes (c # s) =
     (let r = decode_rune (c # s)
      in (fst r, c # take (snd r - 1) s) # runes (drop (snd r - 1) s))"
  by pat_completeness auto
termination
  by (relation "measure length") auto

lemma concat_runes: "concat (map snd (runes s)) = s"
  by (induction s rule: runes.induct) (auto simp: Let_def)

section \<open>White space and case folding\<close>

text \<open>
  \<^verbatim>\<open>strings.TrimSpace\<close> removes the runes of \<^verbatim>\<open>unicode.IsSpace\<close> at both ends. Their UTF-8
  encodings are listed; no encoding overlaps another one, so stripping byte sequences is
  stripping runes.
\<close>

definition space_seqs :: "string list" where
  "space_seqs =
     [[CHR 0x20], [CHR 0x09], [CHR 0x0A], [CHR 0x0B], [CHR 0x0C], [CHR 0x0D],
      [CHR 0xC2, CHR 0x85], [CHR 0xC2, CHR 0xA0], [CHR 0xE1, CHR 0x9A, CHR 0x80],
      [CHR 0xE2, CHR 0x80, CHR 0x80], [CHR 0xE2, CHR 0x80, CHR 0x81], [CHR 0xE2, CHR 0x80, CHR 0x82],
      [CHR 0xE2, CHR 0x80, CHR 0x83], [CHR 0xE2, CHR 0x80, CHR 0x84], [CHR 0xE2, CHR 0x80, CHR 0x85],
      [CHR 0xE2, CHR 0x80, CHR 0x86], [CHR 0xE2, CHR 0x80, CHR 0x87], [CHR 0xE2, CHR 0x80, CHR 0x88],
      [CHR 0xE2, CHR 0x80, CHR 0x89], [CHR 0xE2, CHR 0x80, CHR 0x8A], [CHR 0xE2, CHR 0x80, CHR 0xA8],
      [CHR 0xE2, CHR 0x80, CHR 0xA9], [CHR 0xE2, CHR 0x80, CHR 0xAF], [CHR 0xE2, CHR 0x81, CHR 0x9F],
      [CHR 0xE3, CHR 0x80, CHR 0x80]]"

text \<open>Strip one of the given (non-empty) sequences, as often as possible, from the left.\<close>

function strip_left :: "string list \<Rightarrow> string \<Rightarrow> string" where
  "strip_left seqs s =
     (case find (\<lambda>p. p \<noteq> [] \<and> has_prefix s p) seqs of
        None \<Rightarrow> s
      | Some p \<Rightarrow> strip_left seqs (drop (length p) s))"
  by pat_completeness auto
termination
  by (relation "measure (\<lambda>(seqs, s). length s)") (auto simp: find_Some_iff has_prefix_iff)

declare strip_left.simps [simp del]

definition trim_space :: "string \<Rightarrow> string" where
  "trim_space s =
     rev (strip_left (map rev space_seqs) (rev (strip_left space_seqs s)))"

lemma strip_left_Nil [simp]: "strip_left seqs [] = []"
proof -
  have "find (\<lambda>p. p \<noteq> [] \<and> has_prefix [] p) seqs = None"
    by (auto simp: find_None_iff has_prefix_iff)
  then show ?thesis by (simp add: strip_left.simps)
qed

lemma trim_space_Nil [simp]: "trim_space [] = []"
  by (simp add: trim_space_def)

text \<open>Stripping leaves none of the sequences at the end it works on, so trimming twice is trimming once.\<close>

lemma strip_left_none: "find (\<lambda>p. p \<noteq> [] \<and> has_prefix (strip_left seqs s) p) seqs = None"
proof (induction seqs s rule: strip_left.induct)
  case (1 seqs s)
  then show ?case by (subst strip_left.simps, subst (asm) strip_left.simps) (auto split: option.splits)
qed

lemma strip_left_idem [simp]: "strip_left seqs (strip_left seqs s) = strip_left seqs s"
  using strip_left_none [of seqs s] by (subst strip_left.simps) simp

lemma strip_left_fix_iff: "strip_left seqs s = s \<longleftrightarrow> (\<forall>p \<in> set seqs. p \<noteq> [] \<longrightarrow> \<not> has_prefix s p)"
proof
  assume "strip_left seqs s = s"
  then show "\<forall>p \<in> set seqs. p \<noteq> [] \<longrightarrow> \<not> has_prefix s p"
    using strip_left_none [of seqs s] unfolding find_None_iff by metis
next
  assume "\<forall>p \<in> set seqs. p \<noteq> [] \<longrightarrow> \<not> has_prefix s p"
  then have "find (\<lambda>p. p \<noteq> [] \<and> has_prefix s p) seqs = None" by (auto simp: find_None_iff)
  then show "strip_left seqs s = s" by (subst strip_left.simps) simp
qed

lemma strip_left_suffix: "\<exists>p. s = p @ strip_left seqs s"
proof (induction seqs s rule: strip_left.induct)
  case (1 seqs s)
  show ?case
  proof (cases "find (\<lambda>p. p \<noteq> [] \<and> has_prefix s p) seqs")
    case None
    then show ?thesis by (subst strip_left.simps) simp
  next
    case (Some p)
    then have "has_prefix s p" by (auto simp: find_Some_iff)
    then obtain t where "s = p @ t" by (auto simp: has_prefix_iff)
    moreover obtain q where "drop (length p) s = q @ strip_left seqs (drop (length p) s)" using 1 Some by auto
    ultimately show ?thesis using Some by (subst strip_left.simps) (auto intro!: exI [of _ "p @ q"])
  qed
qed

lemma trim_space_idem [simp]: "trim_space (trim_space s) = trim_space s"
proof -
  let ?l = "strip_left space_seqs s"
  let ?t = "rev (strip_left (map rev space_seqs) (rev ?l))"
  obtain p where "rev ?l = p @ strip_left (map rev space_seqs) (rev ?l)" using strip_left_suffix by blast
  then have l: "?l = ?t @ rev p" by (metis rev_append rev_rev_ident)
  have "strip_left space_seqs ?t = ?t"
    unfolding strip_left_fix_iff
  proof (intro ballI impI notI)
    fix q assume "q \<in> set space_seqs" "q \<noteq> []" "has_prefix ?t q"
    moreover have "\<forall>p \<in> set space_seqs. p \<noteq> [] \<longrightarrow> \<not> has_prefix ?l p"
      using strip_left_fix_iff [of space_seqs ?l] by simp
    ultimately show False using l by (metis append.assoc has_prefix_iff)
  qed
  then show ?thesis by (simp add: trim_space_def)
qed

text \<open>A string whose first and last bytes are not part of any space encoding is unchanged.\<close>

lemma strip_left_id:
  assumes "\<And>p. p \<in> set seqs \<Longrightarrow> p \<noteq> [] \<Longrightarrow> hd p \<noteq> c"
  shows "strip_left seqs (c # s) = c # s"
proof -
  have "find (\<lambda>p. p \<noteq> [] \<and> has_prefix (c # s) p) seqs = None"
    using assms by (fastforce simp: find_None_iff has_prefix_iff Cons_eq_append_conv)
  then show ?thesis by (simp add: strip_left.simps)
qed

definition visible_byte :: "char \<Rightarrow> bool" where
  "visible_byte c \<longleftrightarrow> 32 < byte c \<and> byte c < 127"

lemma space_seqs_hd_last:
  "p \<in> set space_seqs \<Longrightarrow> \<not> visible_byte (hd p) \<and> \<not> visible_byte (hd (rev p))"
  unfolding space_seqs_def visible_byte_def by auto

lemma trim_space_id:
  assumes "s \<noteq> []" "visible_byte (hd s)" "visible_byte (last s)"
  shows "trim_space s = s"
proof -
  obtain c t where s: "s = c # t" using assms(1) by (cases s) auto
  have l: "strip_left space_seqs s = s"
    unfolding s by (rule strip_left_id) (use space_seqs_hd_last assms s in auto)
  obtain d u where r: "rev s = d # u" using assms(1) by (cases "rev s") auto
  have d: "d = last s" using r by (metis hd_rev list.sel(1))
  have "strip_left (map rev space_seqs) (rev s) = rev s"
    unfolding r by (rule strip_left_id) (use space_seqs_hd_last assms d in fastforce)
  with l show ?thesis by (simp add: trim_space_def)
qed

text \<open>
  \<^verbatim>\<open>strings.EqualFold(s, t)\<close> for an ASCII \<open>t\<close>: the only runes outside ASCII that fold to an
  ASCII letter are U+017F (to s) and U+212A (to k). \<open>to_lower\<close> is \<^verbatim>\<open>strings.ToLower\<close> as far as
  a comparison with ASCII text can tell: the only other runes with an ASCII lower case are
  U+0130 (to i) and U+212A (to k).
\<close>

definition lower_byte :: "char \<Rightarrow> char" where
  "lower_byte c = (if 65 \<le> byte c \<and> byte c \<le> 90 then char_of (byte c + 32) else c)"

function fold_ascii :: "string \<Rightarrow> string" where
  "fold_ascii [] = []"
| "fold_ascii (c # s) =
     (if has_prefix (c # s) [CHR 0xC5, CHR 0xBF] then CHR ''s'' # fold_ascii (drop 1 s)
      else if has_prefix (c # s) [CHR 0xE2, CHR 0x84, CHR 0xAA] then CHR ''k'' # fold_ascii (drop 2 s)
      else lower_byte c # fold_ascii s)"
  by pat_completeness auto
termination
  by (relation "measure length") auto

definition equal_fold :: "string \<Rightarrow> string \<Rightarrow> bool" where
  "equal_fold s t \<longleftrightarrow> fold_ascii s = fold_ascii t"

function to_lower :: "string \<Rightarrow> string" where
  "to_lower [] = []"
| "to_lower (c # s) =
     (if has_prefix (c # s) [CHR 0xC4, CHR 0xB0] then CHR ''i'' # to_lower (drop 1 s)
      else if has_prefix (c # s) [CHR 0xE2, CHR 0x84, CHR 0xAA] then CHR ''k'' # to_lower (drop 2 s)
      else lower_byte c # to_lower s)"
  by pat_completeness auto
termination
  by (relation "measure length") auto

section \<open>Numbers\<close>

definition digit_char :: "int \<Rightarrow> char" where
  "digit_char d = ''0123456789'' ! nat d"

definition is_digit :: "char \<Rightarrow> bool" where
  "is_digit c \<longleftrightarrow> 48 \<le> byte c \<and> byte c \<le> 57"

definition digit_val :: "char \<Rightarrow> int" where
  "digit_val c = byte c - 48"

text \<open>\<^verbatim>\<open>%d\<close> of an unsigned and of a signed integer (\<^verbatim>\<open>strconv.Itoa\<close>).\<close>

function show_uint :: "int \<Rightarrow> string" where
  "show_uint n = (if n < 10 then [digit_char n] else show_uint (n div 10) @ [digit_char (n mod 10)])"
  by pat_completeness auto
termination
  by (relation "measure nat") auto

declare show_uint.simps [simp del]

definition show_int :: "int \<Rightarrow> string" where
  "show_int i = (if i < 0 then ''-'' @ show_uint (- i) else show_uint i)"

definition show_bool :: "bool \<Rightarrow> string" where
  "show_bool b = (if b then ''true'' else ''false'')"

definition digits_val :: "string \<Rightarrow> int" where
  "digits_val s = foldl (\<lambda>n c. 10 * n + digit_val c) 0 s"

text \<open>\<^verbatim>\<open>strconv.ParseUint(s, 10, 64)\<close>: digits only, and the value must fit 64 bits.\<close>

definition ParseUint :: "string \<Rightarrow> 64 word option" where
  "ParseUint s =
     (if s \<noteq> [] \<and> list_all is_digit s \<and> digits_val s < 2 ^ 64
      then Some (word_of_int (digits_val s)) else None)"

text \<open>\<^verbatim>\<open>strconv.Atoi\<close>: an optional sign and digits, in the range of a 64-bit int.\<close>

definition Atoi :: "string \<Rightarrow> int option" where
  "Atoi s =
     (let neg = has_prefix s ''-'';
          t = (if neg \<or> has_prefix s ''+'' then drop 1 s else s);
          v = (if neg then - digits_val t else digits_val t)
      in if t \<noteq> [] \<and> list_all is_digit t \<and> - (2 ^ 63) \<le> v \<and> v < 2 ^ 63 then Some v else None)"

lemma digit_char_digit:
  assumes "0 \<le> d" "d < 10"
  shows "is_digit (digit_char d) \<and> digit_val (digit_char d) = d"
proof -
  from assms have "d = 0 \<or> d = 1 \<or> d = 2 \<or> d = 3 \<or> d = 4 \<or> d = 5 \<or> d = 6 \<or> d = 7 \<or> d = 8 \<or> d = 9"
    by presburger
  then show ?thesis by (auto simp: digit_char_def is_digit_def digit_val_def)
qed

lemma digits_val_snoc: "digits_val (s @ [c]) = 10 * digits_val s + digit_val c"
  by (simp add: digits_val_def)

lemma show_uint_digits:
  "0 \<le> n \<Longrightarrow> list_all is_digit (show_uint n) \<and> show_uint n \<noteq> [] \<and> digits_val (show_uint n) = n"
proof (induction n rule: show_uint.induct)
  case (1 n)
  show ?case
  proof (cases "n < 10")
    case True
    then show ?thesis
      using digit_char_digit "1.prems" by (simp add: show_uint.simps [of n] digits_val_def)
  next
    case False
    then show ?thesis
      using "1.IH" digit_char_digit [of "n mod 10"]
      by (simp add: show_uint.simps [of n] digits_val_snoc)
  qed
qed

lemma ParseUint_show_uint:
  "0 \<le> n \<Longrightarrow> n < 2 ^ 64 \<Longrightarrow> ParseUint (show_uint n) = Some (word_of_int n)"
  by (simp add: ParseUint_def show_uint_digits)

lemma is_digit_visible: "is_digit c \<Longrightarrow> visible_byte c"
  by (simp add: is_digit_def visible_byte_def)

lemma list_all_ends:
  "list_all P s \<Longrightarrow> s \<noteq> [] \<Longrightarrow> P (hd s) \<and> P (last s)"
  by (simp add: list_all_iff)

lemma trim_space_show_uint: "0 \<le> n \<Longrightarrow> trim_space (show_uint n) = show_uint n"
  using show_uint_digits [of n] list_all_ends [of is_digit "show_uint n"]
  by (intro trim_space_id) (auto intro: is_digit_visible)

lemma digits_val_nonneg: "list_all is_digit s \<Longrightarrow> 0 \<le> digits_val s"
  by (induction s rule: rev_induct)
    (auto simp: digits_val_snoc digits_val_def [of "[]"] digit_val_def is_digit_def)

lemma ParseUint_uint: "ParseUint s = Some w \<Longrightarrow> uint w = digits_val s"
  using digits_val_nonneg [of s]
  by (auto simp: ParseUint_def uint_word_of_int split: if_splits)

section \<open>Quoted strings\<close>

text \<open>
  \<^verbatim>\<open>strconv.Quote\<close>, the \<^verbatim>\<open>%q\<close> verb: a double-quoted literal. Every rune is printed as it is
  when it is printable, else escaped; a byte that is not valid UTF-8 is escaped as
  \<^verbatim>\<open>\xNN\<close>. Printability of Latin-1 is written out, \<open>prt\<close> is \<^verbatim>\<open>unicode.IsPrint\<close> above it.
\<close>

definition hex_char :: "int \<Rightarrow> char" where
  "hex_char d = ''0123456789abcdef'' ! nat d"

fun hex_digits :: "nat \<Rightarrow> int \<Rightarrow> string" where
  "hex_digits 0 n = []"
| "hex_digits (Suc k) n = hex_digits k (n div 16) @ [hex_char (n mod 16)]"

definition is_print :: "(int \<Rightarrow> bool) \<Rightarrow> int \<Rightarrow> bool" where
  "is_print prt r =
     (if r \<le> 255 then 32 \<le> r \<and> r < 127 \<or> 161 \<le> r \<and> r \<noteq> 173 else prt r)"

definition esc :: "string \<Rightarrow> string" where
  "esc s = CHR 0x5C # s"

definition quote_rune :: "(int \<Rightarrow> bool) \<Rightarrow> int \<times> string \<Rightarrow> string" where
  "quote_rune prt rb =
     (let r = fst rb; bs = snd rb; b0 = byte (hd bs) in
      if length bs = 1 \<and> r = rune_error then esc (''x'' @ hex_digits 2 b0)
      else if r = 34 \<or> r = 92 then esc bs
      else if is_print prt r then bs
      else if r = 7 then esc ''a'' else if r = 8 then esc ''b'' else if r = 12 then esc ''f''
      else if r = 10 then esc ''n'' else if r = 13 then esc ''r'' else if r = 9 then esc ''t''
      else if r = 11 then esc ''v''
      else if r < 32 \<or> r = 127 then esc (''x'' @ hex_digits 2 r)
      else if r < 65536 then esc (''u'' @ hex_digits 4 r)
      else esc (''U'' @ hex_digits 8 r))"

definition quote :: "(int \<Rightarrow> bool) \<Rightarrow> string \<Rightarrow> string" where
  "quote prt s = dq @ concat (map (quote_rune prt) (runes s)) @ dq"

lemma byte_range [simp]: "0 \<le> byte c" "byte c < 256"
proof -
  have "0 \<le> byte c mod 256" "byte c mod 256 < 256" by (rule pos_mod_sign pos_mod_bound, simp)+
  then show "0 \<le> byte c" "byte c < 256" by simp_all
qed

text \<open>A decoded rune is an ASCII byte, an invalid byte, or a sequence of bytes above ASCII.\<close>

lemma decode_rune_shape:
  assumes "decode_rune (c # s) = (r, w)"
  shows "w = 1 \<and> (r = rune_error \<or> r = byte c \<and> r < 128) \<or>
    2 \<le> w \<and> 128 \<le> r \<and> list_all (\<lambda>x. 128 \<le> byte x) (take w (c # s))"
  using assms unfolding decode_rune_def
  by (auto simp: Let_def cont_byte_def split: if_splits list.splits)

lemma runes_shape:
  "(r, bs) \<in> set (runes s) \<Longrightarrow> bs \<noteq> [] \<and>
    (if length bs = 1 then r = rune_error \<or> r = byte (hd bs) \<and> r < 128
     else 128 \<le> r \<and> list_all (\<lambda>x. 128 \<le> byte x) bs)"
proof (induction s rule: runes.induct)
  case (2 c s)
  obtain q w where q: "decode_rune (c # s) = (q, w)" by fastforce
  have w: "1 \<le> w" "w \<le> Suc (length s)" using decode_rune_width [of "c # s"] q by auto
  show ?case
    using 2 decode_rune_shape [OF q] q w by (cases w) (auto simp: Let_def)
qed simp

definition clean_char :: "char \<Rightarrow> bool" where
  "clean_char c \<longleftrightarrow> 32 \<le> byte c \<and> byte c \<noteq> 127"

abbreviation clean :: "string \<Rightarrow> bool" where
  "clean \<equiv> list_all clean_char"

lemma clean_hex: "clean (hex_digits k n)"
proof (induction k arbitrary: n)
  case (Suc k)
  have "n mod 16 \<in> {0..15}" by simp
  then have "n mod 16 \<in> {0, 1, 2, 3, 4, 5, 6, 7, 8, 9, 10, 11, 12, 13, 14, 15}"
    by (simp add: atLeastAtMost_iff del: mod_less_divisor) presburger
  then have "clean_char (hex_char (n mod 16))"
    by (auto simp: hex_char_def clean_char_def)
  with Suc show ?case by simp
qed simp

lemma clean_high: "list_all (\<lambda>x. 128 \<le> byte x) bs \<Longrightarrow> clean bs"
  by (auto simp: list_all_iff clean_char_def)

lemma clean_quote_rune:
  assumes "(r, bs) \<in> set (runes s)"
  shows "clean (quote_rune prt (r, bs))"
proof -
  note shape = runes_shape [OF assms]
  have "clean bs" if "\<not> (length bs = 1 \<and> r = rune_error)" "32 \<le> r" "r \<noteq> 127"
  proof (cases "length bs = 1")
    case True
    then show ?thesis using shape that by (cases bs) (auto simp: clean_char_def)
  next
    case False
    then show ?thesis using shape clean_high by simp
  qed
  then show ?thesis
    using clean_hex
    by (auto simp: quote_rune_def Let_def esc_def is_print_def clean_char_def list_all_append)
qed

lemma clean_quote [simp]: "clean (quote prt s)"
  using clean_quote_rune by (fastforce simp: quote_def list_all_iff clean_char_def [of "CHR 0x22"])

end
