(* ===== verification/Objects.thy ===== *)
theory Objects
  imports GoStrings
begin

text \<open>
  The Kubernetes and Gateway API objects, restricted to the fields the operator reads or
  writes, and what a reconciler can observe or cause: the answers of the API client (a
  snapshot per pass; \<open>None\<close> is an error of the call), the Prometheus metrics of
  controllers/metrics.go, the events, and the status writes. A pointer field of Go is an
  \<open>option\<close>, an int32 that is only compared and printed is an \<open>int\<close>.
\<close>

section \<open>Core objects\<close>

type_synonym labels = "(string, string) gmap"

record service_port =
  sp_name :: string
  sp_port :: int

record service =
  svc_ns :: string
  svc_name :: string
  svc_type :: string
  svc_cluster_ip :: string
  svc_ports :: "service_port list"
  svc_selector :: labels
  svc_lb_ingress_ips :: "string list"
  svc_external_ips :: "string list"
  svc_lb_ip :: string

record endpoint =
  ep_addresses :: "string list"
  ep_ready :: "bool option"
  ep_terminating :: "bool option"

record slice_port =
  slp_name :: "string option"
  slp_port :: "int option"

record ep_slice =
  es_address_type :: string
  es_ports :: "slice_port list"
  es_endpoints :: "endpoint list"

record secret =
  sec_ns :: string
  sec_name :: string
  sec_labels :: labels
  sec_type :: string
  sec_data :: "(string, string) gmap"

record configmap =
  cm_ns :: string
  cm_name :: string
  cm_labels :: labels
  cm_annotations :: labels
  cm_data :: "(string, string) gmap"
  cm_binary :: "(string, string) gmap"

section \<open>Ingress\<close>

record ingress_service =
  is_name :: string
  is_port_name :: string
  is_port_number :: int

record ingress_backend =
  ib_service :: "ingress_service option"

record ingress_path =
  ip_path :: string
  ip_type :: "string option"
  ip_backend :: ingress_backend

record ingress_rule =
  ir_host :: string
  ir_http :: "ingress_path list option"

record ingress_tls =
  it_hosts :: "string list"
  it_secret :: string

record lb_ingress =
  lb_ip :: string
  lb_hostname :: string

record ingress =
  ing_ns :: string
  ing_name :: string
  ing_annotations :: labels
  ing_class :: "string option"
  ing_default_backend :: "ingress_backend option"
  ing_tls :: "ingress_tls list"
  ing_rules :: "ingress_rule list"
  ing_lb :: "lb_ingress list"

record ingress_class =
  ic_name :: string
  ic_controller :: string
  ic_annotations :: labels

section \<open>Gateway API\<close>

record condition =
  cond_type :: string
  cond_status :: string
  cond_reason :: string
  cond_message :: string
  cond_generation :: int
  cond_time :: int

record gateway_class =
  gc_name :: string
  gc_controller :: string
  gc_generation :: int
  gc_conditions :: "condition list"

record cert_ref =
  cr_kind :: "string option"
  cr_namespace :: "string option"
  cr_name :: string

record listener_tls =
  lt_mode :: "string option"
  lt_refs :: "cert_ref list"

record listener =
  li_hostname :: "string option"
  li_tls :: "listener_tls option"

record gateway =
  gw_ns :: string
  gw_name :: string
  gw_class :: string
  gw_generation :: int
  gw_listeners :: "listener list"
  gw_conditions :: "condition list"

record http_header =
  hh_name :: string
  hh_value :: string

record header_filter =
  hf_set :: "http_header list"
  hf_add :: "http_header list"

record route_filter =
  rf_type :: string
  rf_request :: "header_filter option"
  rf_response :: "header_filter option"

record path_match =
  pm_type :: "string option"
  pm_value :: "string option"

record route_match =
  rm_path :: "path_match option"
  rm_headers :: "string list"
  rm_method :: "string option"
  rm_query :: "string list"

record backend_ref =
  br_kind :: "string option"
  br_namespace :: "string option"
  br_name :: string
  br_port :: "int option"
  br_weight :: "int option"

record route_rule =
  rr_matches :: "route_match list"
  rr_filters :: "route_filter list"
  rr_backends :: "backend_ref list"

record parent_ref =
  pr_kind :: "string option"
  pr_namespace :: "string option"
  pr_name :: string

record parent_status =
  ps_parent :: parent_ref
  ps_controller :: string
  ps_conditions :: "condition list"

record http_route =
  hr_ns :: string
  hr_name :: string
  hr_annotations :: labels
  hr_generation :: int
  hr_parents :: "parent_ref list"
  hr_hostnames :: "string list"
  hr_rules :: "route_rule list"
  hr_status :: "parent_status list"

section \<open>The API client\<close>

text \<open>The answer of a \<^verbatim>\<open>Get\<close>: the object, \<^verbatim>\<open>NotFound\<close>, or another error.\<close>

datatype 'a got = Found 'a | Missing | GetFailed string

record api =
  get_service :: "string \<Rightarrow> string \<Rightarrow> service option"
  list_slices :: "string \<Rightarrow> string \<Rightarrow> ep_slice list option"
  get_secret :: "string \<Rightarrow> string \<Rightarrow> secret option"
  list_ingresses :: "ingress list option"
  list_ingress_classes :: "ingress_class list option"
  list_gateway_classes :: "gateway_class list option"
  list_gateways :: "gateway list option"
  list_http_routes :: "http_route list option"

section \<open>Metrics, events, status writes\<close>

text \<open>controllers/metrics.go, the counters and gauges; the value of a gauge is what was last set.\<close>

datatype metric =
    MRenderTotal | MRenderErrTotal | MRenderChangedTotal | MReloadTotal
  | MSyncTotal | MSyncChangedTotal | MSyncErrTotal | MSyncSourceMissing | MSyncLastTS
  | MEndpointsFallbackTotal | MRouteConflicts | MUnsupportedMatch | MBackendUnresolved
  | MHosts | MRoutes | MLastRenderTS | MReady | MCerts | MCertErrors

datatype event_type = EventNormal | EventWarning

record event =
  ev_ns :: string
  ev_name :: string
  ev_type :: event_type
  ev_reason :: string
  ev_message :: string

datatype status_write =
    WIngress string string "lb_ingress list"
  | WGatewayClass string "condition list"
  | WGateway string string "condition list"
  | WHTTPRoute string string "parent_status list"

record obs =
  metrics :: "metric \<Rightarrow> int"
  events :: "event list"
  status_writes :: "status_write list"

definition inc :: "metric \<Rightarrow> obs \<Rightarrow> obs" where
  "inc k s = s\<lparr>metrics := (metrics s)(k := metrics s k + 1)\<rparr>"

definition set_gauge :: "metric \<Rightarrow> int \<Rightarrow> obs \<Rightarrow> obs" where
  "set_gauge k v s = s\<lparr>metrics := (metrics s)(k := v)\<rparr>"

definition status_update :: "status_write \<Rightarrow> obs \<Rightarrow> obs" where
  "status_update w s = s\<lparr>status_writes := status_writes s @ [w]\<rparr>"

definition obs0 :: obs where
  "obs0 = \<lparr>metrics = (\<lambda>_. 0), events = [], status_writes = []\<rparr>"

lemma inc_simps [simp]:
  "metrics (inc k s) j = (if j = k then metrics s j + 1 else metrics s j)"
  "events (inc k s) = events s" "status_writes (inc k s) = status_writes s"
  by (simp_all add: inc_def)

lemma set_gauge_simps [simp]:
  "metrics (set_gauge k v s) j = (if j = k then v else metrics s j)"
  "events (set_gauge k v s) = events s" "status_writes (set_gauge k v s) = status_writes s"
  by (simp_all add: set_gauge_def)

lemma status_update_simps [simp]:
  "metrics (status_update w s) = metrics s" "events (status_update w s) = events s"
  "status_writes (status_update w s) = status_writes s @ [w]"
  by (simp_all add: status_update_def)

end
