(* ===== verification/Routes.thy ===== *)
theory Routes
  imports Objects
begin

text \<open>
  The render model of controllers/routes.go: the per-route configuration, the settings parsed
  from annotations, and the operations that record routes, certificates and passthrough hosts.
  Every registry is an instance of \<open>first_writer\<close>; the interpretations are at the end of the
  theory.
\<close>

section \<open>Data\<close>

definition annPrefix :: string where
  "annPrefix = ''synapse.gen0sec.com/''"

definition nginxPrefix :: string where
  "nginxPrefix = ''nginx.ingress.kubernetes.io/''"

record backend =
  b_addr :: string
  b_weight :: "32 word"

record route_cfg =
  rc_servers :: "backend list"
  rc_ssl :: "bool option"
  rc_http2 :: "bool option"
  rc_force_https :: "bool option"
  rc_healthcheck :: "bool option"
  rc_disable_access_log :: "bool option"
  rc_connect_timeout :: "64 word option"
  rc_read_timeout :: "64 word option"
  rc_write_timeout :: "64 word option"
  rc_idle_timeout :: "64 word option"
  rc_max_body_size :: "64 word option"
  rc_req_headers :: "string list"
  rc_resp_headers :: "string list"
  rc_redirect_status :: "64 word option"
  rc_redirect_location :: string
  rc_match_expr :: string

record ann_settings =
  an_ssl :: "bool option"
  an_http2 :: "bool option"
  an_force_https :: "bool option"
  an_healthcheck :: "bool option"
  an_disable_access_log :: "bool option"
  an_connect_timeout :: "64 word option"
  an_read_timeout :: "64 word option"
  an_write_timeout :: "64 word option"
  an_idle_timeout :: "64 word option"
  an_max_body_size :: "64 word option"
  an_req_headers :: "string list"
  an_resp_headers :: "string list"
  an_server_aliases :: "string list"
  an_passthrough :: bool
  an_redirect_status :: "64 word option"
  an_redirect_location :: string
  an_sticky :: bool
  an_use_regex :: bool

definition no_settings :: ann_settings where
  "no_settings =
     \<lparr>an_ssl = None, an_http2 = None, an_force_https = None, an_healthcheck = None,
      an_disable_access_log = None, an_connect_timeout = None, an_read_timeout = None,
      an_write_timeout = None, an_idle_timeout = None, an_max_body_size = None,
      an_req_headers = [], an_resp_headers = [], an_server_aliases = [], an_passthrough = False,
      an_redirect_status = None, an_redirect_location = [], an_sticky = False,
      an_use_regex = False\<rparr>"

record cert_projection =
  cp_stem :: string
  cp_ns :: string
  cp_name :: string

record render_model =
  rm_hosts :: "(string, (string, route_cfg) gmap) gmap"
  rm_acme :: string
  rm_host_cert :: "(string, string) gmap"
  rm_certs :: "(string, cert_projection) gmap"
  rm_passthrough :: "(string, string) gmap"
  rm_sticky :: bool

definition newRenderModel :: render_model where
  "newRenderModel =
     \<lparr>rm_hosts = [], rm_acme = [], rm_host_cert = [], rm_certs = [], rm_passthrough = [],
      rm_sticky = False\<rparr>"

section \<open>Recording certificates, routes and passthrough hosts\<close>

definition addCert :: "render_model \<Rightarrow> string \<Rightarrow> string \<Rightarrow> string \<Rightarrow> string \<Rightarrow> render_model" where
  "addCert m host stem ns name =
     (if stem = [] \<or> ns = [] \<or> name = [] then m
      else
        let m1 = (if ghas (rm_certs m) stem then m
                  else m\<lparr>rm_certs := gput stem \<lparr>cp_stem = stem, cp_ns = ns, cp_name = name\<rparr> (rm_certs m)\<rparr>)
        in if host \<noteq> [] \<and> \<not> ghas (rm_host_cert m1) host
           then m1\<lparr>rm_host_cert := gput host stem (rm_host_cert m1)\<rparr>
           else m1)"

text \<open>The path key of a route: trailing slashes trimmed, unless nothing would be left.\<close>

definition normPath :: "string \<Rightarrow> string" where
  "normPath path =
     (if path \<noteq> ''/'' then
        let trimmed = trim_right_byte (CHR ''/'') path
        in if trimmed \<noteq> [] then trimmed else path
      else path)"

definition host_paths :: "render_model \<Rightarrow> string \<Rightarrow> (string, route_cfg) gmap" where
  "host_paths m h = (case gget (rm_hosts m) h of None \<Rightarrow> [] | Some ps \<Rightarrow> ps)"

text \<open>The route block built from the settings; \<open>expr\<close> is empty for a prefix route.\<close>

definition mkRoute ::
  "backend list \<Rightarrow> ann_settings \<Rightarrow> string list \<Rightarrow> string list \<Rightarrow> string \<Rightarrow> route_cfg" where
  "mkRoute servers a extraReq extraResp expr =
     \<lparr>rc_servers = servers, rc_ssl = an_ssl a, rc_http2 = an_http2 a,
      rc_force_https = an_force_https a, rc_healthcheck = an_healthcheck a,
      rc_disable_access_log = an_disable_access_log a,
      rc_connect_timeout = an_connect_timeout a, rc_read_timeout = an_read_timeout a,
      rc_write_timeout = an_write_timeout a, rc_idle_timeout = an_idle_timeout a,
      rc_max_body_size = an_max_body_size a, rc_req_headers = an_req_headers a @ extraReq,
      rc_resp_headers = an_resp_headers a @ extraResp,
      rc_redirect_status = an_redirect_status a, rc_redirect_location = an_redirect_location a,
      rc_match_expr = expr\<rparr>"

text \<open>
  The common tail of \<open>addRoute\<close> and \<open>addRegexRoute\<close>: refuse a passthrough host, create the
  path map of a new host, refuse a taken key, store.
\<close>

definition storeRoute ::
  "render_model \<Rightarrow> string \<Rightarrow> string \<Rightarrow> route_cfg \<Rightarrow> render_model \<times> bool" where
  "storeRoute m host key rc =
     (if ghas (rm_passthrough m) host then (m, False)
      else
        let m1 = (if ghas (rm_hosts m) host then m else m\<lparr>rm_hosts := gput host [] (rm_hosts m)\<rparr>)
        in if ghas (host_paths m1 host) key then (m1, False)
           else (m1\<lparr>rm_hosts := gput host (gput key rc (host_paths m1 host)) (rm_hosts m1)\<rparr>, True))"

definition setSticky :: "ann_settings \<Rightarrow> render_model \<Rightarrow> render_model" where
  "setSticky a m = (if an_sticky a then m\<lparr>rm_sticky := True\<rparr> else m)"

definition addRoute ::
  "render_model \<Rightarrow> string \<Rightarrow> string \<Rightarrow> backend list \<Rightarrow> ann_settings \<Rightarrow> string list \<Rightarrow> string list
    \<Rightarrow> render_model \<times> bool" where
  "addRoute m host path servers a extraReq extraResp =
     (case storeRoute m host (normPath path) (mkRoute servers a extraReq extraResp []) of
        (m', ok) \<Rightarrow> (if ok then setSticky a m' else m', ok))"

definition regexRouteKey :: "string \<Rightarrow> string" where
  "regexRouteKey regex = ''expr:'' @ regex"

definition pathRegexExpr :: "(int \<Rightarrow> bool) \<Rightarrow> string \<Rightarrow> string" where
  "pathRegexExpr prt regex =
     (let anchored = (if \<not> has_prefix regex ''^'' then ''^'' @ regex else regex)
      in ''http.request.path matches '' @ quote prt anchored)"

definition addRegexRoute ::
  "(int \<Rightarrow> bool) \<Rightarrow> render_model \<Rightarrow> string \<Rightarrow> string \<Rightarrow> backend list \<Rightarrow> ann_settings
    \<Rightarrow> string list \<Rightarrow> string list \<Rightarrow> render_model \<times> bool" where
  "addRegexRoute prt m host regex servers a extraReq extraResp =
     (if regex = [] then (m, False)
      else case storeRoute m host (regexRouteKey regex)
                  (mkRoute servers a extraReq extraResp (pathRegexExpr prt regex)) of
        (m', ok) \<Rightarrow> (if ok then setSticky a m' else m', ok))"

definition addPassthroughHost :: "render_model \<Rightarrow> string \<Rightarrow> string \<Rightarrow> render_model \<times> bool" where
  "addPassthroughHost m host upstream =
     (if host = [] \<or> upstream = [] then (m, False)
      else if ghas (rm_passthrough m) host then (m, False)
      else if host_paths m host \<noteq> [] then (m, False)
      else (m\<lparr>rm_passthrough := gput host upstream (rm_passthrough m)\<rparr>, True))"

section \<open>Parsing annotation values\<close>

definition parseBool :: "string \<Rightarrow> bool option" where
  "parseBool s =
     (let v = equal_fold (trim_space s) ''true''
      in if \<not> v \<and> \<not> equal_fold (trim_space s) ''false'' then None else Some v)"

definition parseUint :: "string \<Rightarrow> 64 word option" where
  "parseUint s = ParseUint (trim_space s)"

definition size_suffix :: "char \<Rightarrow> 64 word" where
  "size_suffix c =
     (if c = CHR ''k'' \<or> c = CHR ''K'' then 1024
      else if c = CHR ''m'' \<or> c = CHR ''M'' then 1024 * 1024
      else if c = CHR ''g'' \<or> c = CHR ''G'' then 1024 * 1024 * 1024
      else 1)"

definition parseSize :: "string \<Rightarrow> 64 word option" where
  "parseSize s =
     (let t = trim_space s in
      if t = [] then None
      else
        let mul = size_suffix (last t);
            t' = (if mul = 1 then t else butlast t)
        in case ParseUint (trim_space t') of
             None \<Rightarrow> None
           | Some n \<Rightarrow> if 1 < mul \<and> n > (- 1) div mul then None else Some (n * mul))"

definition csv :: "string \<Rightarrow> string list" where
  "csv s = filter (\<lambda>t. t \<noteq> []) (map trim_space (split_on (CHR '','') s))"

section \<open>Annotations\<close>

text \<open>\<open>get\<close> of the code, and the lookup that falls back to the nginx-compatible key.\<close>

definition ann_get :: "labels \<Rightarrow> string \<Rightarrow> string option" where
  "ann_get ann k = gget ann (annPrefix @ k)"

definition ann_nginx :: "labels \<Rightarrow> string \<Rightarrow> string option" where
  "ann_nginx ann k = gget ann (nginxPrefix @ k)"

definition ann_either :: "labels \<Rightarrow> string \<Rightarrow> string option" where
  "ann_either ann k = (case ann_get ann k of Some v \<Rightarrow> Some v | None \<Rightarrow> ann_nginx ann k)"

definition opt_str :: "string option \<Rightarrow> string" where
  "opt_str v = (case v of None \<Rightarrow> [] | Some s \<Rightarrow> s)"

definition flag_of :: "string option \<Rightarrow> bool" where
  "flag_of v = (case v of None \<Rightarrow> False | Some s \<Rightarrow> (case parseBool s of None \<Rightarrow> False | Some b \<Rightarrow> b))"

definition pickRedirect ::
  "labels \<Rightarrow> string \<Rightarrow> string \<Rightarrow> 64 word \<Rightarrow> ann_settings \<Rightarrow> ann_settings" where
  "pickRedirect ann urlKey codeKey defaultStatus s =
     (let loc = trim_space (opt_str (ann_either ann urlKey)) in
      if loc = [] then s
      else
        let codeStr = opt_str (ann_either ann codeKey);
            status = (if codeStr \<noteq> [] then (case parseUint codeStr of None \<Rightarrow> defaultStatus | Some n \<Rightarrow> n)
                      else defaultStatus)
        in s\<lparr>an_redirect_location := loc, an_redirect_status := Some status\<rparr>)"

definition parseAnnotations :: "labels \<Rightarrow> ann_settings" where
  "parseAnnotations ann =
     (let bp = opt_str (ann_either ann ''backend-protocol'');
          s0 = no_settings\<lparr>
            an_ssl := (if bp \<noteq> [] then Some (equal_fold bp ''HTTPS'') else None),
            an_http2 := Option.bind (ann_get ann ''http2'') parseBool,
            an_use_regex := flag_of (ann_either ann ''use-regex''),
            an_force_https :=
              (case ann_get ann ''force-https'' of
                 Some v \<Rightarrow> parseBool v
               | None \<Rightarrow> Option.bind (ann_either ann ''ssl-redirect'') parseBool),
            an_healthcheck := Option.bind (ann_get ann ''healthcheck'') parseBool,
            an_disable_access_log := Option.bind (ann_get ann ''disable-access-log'') parseBool,
            an_connect_timeout := Option.bind (ann_get ann ''connect-timeout'') parseUint,
            an_read_timeout := Option.bind (ann_get ann ''read-timeout'') parseUint,
            an_write_timeout := Option.bind (ann_get ann ''write-timeout'') parseUint,
            an_idle_timeout := Option.bind (ann_get ann ''idle-timeout'') parseUint,
            an_max_body_size := Option.bind (ann_either ann ''proxy-body-size'') parseSize,
            an_req_headers := (case ann_get ann ''request-headers'' of None \<Rightarrow> [] | Some v \<Rightarrow> csv v),
            an_resp_headers := (case ann_get ann ''response-headers'' of None \<Rightarrow> [] | Some v \<Rightarrow> csv v),
            an_server_aliases := (case ann_either ann ''server-alias'' of None \<Rightarrow> [] | Some v \<Rightarrow> csv v),
            an_passthrough := flag_of (ann_either ann ''ssl-passthrough'')\<rparr>;
          s1 = pickRedirect ann ''temporal-redirect'' ''temporal-redirect-code'' 302 s0;
          s2 = pickRedirect ann ''permanent-redirect'' ''permanent-redirect-code'' 301 s1
      in s2\<lparr>an_sticky := flag_of (ann_get ann ''sticky-sessions'')\<rparr>)"

section \<open>The registries are first-writer-wins\<close>

named_theorems model_frame \<open>fields an operation on the render model leaves alone\<close>

definition route_at :: "render_model \<Rightarrow> string \<times> string \<Rightarrow> route_cfg option" where
  "route_at m hk = gget (host_paths m (fst hk)) (snd hk)"

definition host_claimed :: "render_model \<Rightarrow> string \<times> string \<Rightarrow> bool" where
  "host_claimed m hk = ghas (rm_passthrough m) (fst hk)"

lemma host_paths_gput:
  "host_paths (m\<lparr>rm_hosts := gput h ps (rm_hosts m)\<rparr>) h' = (if h' = h then ps else host_paths m h')"
  by (simp add: host_paths_def gmap_simps)

lemma host_paths_absent: "\<not> ghas (rm_hosts m) h \<Longrightarrow> host_paths m h = []"
  by (simp add: host_paths_def ghas_def)

lemma host_paths_frame [model_frame]:
  "host_paths (m\<lparr>rm_acme := a\<rparr>) = host_paths m" "host_paths (m\<lparr>rm_sticky := b\<rparr>) = host_paths m"
  "host_paths (m\<lparr>rm_certs := c\<rparr>) = host_paths m" "host_paths (m\<lparr>rm_host_cert := d\<rparr>) = host_paths m"
  "host_paths (m\<lparr>rm_passthrough := e\<rparr>) = host_paths m"
  by (simp_all add: host_paths_def fun_eq_iff)

text \<open>The path map a new host gets is filled at once, so creating it is not observable.\<close>

lemma storeRoute_eq:
  "storeRoute m h k rc =
     (if ghas (rm_passthrough m) h \<or> ghas (host_paths m h) k then (m, False)
      else (m\<lparr>rm_hosts := gput h (gput k rc (host_paths m h)) (rm_hosts m)\<rparr>, True))"
  by (simp add: storeRoute_def Let_def host_paths_gput host_paths_absent ghas_def [of "[]"])

lemma storeRoute_answer:
  "snd (storeRoute m h k rc) \<longleftrightarrow> \<not> ghas (rm_passthrough m) h \<and> route_at m (h, k) = None"
  by (simp add: storeRoute_eq route_at_def ghas_def [of "host_paths m h"])

lemma storeRoute_route_at:
  "route_at (fst (storeRoute m h k rc)) =
     (if snd (storeRoute m h k rc) then (route_at m)((h, k) \<mapsto> rc) else route_at m)"
  by (rule ext) (auto simp: storeRoute_eq route_at_def host_paths_gput gmap_simps)

lemma route_at_frame [model_frame]:
  "route_at (m\<lparr>rm_acme := a\<rparr>) = route_at m" "route_at (m\<lparr>rm_sticky := b\<rparr>) = route_at m"
  "route_at (m\<lparr>rm_passthrough := e\<rparr>) = route_at m"
  by (simp_all add: route_at_def model_frame fun_eq_iff)

lemma storeRoute_frame [model_frame]:
  "rm_acme (fst (storeRoute m h k rc)) = rm_acme m"
  "rm_host_cert (fst (storeRoute m h k rc)) = rm_host_cert m"
  "rm_certs (fst (storeRoute m h k rc)) = rm_certs m"
  "rm_passthrough (fst (storeRoute m h k rc)) = rm_passthrough m"
  "rm_sticky (fst (storeRoute m h k rc)) = rm_sticky m"
  by (simp_all add: storeRoute_def Let_def)

lemma setSticky_frame [model_frame]:
  "rm_hosts (setSticky a m) = rm_hosts m" "rm_acme (setSticky a m) = rm_acme m"
  "rm_host_cert (setSticky a m) = rm_host_cert m" "rm_certs (setSticky a m) = rm_certs m"
  "rm_passthrough (setSticky a m) = rm_passthrough m"
  "host_paths (setSticky a m) = host_paths m" "route_at (setSticky a m) = route_at m"
  by (simp_all add: setSticky_def model_frame route_at_def fun_eq_iff)

interpretation routes: answering_writer route_at host_claimed "\<lambda>_ _. True"
    "\<lambda>m hk rc. fst (storeRoute m (fst hk) (snd hk) rc)"
    "\<lambda>m hk rc. snd (storeRoute m (fst hk) (snd hk) rc)"
  by unfold_locales
    (auto simp: storeRoute_route_at storeRoute_answer host_claimed_def model_frame intro!: ext)

interpretation passthrough: answering_writer "\<lambda>m. gget (rm_passthrough m)"
    "\<lambda>m h. host_paths m h \<noteq> []" "\<lambda>h up. h \<noteq> [] \<and> up \<noteq> []"
    "\<lambda>m h up. fst (addPassthroughHost m h up)" "\<lambda>m h up. snd (addPassthroughHost m h up)"
  by unfold_locales (auto simp: addPassthroughHost_def ghas_def gmap_simps model_frame fun_eq_iff)

lemma addCert_certs:
  "gget (rm_certs (addCert m host stem ns name)) =
     (if stem \<noteq> [] \<and> ns \<noteq> [] \<and> name \<noteq> [] \<and> gget (rm_certs m) stem = None
      then (gget (rm_certs m))(stem \<mapsto> \<lparr>cp_stem = stem, cp_ns = ns, cp_name = name\<rparr>)
      else gget (rm_certs m))"
  by (auto simp: addCert_def Let_def ghas_def gmap_simps)

lemma addCert_host_cert:
  "gget (rm_host_cert (addCert m host stem ns name)) =
     (if stem \<noteq> [] \<and> ns \<noteq> [] \<and> name \<noteq> [] \<and> host \<noteq> [] \<and> gget (rm_host_cert m) host = None
      then (gget (rm_host_cert m))(host \<mapsto> stem) else gget (rm_host_cert m))"
  by (auto simp: addCert_def Let_def ghas_def gmap_simps)

lemma addCert_frame [model_frame]:
  "rm_hosts (addCert m h st ns n) = rm_hosts m" "rm_acme (addCert m h st ns n) = rm_acme m"
  "rm_passthrough (addCert m h st ns n) = rm_passthrough m"
  "rm_sticky (addCert m h st ns n) = rm_sticky m"
  by (simp_all add: addCert_def Let_def)

interpretation certs: first_writer "\<lambda>m. gget (rm_certs m)" "\<lambda>_ _. False"
    "\<lambda>stem cp. stem \<noteq> [] \<and> cp_stem cp = stem \<and> cp_ns cp \<noteq> [] \<and> cp_name cp \<noteq> []"
    "\<lambda>m stem cp. if cp_stem cp = stem then addCert m [] stem (cp_ns cp) (cp_name cp) else m"
  by unfold_locales (auto simp: addCert_certs)

interpretation host_certs: first_writer "\<lambda>m. gget (rm_host_cert m)" "\<lambda>_ _. False"
    "\<lambda>host stem. host \<noteq> [] \<and> stem \<noteq> [] \<and> ns \<noteq> [] \<and> name \<noteq> []"
    "\<lambda>m host stem. addCert m host stem ns name" for ns name
  by unfold_locales (auto simp: addCert_host_cert)

section \<open>The invariant of the render model\<close>

text \<open>
  A route key is a normalised path (prefix route) or the label of a regex with the matching
  expression. \<open>model_inv\<close>: every map is well-formed, a host in the route table has at least
  one route, no host is both terminated and passed through, every bound host names a scheduled
  certificate, and a certificate is filed under its own stem.
\<close>

definition route_key_ok :: "(int \<Rightarrow> bool) \<Rightarrow> string \<Rightarrow> route_cfg \<Rightarrow> bool" where
  "route_key_ok prt k rc \<longleftrightarrow>
     (if rc_match_expr rc = [] then normPath k = k
      else has_prefix k ''expr:'' \<and> drop 5 k \<noteq> [] \<and> rc_match_expr rc = pathRegexExpr prt (drop 5 k))"

definition hosts_inv :: "(int \<Rightarrow> bool) \<Rightarrow> render_model \<Rightarrow> bool" where
  "hosts_inv prt m \<longleftrightarrow> gmap_ok (rm_hosts m) \<and>
     (\<forall>(h, ps) \<in> set (rm_hosts m). gmap_ok ps \<and> ps \<noteq> [] \<and> (\<forall>(k, rc) \<in> set ps. route_key_ok prt k rc))"

definition certs_inv :: "render_model \<Rightarrow> bool" where
  "certs_inv m \<longleftrightarrow> gmap_ok (rm_host_cert m) \<and> gmap_ok (rm_certs m) \<and>
     (\<forall>h st. gget (rm_host_cert m) h = Some st \<longrightarrow> h \<noteq> [] \<and> ghas (rm_certs m) st) \<and>
     (\<forall>st cp. gget (rm_certs m) st = Some cp \<longrightarrow>
        st \<noteq> [] \<and> cp_stem cp = st \<and> cp_ns cp \<noteq> [] \<and> cp_name cp \<noteq> [])"

definition passthrough_inv :: "render_model \<Rightarrow> bool" where
  "passthrough_inv m \<longleftrightarrow> gmap_ok (rm_passthrough m) \<and>
     (\<forall>h up. gget (rm_passthrough m) h = Some up \<longrightarrow> h \<noteq> [] \<and> up \<noteq> [] \<and> \<not> ghas (rm_hosts m) h)"

definition model_inv :: "(int \<Rightarrow> bool) \<Rightarrow> render_model \<Rightarrow> bool" where
  "model_inv prt m \<longleftrightarrow> hosts_inv prt m \<and> certs_inv m \<and> passthrough_inv m"

lemmas model_inv_defs = model_inv_def hosts_inv_def certs_inv_def passthrough_inv_def

lemma model_inv_new: "model_inv prt newRenderModel"
  by (simp add: model_inv_defs newRenderModel_def)

lemma normPath_idem [simp]: "normPath (normPath p) = normPath p"
  by (auto simp: normPath_def Let_def)

lemma pathRegexExpr_nonempty [simp]: "pathRegexExpr prt r \<noteq> []"
  by (simp add: pathRegexExpr_def)

lemma route_key_ok_prefix: "route_key_ok prt (normPath p) (mkRoute sv a rq rs [])"
  by (simp add: route_key_ok_def mkRoute_def)

lemma route_key_ok_regex:
  "r \<noteq> [] \<Longrightarrow> route_key_ok prt (regexRouteKey r) (mkRoute sv a rq rs (pathRegexExpr prt r))"
  by (simp add: route_key_ok_def mkRoute_def regexRouteKey_def)

lemma host_paths_inv:
  "hosts_inv prt m \<Longrightarrow> gmap_ok (host_paths m h) \<and> (\<forall>(k, rc) \<in> set (host_paths m h). route_key_ok prt k rc)"
  by (auto simp: hosts_inv_def host_paths_def split: option.splits dest!: map_of_SomeD)

lemma host_paths_empty_iff: "hosts_inv prt m \<Longrightarrow> host_paths m h = [] \<longleftrightarrow> \<not> ghas (rm_hosts m) h"
  by (auto simp: hosts_inv_def host_paths_def ghas_def split: option.splits dest!: map_of_SomeD)

lemma hosts_inv_storeRoute:
  assumes inv: "hosts_inv prt m" and key: "route_key_ok prt k rc"
  shows "hosts_inv prt (fst (storeRoute m h k rc))"
proof (cases "snd (storeRoute m h k rc)")
  case True
  let ?ps = "gput k rc (host_paths m h)"
  have ps: "gmap_ok ?ps \<and> (\<forall>(k, rc) \<in> set ?ps. route_key_ok prt k rc)"
    using host_paths_inv [OF inv, of h] key by (auto dest!: gput_values)
  have "hosts_inv prt (m\<lparr>rm_hosts := gput h ?ps (rm_hosts m)\<rparr>)"
    using inv ps by (auto simp: hosts_inv_def dest!: gput_values)
  then show ?thesis using True by (auto simp: storeRoute_eq)
next
  case False
  then show ?thesis using inv by (auto simp: storeRoute_eq split: if_splits)
qed

lemma storeRoute_ghas_hosts:
  "ghas (rm_hosts (fst (storeRoute m h k rc))) h' \<longleftrightarrow>
     ghas (rm_hosts m) h' \<or> h' = h \<and> snd (storeRoute m h k rc)"
  by (auto simp: storeRoute_eq ghas_gput)

lemma model_inv_storeRoute:
  assumes inv: "model_inv prt m" and key: "route_key_ok prt k rc"
  shows "model_inv prt (fst (storeRoute m h k rc))"
proof -
  have "passthrough_inv (fst (storeRoute m h k rc))"
    using inv by (auto simp: model_inv_def passthrough_inv_def model_frame storeRoute_ghas_hosts
        storeRoute_answer ghas_def [of "rm_passthrough m"])
  moreover have "certs_inv (fst (storeRoute m h k rc))"
    using inv by (simp add: model_inv_def certs_inv_def model_frame)
  ultimately show ?thesis
    using inv hosts_inv_storeRoute [OF _ key] by (simp add: model_inv_def)
qed

lemma model_inv_sticky_acme [simp]:
  "model_inv prt (m\<lparr>rm_sticky := b\<rparr>) = model_inv prt m"
  "model_inv prt (m\<lparr>rm_acme := a\<rparr>) = model_inv prt m"
  by (simp_all add: model_inv_defs)

lemma model_inv_setSticky [simp]: "model_inv prt (setSticky a m) = model_inv prt m"
  by (simp add: setSticky_def)

lemma storeRoute_refused: "\<not> snd (storeRoute m h k rc) \<Longrightarrow> fst (storeRoute m h k rc) = m"
  by (auto simp: storeRoute_eq split: if_splits)

lemma addRoute_fst:
  "fst (addRoute m h p sv a rq rs) =
     (let r = storeRoute m h (normPath p) (mkRoute sv a rq rs [])
      in if snd r then setSticky a (fst r) else fst r)"
  "snd (addRoute m h p sv a rq rs) = snd (storeRoute m h (normPath p) (mkRoute sv a rq rs []))"
  by (simp_all add: addRoute_def Let_def split: prod.split)

lemma addRegexRoute_fst:
  "fst (addRegexRoute prt m h r sv a rq rs) =
     (if r = [] then m
      else let s = storeRoute m h (regexRouteKey r) (mkRoute sv a rq rs (pathRegexExpr prt r))
           in if snd s then setSticky a (fst s) else fst s)"
  "snd (addRegexRoute prt m h r sv a rq rs) \<longleftrightarrow> r \<noteq> [] \<and>
     snd (storeRoute m h (regexRouteKey r) (mkRoute sv a rq rs (pathRegexExpr prt r)))"
  by (simp_all add: addRegexRoute_def Let_def split: prod.split)

lemma model_inv_addRoute: "model_inv prt m \<Longrightarrow> model_inv prt (fst (addRoute m h p sv a rq rs))"
  by (simp add: addRoute_fst Let_def model_inv_storeRoute route_key_ok_prefix)

lemma model_inv_addRegexRoute:
  "model_inv prt m \<Longrightarrow> model_inv prt (fst (addRegexRoute prt m h r sv a rq rs))"
  by (simp add: addRegexRoute_fst Let_def model_inv_storeRoute route_key_ok_regex)

lemma model_inv_addPassthroughHost:
  assumes "model_inv prt m"
  shows "model_inv prt (fst (addPassthroughHost m h up))"
proof -
  have "host_paths m h = [] \<longleftrightarrow> \<not> ghas (rm_hosts m) h"
    using assms by (simp add: model_inv_def host_paths_empty_iff [of prt])
  then show ?thesis
    using assms by (auto simp: addPassthroughHost_def model_inv_defs gmap_simps)
qed

lemma model_inv_addCert:
  assumes "model_inv prt m"
  shows "model_inv prt (addCert m h st ns n)"
proof -
  have "gmap_ok (rm_host_cert (addCert m h st ns n)) \<and> gmap_ok (rm_certs (addCert m h st ns n))"
    using assms by (auto simp: model_inv_defs addCert_def Let_def)
  then have "certs_inv (addCert m h st ns n)"
    using assms
    by (auto simp: model_inv_defs addCert_certs addCert_host_cert ghas_def split: if_splits)
  then show ?thesis
    using assms by (simp add: model_inv_defs model_frame)
qed

lemmas model_inv_ops = model_inv_addRoute model_inv_addRegexRoute model_inv_addPassthroughHost
  model_inv_addCert

section \<open>Path keys\<close>

lemma trim_right_byte_empty: "trim_right_byte c s = [] \<longleftrightarrow> set s \<subseteq> {c}"
  by (auto simp: trim_right_byte_def)

lemma normPath_split: "\<exists>n. p = normPath p @ replicate n (CHR ''/'')"
  using trim_right_byte_split [of p "CHR ''/''"]
  by (auto simp: normPath_def Let_def intro: exI [of _ 0])

text \<open>
  The key under which a prefix route is stored is its path with trailing slashes
  removed: it differs from the path by trailing slashes only, is a fixed point of the
  normalisation, and still ends in a slash only when the path has nothing but slashes.
\<close>

theorem normPath_spec:
  "(\<exists>n. p = normPath p @ replicate n (CHR ''/'')) \<and> normPath (normPath p) = normPath p \<and>
   (normPath p \<noteq> [] \<and> last (normPath p) = CHR ''/'' \<longleftrightarrow> p \<noteq> [] \<and> set p \<subseteq> {CHR ''/''})"
proof -
  have "normPath p \<noteq> [] \<and> last (normPath p) = CHR ''/'' \<longleftrightarrow> p \<noteq> [] \<and> set p \<subseteq> {CHR ''/''}"
    using trim_right_byte_suffix [of "CHR ''/''" p] last_in_set [of p]
    by (auto simp: normPath_def Let_def trim_right_byte_empty subset_iff)
  then show ?thesis using normPath_split [of p] by simp
qed

lemma normPath_head: "p \<noteq> [] \<Longrightarrow> normPath p \<noteq> [] \<and> hd (normPath p) = hd p"
proof -
  assume "p \<noteq> []"
  obtain n where p: "p = normPath p @ replicate n (CHR ''/'')" using normPath_split by blast
  have "normPath p \<noteq> []" using \<open>p \<noteq> []\<close> by (auto simp: normPath_def Let_def)
  with p show ?thesis by (metis hd_append2)
qed

lemma normPath_not_regex: "has_prefix p ''/'' \<Longrightarrow> normPath p \<noteq> regexRouteKey r"
  using normPath_head [of p] by (cases p) (auto simp: regexRouteKey_def)

section \<open>Claims on the route table\<close>

text \<open>
  Claim C14. Recording a prefix route: it is granted exactly when the host is not passed
  through and the (host, normalised path) key is free. A granted route can then be looked up
  with the object's settings; the other routes, the passthrough hosts, the certificates and the
  ACME domains stay what they were, and the sticky flag is raised when the object asks for it.
  A refused route leaves the whole render model as it was.
\<close>

theorem addRoute_first_writer:
  "(snd (addRoute m h p sv a rq rs) \<longleftrightarrow>
      \<not> ghas (rm_passthrough m) h \<and> route_at m (h, normPath p) = None) \<and>
   route_at (fst (addRoute m h p sv a rq rs)) =
     (if snd (addRoute m h p sv a rq rs)
      then (route_at m)((h, normPath p) \<mapsto> mkRoute sv a rq rs []) else route_at m) \<and>
   rm_passthrough (fst (addRoute m h p sv a rq rs)) = rm_passthrough m \<and>
   rm_acme (fst (addRoute m h p sv a rq rs)) = rm_acme m \<and>
   rm_host_cert (fst (addRoute m h p sv a rq rs)) = rm_host_cert m \<and>
   rm_certs (fst (addRoute m h p sv a rq rs)) = rm_certs m \<and>
   rm_sticky (fst (addRoute m h p sv a rq rs)) =
     (rm_sticky m \<or> snd (addRoute m h p sv a rq rs) \<and> an_sticky a) \<and>
   (snd (addRoute m h p sv a rq rs) \<or> fst (addRoute m h p sv a rq rs) = m)"
proof -
  have "fst (addRoute m h p sv a rq rs) = m" if "\<not> snd (addRoute m h p sv a rq rs)"
    using that storeRoute_refused by (simp add: addRoute_fst Let_def)
  then show ?thesis
    by (auto simp: addRoute_fst Let_def storeRoute_route_at storeRoute_answer model_frame
        setSticky_def [of a])
qed

text \<open>
  Recording a regex route has the same contract under the regex label, the stored
  route carries the anchored match expression, and an empty regex is always refused.
\<close>

theorem addRegexRoute_first_writer:
  "(snd (addRegexRoute prt m h r sv a rq rs) \<longleftrightarrow>
      r \<noteq> [] \<and> \<not> ghas (rm_passthrough m) h \<and> route_at m (h, regexRouteKey r) = None) \<and>
   route_at (fst (addRegexRoute prt m h r sv a rq rs)) =
     (if snd (addRegexRoute prt m h r sv a rq rs)
      then (route_at m)((h, regexRouteKey r) \<mapsto> mkRoute sv a rq rs (pathRegexExpr prt r))
      else route_at m)"
  by (auto simp: addRegexRoute_fst Let_def storeRoute_route_at storeRoute_answer model_frame)

section \<open>Sizes\<close>

definition size_units :: "(string \<times> int) list" where
  "size_units =
     [([], 1), (''k'', 1024), (''K'', 1024), (''m'', 1048576), (''M'', 1048576),
      (''g'', 1073741824), (''G'', 1073741824)]"

lemma int_div_less_iff:
  fixes a b c :: int
  assumes "0 < b"
  shows "a div b < c \<longleftrightarrow> a < c * b"
proof
  assume "a div b < c"
  then have "(a div b + 1) * b \<le> c * b" using assms by (intro mult_right_mono) auto
  moreover have "a < (a div b + 1) * b"
    using div_mult_mod_eq [of a b] pos_mod_bound [OF assms, of a] unfolding distrib_right by linarith
  ultimately show "a < c * b" by simp
next
  assume "a < c * b"
  moreover have "c * b \<le> a div b * b" if "c \<le> a div b"
    using that assms by (intro mult_right_mono) auto
  moreover have "a div b * b \<le> a"
    using div_mult_mod_eq [of a b] pos_mod_sign [OF assms, of a] by linarith
  ultimately show "a div b < c" by (metis linorder_not_le order_less_le_trans order_less_irrefl)
qed

lemma overflow_guard:
  fixes w mul :: "64 word"
  assumes "1 < uint mul"
  shows "w > (- 1) div mul \<longleftrightarrow> 2 ^ 64 \<le> uint w * uint mul"
proof -
  have "w > (- 1) div mul \<longleftrightarrow> (2 ^ 64 - 1) div uint mul < uint w"
    by (simp add: word_less_def uint_div unsigned_minus_1_eq_mask mask_eq_exp_minus_1)
  also have "\<dots> \<longleftrightarrow> 2 ^ 64 - 1 < uint w * uint mul"
    using assms by (simp add: int_div_less_iff)
  finally show ?thesis by auto
qed

lemma size_suffix_unit: "([c], mul) \<in> set size_units \<Longrightarrow> size_suffix c = word_of_int mul \<and> 1 < mul \<and> mul < 2 ^ 64"
  by (auto simp: size_units_def size_suffix_def)

lemma size_suffix_none: "size_suffix c = 1 \<longleftrightarrow> [c] \<notin> fst ` set size_units"
  by (auto simp: size_units_def size_suffix_def)

lemma size_unit_cases: "(u, mul) \<in> set size_units \<Longrightarrow> u = [] \<and> mul = 1 \<or> (\<exists>c. u = [c])"
  by (auto simp: size_units_def)

lemma is_digit_no_suffix: "is_digit c \<Longrightarrow> size_suffix c = 1"
  by (auto simp: size_suffix_def is_digit_def)

text \<open>The word arithmetic of the code is the integer product, or nothing when that does not fit.\<close>

lemma checked_mul:
  fixes n :: "64 word"
  assumes "1 < mul" "mul < 2 ^ 64"
  shows "(if (1 :: 64 word) < word_of_int mul \<and> n > (- 1) div word_of_int mul then None
          else Some (n * word_of_int mul)) = Some w \<longleftrightarrow> uint w = uint n * mul"
proof -
  have u: "uint (word_of_int mul :: 64 word) = mul" using assms by (simp add: uint_word_of_int)
  then have one: "(1 :: 64 word) < word_of_int mul" using assms(1) by (simp add: word_less_def)
  have guard: "n > (- 1) div word_of_int mul \<longleftrightarrow> 2 ^ 64 \<le> uint n * mul"
    using overflow_guard [of "word_of_int mul" n] u assms(1) by simp
  have prod: "uint (n * word_of_int mul) = uint n * mul" if "uint n * mul < 2 ^ 64"
    using that u iffD1 [OF uint_mult_lem, of n "word_of_int mul"] by simp
  show ?thesis
  proof (cases "2 ^ 64 \<le> uint n * mul")
    case True
    moreover have "uint w < 2 ^ 64" using uint_bounded [of w] by simp
    ultimately show ?thesis using guard one by simp
  next
    case False
    then show ?thesis using guard prod by (auto simp: word_uint_eq_iff)
  qed
qed

lemma ParseUint_iff:
  "ParseUint s = Some n \<longleftrightarrow> s \<noteq> [] \<and> list_all is_digit s \<and> uint n = digits_val s"
proof
  assume "ParseUint s = Some n"
  then show "s \<noteq> [] \<and> list_all is_digit s \<and> uint n = digits_val s"
    using ParseUint_uint [of s n] by (auto simp: ParseUint_def split: if_splits)
next
  assume r: "s \<noteq> [] \<and> list_all is_digit s \<and> uint n = digits_val s"
  moreover have "uint n < 2 ^ 64" using uint_bounded [of n] by simp
  moreover have "word_of_int (uint n) = n" by (rule word_of_int_uint)
  ultimately show "ParseUint s = Some n" by (simp add: ParseUint_def)
qed

text \<open>A number that fits after it was multiplied fitted before.\<close>

lemma ParseUint_times:
  assumes "1 \<le> mul"
  shows "(\<exists>n. ParseUint s = Some n \<and> uint (w :: 64 word) = uint n * mul) \<longleftrightarrow>
    s \<noteq> [] \<and> list_all is_digit s \<and> uint w = digits_val s * mul"
proof
  assume "\<exists>n. ParseUint s = Some n \<and> uint w = uint n * mul"
  then show "s \<noteq> [] \<and> list_all is_digit s \<and> uint w = digits_val s * mul"
    by (auto simp: ParseUint_iff)
next
  assume r: "s \<noteq> [] \<and> list_all is_digit s \<and> uint w = digits_val s * mul"
  then have "0 \<le> digits_val s" using digits_val_nonneg by blast
  then have "digits_val s * 1 \<le> digits_val s * mul" using assms by (rule mult_left_mono [rotated])
  moreover have "uint w < 2 ^ 64" using uint_bounded [of w] by simp
  ultimately have "uint (word_of_int (digits_val s) :: 64 word) = digits_val s"
    using r \<open>0 \<le> digits_val s\<close> by (simp add: uint_word_of_int)
  then show "\<exists>n. ParseUint s = Some n \<and> uint w = uint n * mul"
    using r by (intro exI [of _ "word_of_int (digits_val s)"]) (simp add: ParseUint_iff)
qed

lemma parseSize_unit:
  assumes "trim_space s = pre @ [c]" and unit: "([c], mul) \<in> set size_units"
  shows "parseSize s = Some w \<longleftrightarrow>
    trim_space pre \<noteq> [] \<and> list_all is_digit (trim_space pre) \<and>
    uint w = digits_val (trim_space pre) * mul"
proof -
  note mul = size_suffix_unit [OF unit]
  have "size_suffix c \<noteq> 1" using unit size_suffix_none [of c] by force
  then have "parseSize s = (case ParseUint (trim_space pre) of None \<Rightarrow> None
      | Some n \<Rightarrow> if (1 :: 64 word) < word_of_int mul \<and> n > (- 1) div word_of_int mul then None
                  else Some (n * word_of_int mul))"
    using assms mul by (simp add: parseSize_def Let_def)
  also have "\<dots> = Some w \<longleftrightarrow> (\<exists>n. ParseUint (trim_space pre) = Some n \<and> uint w = uint n * mul)"
    using checked_mul mul by (cases "ParseUint (trim_space pre)") simp_all
  finally show ?thesis using ParseUint_times [of mul] mul by simp
qed

lemma parseSize_plain:
  assumes "trim_space s = pre @ [c]" "[c] \<notin> fst ` set size_units"
  shows "parseSize s = Some w \<longleftrightarrow>
    list_all is_digit (trim_space s) \<and> uint w = digits_val (trim_space s)"
proof -
  have "trim_space (pre @ [c]) = pre @ [c]" using trim_space_idem [of s] assms(1) by simp
  then have "parseSize s = ParseUint (trim_space s)"
    using assms size_suffix_none [of c] by (simp add: parseSize_def Let_def split: option.splits)
  then show ?thesis using assms(1) by (simp add: ParseUint_iff)
qed

lemma digit_no_unit: "is_digit c \<Longrightarrow> [c] \<notin> fst ` set size_units"
  using is_digit_no_suffix size_suffix_none by blast

text \<open>
  Claim C40. A body-size annotation is read exactly. It is accepted if and only if, white space
  at both ends apart, it is a non-empty string of digits, white space and a unit (none, or k,
  m, g in either case), and number times unit fits 64 bits; the value is then that product.
  Everything else is rejected: a number that does not fit, a product that does not fit (no
  wrap-around), a sign, a fraction, any other unit.
\<close>

theorem parseSize_exact:
  "parseSize s = Some w \<longleftrightarrow>
     (\<exists>pre u mul. (u, mul) \<in> set size_units \<and> trim_space s = pre @ u \<and>
        trim_space pre \<noteq> [] \<and> list_all is_digit (trim_space pre) \<and>
        uint w = digits_val (trim_space pre) * mul)"
proof (cases "trim_space s" rule: rev_cases)
  case Nil
  then show ?thesis by (auto simp: parseSize_def)
next
  case (snoc pre c)
  show ?thesis
  proof (cases "[c] \<in> fst ` set size_units")
    case True
    then obtain mul where unit: "([c], mul) \<in> set size_units" by auto
    have one: "p = pre \<and> m = mul" if "(u, m) \<in> set size_units" "trim_space s = p @ u"
        "list_all is_digit (trim_space p)" "trim_space p \<noteq> []" for p u m
    proof (cases "u = []")
      case True
      then have "trim_space p = p" using that(2) trim_space_idem [of s] by simp
      then have "list_all is_digit (trim_space s)" using True that by simp
      then have "is_digit c" using snoc by simp
      then show ?thesis using digit_no_unit \<open>[c] \<in> fst ` set size_units\<close> by blast
    next
      case False
      then show ?thesis using that(1,2) unit snoc by (auto simp: size_units_def)
    qed
    show ?thesis unfolding parseSize_unit [OF snoc unit] using unit snoc one by metis
  next
    case False
    have one: "u = [] \<and> m = 1 \<and> p = trim_space s"
      if "(u, m) \<in> set size_units" "trim_space s = p @ u" for p u m
      using that False snoc size_unit_cases [OF that(1)] by force
    have "([], 1) \<in> set size_units" by (simp add: size_units_def)
    moreover have "trim_space s \<noteq> []" using snoc by simp
    ultimately show ?thesis unfolding parseSize_plain [OF snoc False]
      using one by (metis append_Nil2 mult.right_neutral trim_space_idem)
  qed
qed

text \<open>Two readings: fifty megabytes, and sixteen exabytes, which is one byte too many.\<close>

lemma parseSize_examples:
  "parseSize '' 50 m '' = Some 52428800"
  "parseSize ''17179869184g'' = None"
  "parseSize ''18446744073709551616'' = None"
  by code_simp+

section \<open>Precedence among annotations\<close>

lemma ann_get_nginx [simp]: "ann_get (gput (nginxPrefix @ k) w ann) j = ann_get ann j"
  by (simp add: ann_get_def gget_gput annPrefix_def nginxPrefix_def)

lemma ann_either_nginx:
  "ann_get ann k = Some v \<Longrightarrow> ann_either (gput (nginxPrefix @ k) w ann) j = ann_either ann j"
  by (auto simp: ann_either_def ann_nginx_def gget_gput split: option.split)

text \<open>
  Where the operator's own annotation of a setting is present, the nginx-compatible
  annotation of the same setting has no effect on the parsed settings, even when the
  operator's value is malformed.
\<close>

theorem own_annotation_wins:
  assumes "ann_get ann k = Some v"
  shows "parseAnnotations (gput (nginxPrefix @ k) w ann) = parseAnnotations ann"
proof -
  have same: "ann_get (gput (nginxPrefix @ k) w ann) = ann_get ann"
    "ann_either (gput (nginxPrefix @ k) w ann) = ann_either ann"
    using ann_either_nginx [OF assms] by (simp_all add: fun_eq_iff)
  show ?thesis unfolding parseAnnotations_def pickRedirect_def same by (rule refl)
qed

theorem own_annotation_wins_witness:
  "an_use_regex (parseAnnotations (gput (nginxPrefix @ ''use-regex'') ''true''
      [(annPrefix @ ''use-regex'', ''junk'')])) = False"
  using own_annotation_wins [of "[(annPrefix @ ''use-regex'', ''junk'')]" "''use-regex''" "''junk''"]
  by (simp add: ann_get_def) code_simp

definition redirect_code :: "labels \<Rightarrow> string \<Rightarrow> 64 word \<Rightarrow> 64 word" where
  "redirect_code ann key dflt =
     (case parseUint (opt_str (ann_either ann key)) of None \<Rightarrow> dflt | Some n \<Rightarrow> n)"

lemma parseUint_Nil [simp]: "parseUint [] = None"
  by (simp add: parseUint_def ParseUint_def)

lemma pickRedirect_eq:
  "pickRedirect ann uk ck d s =
     (let loc = trim_space (opt_str (ann_either ann uk)) in
      if loc = [] then s
      else s\<lparr>an_redirect_location := loc, an_redirect_status := Some (redirect_code ann ck d)\<rparr>)"
  by (simp add: pickRedirect_def Let_def redirect_code_def)

text \<open>
  The redirect of an object: a permanent redirect wins over a temporal one; the
  status is the matching code annotation when it is a number and 301 or 302 otherwise; without
  a location there is no redirect.
\<close>

theorem redirect_precedence:
  "(let perm = trim_space (opt_str (ann_either ann ''permanent-redirect''));
        temp = trim_space (opt_str (ann_either ann ''temporal-redirect''));
        s = parseAnnotations ann
    in (an_redirect_location s, an_redirect_status s) =
         (if perm \<noteq> [] then (perm, Some (redirect_code ann ''permanent-redirect-code'' 301))
          else if temp \<noteq> [] then (temp, Some (redirect_code ann ''temporal-redirect-code'' 302))
          else ([], None)))"
  by (simp add: parseAnnotations_def pickRedirect_eq Let_def no_settings_def)

end
