(* ===== verification/Quoting.thy ===== *)
theory Quoting
  imports Routes
begin

text \<open>
  Reading \<^verbatim>\<open>%q\<close> literals back. \<open>unquote\<close> is \<^verbatim>\<open>strconv.Unquote\<close> for a double-quoted literal;
  \<open>unquote_quote\<close> shows that it inverts \<open>quote\<close> on every byte string, valid UTF-8 or not, so
  what the renderers write determines what was written and cannot reach past its scalar.
\<close>

section \<open>The reader\<close>

definition encode_rune :: "int \<Rightarrow> string" where
  "encode_rune r =
     (if r < 128 then [char_of r]
      else if r < 2048 then [char_of (192 + r div 64), char_of (128 + r mod 64)]
      else if r < 65536 then
        [char_of (224 + r div 4096), char_of (128 + r div 64 mod 64), char_of (128 + r mod 64)]
      else [char_of (240 + r div 262144), char_of (128 + r div 4096 mod 64),
            char_of (128 + r div 64 mod 64), char_of (128 + r mod 64)])"

definition hex_val :: "char \<Rightarrow> int" where
  "hex_val c = (if is_digit c then byte c - 48 else byte c - 87)"

definition hex_value :: "string \<Rightarrow> int" where
  "hex_value s = foldl (\<lambda>n c. 16 * n + hex_val c) 0 s"

definition simple_escapes :: "(char \<times> char) list" where
  "simple_escapes =
     [(CHR ''a'', CHR 0x07), (CHR ''b'', CHR 0x08), (CHR ''f'', CHR 0x0C), (CHR ''n'', CHR 0x0A),
      (CHR ''r'', CHR 0x0D), (CHR ''t'', CHR 0x09), (CHR ''v'', CHR 0x0B),
      (CHR 0x5C, CHR 0x5C), (CHR 0x22, CHR 0x22)]"

text \<open>\<open>unquote_body\<close> reads up to the closing quote, which must end the text.\<close>

function unquote_body :: "string \<Rightarrow> string option" where
  "unquote_body [] = None"
| "unquote_body (c # s) =
     (if c = CHR 0x22 then (if s = [] then Some [] else None)
      else if c = CHR 0x0A then None
      else if c \<noteq> CHR 0x5C then map_option ((#) c) (unquote_body s)
      else if s = [] then None
      else if hd s = CHR ''x'' then
        map_option ((#) (char_of (hex_value (take 2 (tl s))))) (unquote_body (drop 3 s))
      else if hd s = CHR ''u'' then
        map_option ((@) (encode_rune (hex_value (take 4 (tl s))))) (unquote_body (drop 5 s))
      else if hd s = CHR ''U'' then
        map_option ((@) (encode_rune (hex_value (take 8 (tl s))))) (unquote_body (drop 9 s))
      else (case map_of simple_escapes (hd s) of
              None \<Rightarrow> None
            | Some d \<Rightarrow> map_option ((#) d) (unquote_body (drop 1 s))))"
  by pat_completeness auto
termination
  by (relation "measure length") auto

declare unquote_body.simps [simp del]

fun unquote :: "string \<Rightarrow> string option" where
  "unquote [] = None"
| "unquote (c # s) = (if c = CHR 0x22 then unquote_body s else None)"

section \<open>Hexadecimal digits\<close>

lemma hex_val_char:
  assumes "0 \<le> d" "d < 16"
  shows "hex_val (hex_char d) = d"
proof -
  have "d = 0 \<or> d = 1 \<or> d = 2 \<or> d = 3 \<or> d = 4 \<or> d = 5 \<or> d = 6 \<or> d = 7 \<or> d = 8 \<or> d = 9
      \<or> d = 10 \<or> d = 11 \<or> d = 12 \<or> d = 13 \<or> d = 14 \<or> d = 15"
    using assms by presburger
  then show ?thesis by (auto simp: hex_char_def hex_val_def is_digit_def)
qed

lemma length_hex_digits [simp]: "length (hex_digits k n) = k"
  by (induction k arbitrary: n) auto

lemma hex_value_digits: "0 \<le> n \<Longrightarrow> n < 16 ^ k \<Longrightarrow> hex_value (hex_digits k n) = n"
proof (induction k arbitrary: n)
  case (Suc k)
  have "n div 16 < 16 ^ k" using Suc.prems by (simp add: int_div_less_iff mult.commute)
  then have "hex_value (hex_digits k (n div 16)) = n div 16" using Suc by simp
  then show ?case using hex_val_char [of "n mod 16"] by (simp add: hex_value_def)
qed (simp add: hex_value_def)

section \<open>Encoding inverts decoding\<close>

lemma split_6bits:
  fixes x y :: int
  assumes "0 \<le> y" "y < 64"
  shows "(x * 64 + y) div 64 = x" "(x * 64 + y) mod 64 = y"
  using assms by (simp_all add: div_pos_pos_trivial)

lemma split_12bits:
  fixes x y z :: int
  assumes "0 \<le> y" "y < 64" "0 \<le> z" "z < 64"
  shows "(x * 4096 + y * 64 + z) div 4096 = x" "(x * 4096 + y * 64 + z) div 64 mod 64 = y"
    "(x * 4096 + y * 64 + z) mod 64 = z"
proof -
  have e: "x * 4096 + y * 64 + z = (x * 64 + y) * 64 + z" by simp
  show "(x * 4096 + y * 64 + z) mod 64 = z" unfolding e using assms by (rule_tac split_6bits)
  have d: "(x * 4096 + y * 64 + z) div 64 = x * 64 + y" unfolding e using assms by (rule_tac split_6bits)
  then show "(x * 4096 + y * 64 + z) div 64 mod 64 = y" using assms by (simp add: split_6bits)
  have "(x * 4096 + y * 64 + z) div 4096 = (x * 4096 + y * 64 + z) div 64 div 64"
    by (simp add: zdiv_zmult2_eq [of 64 _ 64, simplified])
  then show "(x * 4096 + y * 64 + z) div 4096 = x" using d assms by (simp add: split_6bits)
qed

lemma split_18bits:
  fixes w x y z :: int
  assumes "0 \<le> x" "x < 64" "0 \<le> y" "y < 64" "0 \<le> z" "z < 64"
  shows "(w * 262144 + x * 4096 + y * 64 + z) div 262144 = w"
    "(w * 262144 + x * 4096 + y * 64 + z) div 4096 mod 64 = x"
    "(w * 262144 + x * 4096 + y * 64 + z) div 64 mod 64 = y"
    "(w * 262144 + x * 4096 + y * 64 + z) mod 64 = z"
proof -
  have e: "w * 262144 + x * 4096 + y * 64 + z = (w * 64 + x) * 4096 + y * 64 + z" by simp
  note s = split_12bits [OF assms(3-6), of "w * 64 + x", folded e]
  show "(w * 262144 + x * 4096 + y * 64 + z) mod 64 = z"
    "(w * 262144 + x * 4096 + y * 64 + z) div 64 mod 64 = y" using s by simp_all
  show "(w * 262144 + x * 4096 + y * 64 + z) div 4096 mod 64 = x"
    using s(1) assms by (simp add: split_6bits)
  have "(w * 262144 + x * 4096 + y * 64 + z) div 262144 =
      (w * 262144 + x * 4096 + y * 64 + z) div 4096 div 64"
    by (simp add: zdiv_zmult2_eq [of 64 _ 4096, simplified])
  then show "(w * 262144 + x * 4096 + y * 64 + z) div 262144 = w"
    using s(1) assms by (simp add: split_6bits)
qed

lemma decode_rune_cases:
  assumes "decode_rune (c # s) = (r, w)" "w \<noteq> 1"
  obtains
    (two) c1 t where "s = c1 # t" "w = 2" "194 \<le> byte c" "byte c < 224" "cont_byte (byte c1)"
      "r = (byte c - 192) * 64 + (byte c1 - 128)"
  | (three) c1 c2 t where "s = c1 # c2 # t" "w = 3" "224 \<le> byte c" "byte c < 240"
      "cont_byte (byte c1)" "cont_byte (byte c2)" "byte c = 224 \<longrightarrow> 160 \<le> byte c1"
      "r = (byte c - 224) * 4096 + (byte c1 - 128) * 64 + (byte c2 - 128)"
  | (four) c1 c2 c3 t where "s = c1 # c2 # c3 # t" "w = 4" "240 \<le> byte c" "byte c \<le> 244"
      "cont_byte (byte c1)" "cont_byte (byte c2)" "cont_byte (byte c3)"
      "byte c = 240 \<longrightarrow> 144 \<le> byte c1" "byte c = 244 \<longrightarrow> byte c1 \<le> 143"
      "r = (byte c - 240) * 262144 + (byte c1 - 128) * 4096 + (byte c2 - 128) * 64 + (byte c3 - 128)"
proof -
  have c: "194 \<le> byte c" "byte c \<le> 244"
    using assms by (auto simp: decode_rune_def Let_def split: if_splits)
  obtain c1 s2 where s: "s = c1 # s2"
    using assms c by (cases s) (auto simp: decode_rune_def)
  show thesis
  proof (cases "byte c < 224")
    case True
    then show thesis using two [OF s] assms c s by (auto simp: decode_rune_def Let_def split: if_splits)
  next
    case big: False
    then have ok: "cont_byte (byte c1)" "byte c = 224 \<longrightarrow> 160 \<le> byte c1"
        "byte c = 240 \<longrightarrow> 144 \<le> byte c1" "byte c = 244 \<longrightarrow> byte c1 \<le> 143"
      using assms c s by (auto simp: decode_rune_def Let_def split: if_splits list.splits)
    obtain c2 s3 where s2: "s2 = c2 # s3" "cont_byte (byte c2)"
      using assms c s big by (cases s2) (auto simp: decode_rune_def Let_def split: if_splits)
    show thesis
    proof (cases "byte c < 240")
      case True
      then show thesis
        using three [of c1 c2 s3] assms c s s2 big ok
        by (auto simp: decode_rune_def Let_def split: if_splits)
    next
      case False
      obtain c3 s4 where s3: "s3 = c3 # s4" "cont_byte (byte c3)"
        using assms c s s2 big False
        by (cases s3) (auto simp: decode_rune_def Let_def split: if_splits)
      then show thesis
        using four [of c1 c2 c3 s4] assms c s s2 big ok False
        by (auto simp: decode_rune_def Let_def split: if_splits)
    qed
  qed
qed

lemma encode_decode:
  assumes "decode_rune (c # s) = (r, w)" "w \<noteq> 1"
  shows "encode_rune r = take w (c # s) \<and> 128 \<le> r \<and> r < 1114112"
  using assms
proof (cases rule: decode_rune_cases)
  case (two c1 t)
  have "0 \<le> byte c1 - 128" "byte c1 - 128 < 64" using two by (auto simp: cont_byte_def)
  note sp = split_6bits [OF this, of "byte c - 192", folded two(6)]
  have "128 \<le> r" "r < 2048" using two by (auto simp: cont_byte_def)
  then show ?thesis using two sp by (simp add: encode_rune_def)
next
  case (three c1 c2 t)
  have "0 \<le> byte c1 - 128" "byte c1 - 128 < 64" "0 \<le> byte c2 - 128" "byte c2 - 128 < 64"
    using three by (auto simp: cont_byte_def)
  note sp = split_12bits [OF this, of "byte c - 224", folded three(8)]
  have "2048 \<le> r" "r < 65536" using three by (auto simp: cont_byte_def)
  then show ?thesis using three sp by (simp add: encode_rune_def)
next
  case (four c1 c2 c3 t)
  have "0 \<le> byte c1 - 128" "byte c1 - 128 < 64" "0 \<le> byte c2 - 128" "byte c2 - 128 < 64"
    "0 \<le> byte c3 - 128" "byte c3 - 128 < 64"
    using four by (auto simp: cont_byte_def)
  note sp = split_18bits [OF this, of "byte c - 240", folded four(10)]
  have lo: "byte c = 240 \<and> 144 \<le> byte c1 \<or> 241 \<le> byte c"
    and hi: "byte c = 244 \<and> byte c1 \<le> 143 \<or> byte c \<le> 243"
    using four(3,4,8,9) by linarith+
  note cont = four(5-7)[unfolded cont_byte_def]
  have "65536 \<le> r" using lo
  proof
    assume "byte c = 240 \<and> 144 \<le> byte c1"
    then show ?thesis using cont four(10) by (simp del: of_char_eq_iff)
  next
    assume "241 \<le> byte c"
    then show ?thesis using cont unfolding four(10) by simp
  qed
  moreover have "r < 1114112" using hi
  proof
    assume "byte c = 244 \<and> byte c1 \<le> 143"
    then show ?thesis using cont four(10) by (simp del: of_char_eq_iff)
  next
    assume "byte c \<le> 243"
    then show ?thesis using cont unfolding four(10) by simp
  qed
  ultimately have b: "65536 \<le> r" "r < 1114112" by simp_all
  then have "encode_rune r = [char_of (240 + (byte c - 240)), char_of (128 + (byte c1 - 128)),
      char_of (128 + (byte c2 - 128)), char_of (128 + (byte c3 - 128))]"
    unfolding encode_rune_def sp by simp
  then show ?thesis using b four(1,2) by simp
qed

lemma runes_valid:
  "(r, bs) \<in> set (runes s) \<Longrightarrow> length bs \<noteq> 1 \<Longrightarrow> encode_rune r = bs \<and> 128 \<le> r \<and> r < 1114112"
proof (induction s rule: runes.induct)
  case (2 c s)
  obtain q w where q: "decode_rune (c # s) = (q, w)" by fastforce
  have w: "1 \<le> w" "w \<le> Suc (length s)" using decode_rune_width [of "c # s"] q by auto
  show ?case
  proof (cases "(r, bs) = (q, take w (c # s))")
    case True
    then have "w \<noteq> 1" using "2.prems"(2) by auto
    with True show ?thesis using encode_decode [OF q] by simp
  next
    case False
    then have "(r, bs) \<in> set (runes (drop (w - 1) s))"
      using "2.prems"(1) q w by (cases w) (auto simp: Let_def)
    then show ?thesis using "2.IH" [of "(q, w)"] "2.prems"(2) q by simp
  qed
qed simp

section \<open>Reading back one rune, one literal\<close>

lemma unquote_plain:
  "list_all (\<lambda>c. c \<noteq> CHR 0x22 \<and> c \<noteq> CHR 0x5C \<and> c \<noteq> CHR 0x0A) bs \<Longrightarrow>
   unquote_body (bs @ t) = map_option ((@) bs) (unquote_body t)"
proof (induction bs)
  case (Cons c bs)
  then show ?case
    by (simp add: unquote_body.simps(2) [of c]) (cases "unquote_body t"; simp)
next
  case Nil
  have "(@) [] = (\<lambda>x. x)" by (rule ext) simp
  then show ?case by (simp add: option.map_ident)
qed

lemma unquote_x: "0 \<le> n \<Longrightarrow> n < 256 \<Longrightarrow>
   unquote_body (esc (''x'' @ hex_digits 2 n) @ t) = map_option ((#) (char_of n)) (unquote_body t)"
  by (simp add: esc_def unquote_body.simps(2) [of "CHR 0x5C"] hex_value_digits)

lemma unquote_u: "0 \<le> n \<Longrightarrow> n < 65536 \<Longrightarrow>
   unquote_body (esc (''u'' @ hex_digits 4 n) @ t) = map_option ((@) (encode_rune n)) (unquote_body t)"
  by (simp add: esc_def unquote_body.simps(2) [of "CHR 0x5C"] hex_value_digits)

lemma unquote_U: "0 \<le> n \<Longrightarrow> n < 4294967296 \<Longrightarrow>
   unquote_body (esc (''U'' @ hex_digits 8 n) @ t) = map_option ((@) (encode_rune n)) (unquote_body t)"
  by (simp add: esc_def unquote_body.simps(2) [of "CHR 0x5C"] hex_value_digits)

lemma unquote_simple: "map_of simple_escapes e = Some d \<Longrightarrow>
   unquote_body (esc [e] @ t) = map_option ((#) d) (unquote_body t)"
  by (auto simp: esc_def unquote_body.simps(2) [of "CHR 0x5C"] simple_escapes_def split: if_splits)

lemma byte_eqI: "byte c = n \<Longrightarrow> byte d = n \<Longrightarrow> c = d"
  by (metis of_char_eq_iff)

lemma append_single [simp]: "(@) [c] = (#) c"
  by (rule ext) simp

lemma unquote_rune_ascii:
  assumes r: "r = byte c" "r < 128"
  shows "unquote_body (quote_rune prt (r, [c]) @ t) = map_option ((#) c) (unquote_body t)"
proof (cases "32 \<le> r \<and> r < 127")
  case True
  show ?thesis
  proof (cases "r = 34 \<or> r = 92")
    case True
    then have "c = CHR 0x22 \<or> c = CHR 0x5C" using r by (auto intro: byte_eqI)
    then show ?thesis using r unquote_simple by (auto simp: quote_rune_def simple_escapes_def)
  next
    case False
    then have "c \<noteq> CHR 0x22 \<and> c \<noteq> CHR 0x5C \<and> c \<noteq> CHR 0x0A" using r True by auto
    then have "unquote_body ([c] @ t) = map_option ((@) [c]) (unquote_body t)"
      by (intro unquote_plain) simp
    then show ?thesis using r True False by (simp add: quote_rune_def is_print_def)
  qed
next
  case False
  note q = quote_rune_def Let_def is_print_def
  show ?thesis
  proof (cases "r = 7 \<or> r = 8 \<or> r = 9 \<or> r = 10 \<or> r = 11 \<or> r = 12 \<or> r = 13")
    case True
    then have "c = CHR 0x07 \<or> c = CHR 0x08 \<or> c = CHR 0x09 \<or> c = CHR 0x0A \<or> c = CHR 0x0B
      \<or> c = CHR 0x0C \<or> c = CHR 0x0D" using r by (auto intro: byte_eqI)
    then show ?thesis using r unquote_simple by (elim disjE) (simp_all add: q simple_escapes_def)
  next
    case ctl: False
    then have "quote_rune prt (r, [c]) = esc (''x'' @ hex_digits 2 r)"
      using r False byte_range [of c] by (auto simp: q)
    then show ?thesis using unquote_x [of r t] r by simp
  qed
qed

lemma unquote_rune_high:
  assumes bs: "list_all (\<lambda>x. 128 \<le> byte x) bs" "length bs \<noteq> 1"
    and r: "encode_rune r = bs" "128 \<le> r" "r < 1114112"
  shows "unquote_body (quote_rune prt (r, bs) @ t) = map_option ((@) bs) (unquote_body t)"
proof (cases "is_print prt r")
  case True
  have "list_all (\<lambda>c. c \<noteq> CHR 0x22 \<and> c \<noteq> CHR 0x5C \<and> c \<noteq> CHR 0x0A) bs"
    using bs(1) by (auto simp: list_all_iff)
  then show ?thesis using True bs r unquote_plain by (auto simp: quote_rune_def)
next
  case False
  then show ?thesis using bs r unquote_u [of r t] unquote_U [of r t] by (auto simp: quote_rune_def Let_def)
qed

lemma unquote_rune:
  assumes "(r, bs) \<in> set (runes s)"
  shows "unquote_body (quote_rune prt (r, bs) @ t) = map_option ((@) bs) (unquote_body t)"
proof (cases "length bs = 1")
  case True
  then obtain c where c: "bs = [c]" by (cases bs) auto
  show ?thesis
  proof (cases "r = rune_error")
    case True
    then show ?thesis using c unquote_x [of "byte c" t] by (simp add: quote_rune_def)
  next
    case False
    then show ?thesis using runes_shape [OF assms] c unquote_rune_ascii [of r c] by simp
  qed
next
  case False
  then show ?thesis
    using runes_shape [OF assms] runes_valid [OF assms] unquote_rune_high by simp
qed

lemma unquote_runes:
  "set rs \<subseteq> set (runes s) \<Longrightarrow>
   unquote_body (concat (map (quote_rune prt) rs) @ dq) = Some (concat (map snd rs))"
proof (induction rs)
  case Nil
  then show ?case by (simp add: unquote_body.simps)
next
  case (Cons rb rs)
  then show ?case using unquote_rune [of "fst rb" "snd rb" s] by simp
qed

lemma unquote_quote: "unquote (quote prt s) = Some s"
  using unquote_runes [of "runes s" s prt] by (simp add: quote_def concat_runes)

lemma quote_inj: "quote prt s = quote prt t \<Longrightarrow> s = t"
  by (metis option.inject unquote_quote)

section \<open>Match expressions\<close>

text \<open>
  Claim C20. The match expression of a regex route is anchored and read back exactly: after the
  fixed prefix, the expression is one string literal, and unquoting it gives the regex with a
  leading caret (supplied when the regex has none); so no regex, whatever its bytes, can end the
  literal early and smuggle another condition into the expression.
\<close>

theorem pathRegexExpr_roundtrip:
  "take 26 (pathRegexExpr prt r) = ''http.request.path matches '' \<and>
   unquote (drop 26 (pathRegexExpr prt r)) = Some (if has_prefix r ''^'' then r else ''^'' @ r) \<and>
   has_prefix (the (unquote (drop 26 (pathRegexExpr prt r)))) ''^''"
  by (simp add: pathRegexExpr_def Let_def unquote_quote)

end
