(* ===== verification/FileSys.thy ===== *)
theory FileSys
  imports Objects
begin

text \<open>
  Files and paths: \<^verbatim>\<open>path/filepath\<close> on Unix, the file operations of package \<^verbatim>\<open>os\<close> the program
  uses, and the program's two writers, \<open>writeIfChanged\<close> (controllers/ingress_controller.go,
  temporary file and rename) and \<open>writeFileIfChanged\<close> (controllers/certs.go, in place). Every
  operation that changes something may fail; the outcomes are a list in the state, so a theorem
  about any state is a theorem about every pattern of failures. The state also logs each
  content of the file system a concurrent reader can see, so that a torn read is visible.
\<close>

section \<open>Paths\<close>

definition path_push :: "bool \<Rightarrow> string list \<Rightarrow> string \<Rightarrow> string list" where
  "path_push rooted st c =
     (if c = [] \<or> c = ''.'' then st
      else if c = ''..'' then
        (if st \<noteq> [] \<and> hd st \<noteq> ''..'' then tl st else if rooted then st else c # st)
      else c # st)"

definition path_rooted :: "string \<Rightarrow> bool" where
  "path_rooted p \<longleftrightarrow> has_prefix p ''/''"

definition path_comps :: "string \<Rightarrow> string list" where
  "path_comps p = rev (foldl (path_push (path_rooted p)) [] (split_on (CHR ''/'') p))"

definition Clean :: "string \<Rightarrow> string" where
  "Clean p =
     (let s = (if path_rooted p then ''/'' else []) @ join ''/'' (path_comps p)
      in if s = [] then ''.'' else s)"

definition Join :: "string \<Rightarrow> string \<Rightarrow> string" where
  "Join dir name =
     (if dir = [] then (if name = [] then [] else Clean name) else Clean (dir @ ''/'' @ name))"

text \<open>A name of a directory entry, and the text before the names of a directory's entries.\<close>

definition plain_name :: "string \<Rightarrow> bool" where
  "plain_name n \<longleftrightarrow> n \<noteq> [] \<and> n \<noteq> ''.'' \<and> n \<noteq> ''..'' \<and> CHR ''/'' \<notin> set n"

definition dir_prefix :: "string \<Rightarrow> string" where
  "dir_prefix dir =
     (let c = Clean dir in if c = ''/'' then ''/'' else if c = ''.'' then [] else c @ ''/'')"

section \<open>The file system\<close>

datatype fate = Succeeds | Fails "nat option"

record fsys =
  fs_files :: "(string, string) gmap"
  fs_fates :: "fate list"
  fs_seen :: "(string, string) gmap list"

definition next_fate :: "fsys \<Rightarrow> fate \<times> fsys" where
  "next_fate s = (case fs_fates s of [] \<Rightarrow> (Succeeds, s) | f # fs \<Rightarrow> (f, s\<lparr>fs_fates := fs\<rparr>))"

definition set_files :: "(string, string) gmap \<Rightarrow> fsys \<Rightarrow> fsys" where
  "set_files fm s = s\<lparr>fs_files := fm, fs_seen := fs_seen s @ [fm]\<rparr>"

definition ReadFile :: "fsys \<Rightarrow> string \<Rightarrow> string option" where
  "ReadFile s p = gget (fs_files s) p"

text \<open>
  \<^verbatim>\<open>os.WriteFile\<close> truncates the file and writes: while it runs a reader sees a prefix, and a
  failing write may leave one (\<open>Fails (Some n)\<close>) or fail before touching the file
  (\<open>Fails None\<close>). The other operations are atomic.
\<close>

definition put_prefixes :: "nat \<Rightarrow> string \<Rightarrow> string \<Rightarrow> fsys \<Rightarrow> fsys" where
  "put_prefixes n p c s = foldl (\<lambda>s k. set_files (gput p (take k c) (fs_files s)) s) s [0..<Suc n]"

definition WriteFile :: "string \<Rightarrow> string \<Rightarrow> fsys \<Rightarrow> bool \<times> fsys" where
  "WriteFile p c s =
     (case next_fate s of
        (Succeeds, s1) \<Rightarrow> (True, put_prefixes (length c) p c s1)
      | (Fails (Some n), s1) \<Rightarrow> (False, put_prefixes n p c s1)
      | (Fails None, s1) \<Rightarrow> (False, s1))"

definition Rename :: "string \<Rightarrow> string \<Rightarrow> fsys \<Rightarrow> bool \<times> fsys" where
  "Rename p q s =
     (case next_fate s of
        (Succeeds, s1) \<Rightarrow>
          (case gget (fs_files s1) p of
             None \<Rightarrow> (False, s1)
           | Some c \<Rightarrow> (True, set_files (gput q c (gdel p (fs_files s1))) s1))
      | (Fails _, s1) \<Rightarrow> (False, s1))"

definition Remove :: "string \<Rightarrow> fsys \<Rightarrow> bool \<times> fsys" where
  "Remove p s =
     (case next_fate s of
        (Succeeds, s1) \<Rightarrow>
          (if ghas (fs_files s1) p then (True, set_files (gdel p (fs_files s1)) s1) else (False, s1))
      | (Fails _, s1) \<Rightarrow> (False, s1))"

text \<open>Directories are not tracked: \<open>MkdirAll\<close> can fail and changes no file.\<close>

definition MkdirAll :: "fsys \<Rightarrow> bool \<times> fsys" where
  "MkdirAll s = (case next_fate s of (f, s1) \<Rightarrow> (f = Succeeds, s1))"

definition dir_names :: "string \<Rightarrow> (string, string) gmap \<Rightarrow> string list" where
  "dir_names dir fm =
     (let pre = dir_prefix dir
      in sort (filter (\<lambda>n. CHR ''/'' \<notin> set n)
           (map (drop (length pre)) (filter (\<lambda>p. has_prefix p pre) (gkeys fm)))))"

definition ReadDir :: "string \<Rightarrow> fsys \<Rightarrow> string list option \<times> fsys" where
  "ReadDir dir s =
     (case next_fate s of
        (Succeeds, s1) \<Rightarrow> (Some (dir_names dir (fs_files s1)), s1)
      | (Fails _, s1) \<Rightarrow> (None, s1))"

section \<open>The two writers\<close>

text \<open>An error is \<open>Inl\<close> with the name of the operation that failed.\<close>

definition writeIfChanged :: "fsys \<Rightarrow> string \<Rightarrow> string \<Rightarrow> (string + bool) \<times> fsys" where
  "writeIfChanged s path content =
     (if ReadFile s path = Some content then (Inr False, s)
      else case MkdirAll s of (ok, s1) \<Rightarrow>
        if \<not> ok then (Inl ''mkdir'', s1)
        else case WriteFile (path @ ''.tmp'') content s1 of (ok, s2) \<Rightarrow>
          if \<not> ok then (Inl ''write'', s2)
          else case Rename (path @ ''.tmp'') path s2 of (ok, s3) \<Rightarrow>
            if \<not> ok then (Inl ''rename'', snd (Remove (path @ ''.tmp'') s3))
            else (Inr True, s3))"

definition writeFileIfChanged :: "fsys \<Rightarrow> string \<Rightarrow> string \<Rightarrow> (string + bool) \<times> fsys" where
  "writeFileIfChanged s path content =
     (if ReadFile s path = Some content then (Inr False, s)
      else case WriteFile path content s of (ok, s1) \<Rightarrow>
        if \<not> ok then (Inl ''write'', s1) else (Inr True, s1))"

section \<open>Path lemmas\<close>

lemma split_on_append_sep: "split_on c (p @ c # q) = split_on c p @ split_on c q"
  by (induction c p rule: split_on.induct) (auto split: list.splits)

lemma path_push_plain: "plain_name n \<Longrightarrow> path_push r st n = n # st"
  by (simp add: path_push_def plain_name_def)

lemma path_comps_child:
  assumes "dir \<noteq> []" "plain_name n"
  shows "path_comps (dir @ ''/'' @ n) = path_comps dir @ [n]" "path_rooted (dir @ ''/'' @ n) = path_rooted dir"
proof -
  show r: "path_rooted (dir @ ''/'' @ n) = path_rooted dir"
    using assms(1) by (cases dir) (simp_all add: path_rooted_def)
  have s: "split_on (CHR ''/'') (dir @ ''/'' @ n) = split_on (CHR ''/'') dir @ [n]"
    using assms(2) by (simp add: split_on_append_sep split_on_single plain_name_def)
  show "path_comps (dir @ ''/'' @ n) = path_comps dir @ [n]"
    unfolding path_comps_def r s using assms(2) by (simp add: path_push_plain)
qed

lemma path_comps_elems:
  assumes "x \<in> set (path_comps p)"
  shows "x \<noteq> [] \<and> x \<noteq> ''.'' \<and> CHR ''/'' \<notin> set x"
proof -
  have "x \<in> set (foldl (path_push r) st cs) \<Longrightarrow> x \<in> set st \<or> x \<in> set cs \<and> x \<noteq> [] \<and> x \<noteq> ''.''" for r st cs
  proof (induction cs arbitrary: st)
    case (Cons c cs)
    have "x \<in> set (path_push r st c) \<Longrightarrow> x \<in> set st \<or> x = c \<and> x \<noteq> [] \<and> x \<noteq> ''.''"
      by (cases st) (auto simp: path_push_def split: if_splits)
    with Cons.IH [of "path_push r st c"] Cons.prems show ?case by auto
  qed simp
  from this [of _ "[]"] assms show ?thesis by (auto simp: path_comps_def dest: split_on_no_sep)
qed

lemma join_snoc: "join sep (xs @ [x]) = (if xs = [] then x else join sep xs @ sep @ x)"
  by (induction sep xs rule: join.induct) auto

lemma join_path_comps:
  assumes "path_comps p \<noteq> []"
  shows "join ''/'' (path_comps p) \<noteq> []" "join ''/'' (path_comps p) \<noteq> ''.''"
    "join ''/'' (path_comps p) \<noteq> ''/''"
proof -
  obtain x xs where c: "path_comps p = x # xs" using assms by (cases "path_comps p") auto
  have x: "x \<noteq> [] \<and> x \<noteq> ''.'' \<and> CHR ''/'' \<notin> set x" using path_comps_elems [of x p] c by simp
  have j: "join ''/'' (x # xs) = (if xs = [] then x else x @ ''/'' @ join ''/'' xs)"
    by (cases xs) simp_all
  show "join ''/'' (path_comps p) \<noteq> []" using x by (simp add: c j)
  show "join ''/'' (path_comps p) \<noteq> ''.''" using x by (auto simp: c j append_eq_Cons_conv)
  show "join ''/'' (path_comps p) \<noteq> ''/''" using x by (auto simp: c j append_eq_Cons_conv)
qed

lemma Join_child:
  assumes "dir \<noteq> []" "plain_name n"
  shows "Join dir n = dir_prefix dir @ n"
proof -
  have n: "n \<noteq> []" using assms(2) by (simp add: plain_name_def)
  note child = path_comps_child [OF assms, simplified]
  have "Join dir n = (if path_rooted dir then ''/'' else []) @ join ''/'' (path_comps dir @ [n])"
    using assms(1) n by (simp add: Join_def Clean_def child join_snoc Let_def)
  moreover have "dir_prefix dir = (if path_rooted dir then ''/'' else []) @
      (if path_comps dir = [] then [] else join ''/'' (path_comps dir) @ ''/'')"
    using join_path_comps [of dir] by (auto simp: dir_prefix_def Clean_def Let_def)
  ultimately show ?thesis by (simp add: join_snoc)
qed

section \<open>What the file operations do\<close>

lemma next_fate_frame:
  assumes "next_fate s = (f, s1)"
  shows "fs_files s1 = fs_files s" "fs_seen s1 = fs_seen s"
    "fs_fates s = [] \<Longrightarrow> f = Succeeds \<and> fs_fates s1 = []"
  using assms by (auto simp: next_fate_def split: list.splits)

lemma put_prefixes_eq:
  "fs_fates (put_prefixes n p c s) = fs_fates s \<and>
   gget (fs_files (put_prefixes n p c s)) = (gget (fs_files s))(p \<mapsto> take n c) \<and>
   (\<exists>new. fs_seen (put_prefixes n p c s) = fs_seen s @ new \<and>
     (\<forall>fm \<in> set new. \<exists>k. gget fm = (gget (fs_files s))(p \<mapsto> take k c)))"
proof (induction n)
  case 0
  have zero: "put_prefixes 0 p c s = set_files (gput p [] (fs_files s)) s"
    by (simp add: put_prefixes_def)
  show ?case
    unfolding zero by (simp add: set_files_def gmap_simps) (rule exI [of _ 0], simp add: fun_eq_iff)
next
  case (Suc n)
  have step: "put_prefixes (Suc n) p c s =
      set_files (gput p (take (Suc n) c) (fs_files (put_prefixes n p c s))) (put_prefixes n p c s)"
    by (simp add: put_prefixes_def)
  have upd: "gget (gput p (take (Suc n) c) (fs_files (put_prefixes n p c s))) =
      (gget (fs_files s))(p \<mapsto> take (Suc n) c)"
    using Suc by (simp add: gmap_simps fun_eq_iff)
  obtain new where new: "fs_seen (put_prefixes n p c s) = fs_seen s @ new"
    "\<forall>fm \<in> set new. \<exists>k. gget fm = (gget (fs_files s))(p \<mapsto> take k c)"
    using Suc by blast
  have "\<exists>new'. fs_seen (put_prefixes (Suc n) p c s) = fs_seen s @ new' \<and>
      (\<forall>fm \<in> set new'. \<exists>k. gget fm = (gget (fs_files s))(p \<mapsto> take k c))"
    using new upd
    by (intro exI [of _ "new @ [gput p (take (Suc n) c) (fs_files (put_prefixes n p c s))]"])
      (auto simp: step set_files_def)
  moreover have "fs_fates (put_prefixes (Suc n) p c s) = fs_fates s"
    using Suc by (simp add: step set_files_def)
  moreover have "gget (fs_files (put_prefixes (Suc n) p c s)) = (gget (fs_files s))(p \<mapsto> take (Suc n) c)"
    unfolding step set_files_def using upd by simp
  ultimately show ?case by (intro conjI)
qed

text \<open>
  Every operation extends the log, and every content it adds differs from the content before in
  the paths it may touch only.
\<close>

definition touches :: "string set \<Rightarrow> fsys \<Rightarrow> fsys \<Rightarrow> bool" where
  "touches P s s' \<longleftrightarrow>
     (\<forall>q. q \<notin> P \<longrightarrow> gget (fs_files s') q = gget (fs_files s) q) \<and>
     (\<exists>new. fs_seen s' = fs_seen s @ new \<and>
        (\<forall>fm \<in> set new. \<forall>q. q \<notin> P \<longrightarrow> gget fm q = gget (fs_files s) q)) \<and>
     (fs_fates s = [] \<longrightarrow> fs_fates s' = [])"

lemma touches_refl [simp]: "touches P s s"
  by (simp add: touches_def)

lemma touches_trans:
  assumes "touches P s s1" "touches P s1 s2"
  shows "touches P s s2"
proof -
  obtain n1 where n1: "fs_seen s1 = fs_seen s @ n1"
      "\<forall>fm \<in> set n1. \<forall>q. q \<notin> P \<longrightarrow> gget fm q = gget (fs_files s) q"
    using assms(1) unfolding touches_def by blast
  obtain n2 where n2: "fs_seen s2 = fs_seen s1 @ n2"
      "\<forall>fm \<in> set n2. \<forall>q. q \<notin> P \<longrightarrow> gget fm q = gget (fs_files s1) q"
    using assms(2) unfolding touches_def by blast
  have "\<forall>fm \<in> set (n1 @ n2). \<forall>q. q \<notin> P \<longrightarrow> gget fm q = gget (fs_files s) q"
    using n1 n2 assms(1) by (auto simp: touches_def)
  then show ?thesis using n1 n2 assms by (auto simp: touches_def)
qed

lemma touches_mono: "touches P s s' \<Longrightarrow> P \<subseteq> Q \<Longrightarrow> touches Q s s'"
  unfolding touches_def by blast

lemma touches_fate: "next_fate s = (f, s1) \<Longrightarrow> touches P s1 s2 \<Longrightarrow> touches P s s2"
  using next_fate_frame [of s f s1] unfolding touches_def by simp

lemma WriteFile_touches: "touches {p} s (snd (WriteFile p c s))"
proof -
  obtain f s1 where f: "next_fate s = (f, s1)" by fastforce
  have "touches {p} s1 (put_prefixes n p c s1)" for n
  proof -
    obtain new where new: "fs_seen (put_prefixes n p c s1) = fs_seen s1 @ new"
        "\<forall>fm \<in> set new. \<exists>k. gget fm = (gget (fs_files s1))(p \<mapsto> take k c)"
      using put_prefixes_eq [of n p c s1] by blast
    have "\<forall>fm \<in> set new. \<forall>q. q \<notin> {p} \<longrightarrow> gget fm q = gget (fs_files s1) q"
    proof (intro ballI allI impI)
      fix fm q assume "fm \<in> set new" "q \<notin> {p}"
      then show "gget fm q = gget (fs_files s1) q" using new(2) by (metis fun_upd_other singleton_iff)
    qed
    then show ?thesis using new(1) put_prefixes_eq [of n p c s1] by (simp add: touches_def)
  qed
  then show ?thesis
    using touches_fate [OF f] f by (auto simp: WriteFile_def split: fate.split option.split)
qed

lemma Rename_touches: "touches {p, q} s (snd (Rename p q s))"
proof -
  obtain f s1 where f: "next_fate s = (f, s1)" by fastforce
  have "touches {p, q} s1 (set_files (gput q c (gdel p (fs_files s1))) s1)" for c
    by (simp add: touches_def set_files_def gmap_simps)
  then show ?thesis
    using touches_fate [OF f] f by (auto simp: Rename_def split: fate.split option.split)
qed

lemma Remove_touches: "touches {p} s (snd (Remove p s))"
proof -
  obtain f s1 where f: "next_fate s = (f, s1)" by fastforce
  have "touches {p} s1 (set_files (gdel p (fs_files s1)) s1)"
    by (simp add: touches_def set_files_def gmap_simps)
  then show ?thesis using touches_fate [OF f] f by (auto simp: Remove_def split: fate.split)
qed

lemma MkdirAll_touches: "touches P s (snd (MkdirAll s))"
proof -
  obtain f s1 where f: "next_fate s = (f, s1)" by fastforce
  then show ?thesis using touches_fate [OF f touches_refl] by (simp add: MkdirAll_def)
qed

lemma ReadDir_touches: "touches P s (snd (ReadDir d s))"
proof -
  obtain f s1 where f: "next_fate s = (f, s1)" by fastforce
  then show ?thesis
    using touches_fate [OF f touches_refl] by (auto simp: ReadDir_def split: fate.split)
qed

lemma WriteFile_done:
  assumes "WriteFile p c s = (True, s')"
  shows "gget (fs_files s') = (gget (fs_files s))(p \<mapsto> c)"
proof -
  obtain f s1 where f: "next_fate s = (f, s1)" by fastforce
  then show ?thesis
    using assms next_fate_frame [OF f] put_prefixes_eq [of "length c" p c s1]
    by (auto simp: WriteFile_def split: fate.splits option.splits)
qed

section \<open>The writers\<close>

lemma tmp_neq: "p @ ''.tmp'' \<noteq> p" "p \<noteq> p @ ''.tmp''"
  by simp_all

lemma writeFileIfChanged_touches: "touches {p} s (snd (writeFileIfChanged s p c))"
  using WriteFile_touches [of p s c]
  by (cases "WriteFile p c s") (auto simp: writeFileIfChanged_def)

lemma writeFileIfChanged_done:
  assumes "writeFileIfChanged s p c = (Inr b, s')"
  shows "gget (fs_files s') = (gget (fs_files s))(p \<mapsto> c)" "b \<longleftrightarrow> ReadFile s p \<noteq> Some c"
    "\<not> b \<Longrightarrow> s' = s"
  using assms
  by (auto simp: writeFileIfChanged_def ReadFile_def dest!: WriteFile_done split: prod.splits if_splits)

interpretation in_place: content_target ReadFile writeFileIfChanged
proof unfold_locales
  fix s k v c
  show "ReadFile s k = Some v \<Longrightarrow> writeFileIfChanged s k v = (Inr False, s)"
    by (simp add: writeFileIfChanged_def)
  assume "fst (writeFileIfChanged s k v) = Inr c"
  then have "writeFileIfChanged s k v = (Inr c, snd (writeFileIfChanged s k v))" by (metis prod.collapse)
  then show "ReadFile (snd (writeFileIfChanged s k v)) k = Some v" "c \<longleftrightarrow> ReadFile s k \<noteq> Some v"
    using writeFileIfChanged_done by (simp_all add: ReadFile_def)
qed

lemma Rename_done:
  assumes "Rename p q s = (True, s')"
  shows "gget (fs_files s') = (gget (fs_files s))(p := None, q := gget (fs_files s) p)"
    "fs_seen s' = fs_seen s @ [fs_files s']"
proof -
  obtain f s1 where f: "next_fate s = (f, s1)" by fastforce
  show "gget (fs_files s') = (gget (fs_files s))(p := None, q := gget (fs_files s) p)"
    "fs_seen s' = fs_seen s @ [fs_files s']"
    using assms next_fate_frame [OF f] f
    by (auto simp: Rename_def set_files_def gmap_simps split: fate.splits option.splits)
qed

lemma Rename_failed:
  assumes "Rename p q s = (False, s')"
  shows "fs_files s' = fs_files s" "fs_seen s' = fs_seen s"
proof -
  obtain f s1 where f: "next_fate s = (f, s1)" by fastforce
  show "fs_files s' = fs_files s" "fs_seen s' = fs_seen s"
    using assms next_fate_frame [OF f] f
    by (auto simp: Rename_def split: fate.splits option.splits)
qed

text \<open>The states a reader of \<open>p\<close> can meet: the old content throughout, or the new one at the end.\<close>

definition reader_sees :: "string \<Rightarrow> fsys \<Rightarrow> fsys \<Rightarrow> string option set \<Rightarrow> bool" where
  "reader_sees p s s' cs \<longleftrightarrow>
     (\<exists>new. fs_seen s' = fs_seen s @ new \<and> (\<forall>fm \<in> set new. gget fm p \<in> cs)) \<and>
     gget (fs_files s') p \<in> cs"

lemma touches_reader: "touches P s s' \<Longrightarrow> p \<notin> P \<Longrightarrow> reader_sees p s s' {gget (fs_files s) p}"
  unfolding touches_def reader_sees_def by auto

lemma reader_sees_trans:
  assumes "reader_sees p s s1 A" "reader_sees p s1 s2 B"
  shows "reader_sees p s s2 (A \<union> B)"
proof -
  obtain n1 n2 where "fs_seen s1 = fs_seen s @ n1" "\<forall>fm \<in> set n1. gget fm p \<in> A"
      "fs_seen s2 = fs_seen s1 @ n2" "\<forall>fm \<in> set n2. gget fm p \<in> B"
    using assms unfolding reader_sees_def by blast
  then show ?thesis
    using assms(2) unfolding reader_sees_def by (auto intro!: exI [of _ "n1 @ n2"])
qed

lemma reader_sees_mono: "reader_sees p s s' A \<Longrightarrow> A \<subseteq> B \<Longrightarrow> reader_sees p s s' B"
  unfolding reader_sees_def by blast

lemma writeIfChanged_prepared:
  assumes "MkdirAll s = (True, s1)" "WriteFile (p @ ''.tmp'') c s1 = (True, s2)"
  shows "touches {p @ ''.tmp''} s s2" "gget (fs_files s2) (p @ ''.tmp'') = Some c"
    "gget (fs_files s2) p = gget (fs_files s) p"
proof -
  have "touches {p @ ''.tmp''} s s1" "touches {p @ ''.tmp''} s1 s2"
    using MkdirAll_touches [of "{p @ ''.tmp''}" s] WriteFile_touches [of "p @ ''.tmp''" s1 c] assms by simp_all
  then show t: "touches {p @ ''.tmp''} s s2" by (rule touches_trans)
  show "gget (fs_files s2) p = gget (fs_files s) p" using t tmp_neq [of p] unfolding touches_def by blast
  show "gget (fs_files s2) (p @ ''.tmp'') = Some c" using WriteFile_done [OF assms(2)] by simp
qed

lemma writeIfChanged_effects:
  "case writeIfChanged s path content of (res, s') \<Rightarrow>
     reader_sees path s s' {gget (fs_files s) path, Some content} \<and>
     touches {path, path @ ''.tmp''} s s' \<and>
     (case res of
        Inr changed \<Rightarrow> gget (fs_files s') path = Some content \<and>
          changed = (gget (fs_files s) path \<noteq> Some content) \<and> (\<not> changed \<longrightarrow> s' = s)
      | Inl _ \<Rightarrow> gget (fs_files s') path = gget (fs_files s) path)"
proof (cases "ReadFile s path = Some content")
  case True
  then show ?thesis by (simp add: writeIfChanged_def ReadFile_def reader_sees_def)
next
  case new: False
  let ?tmp = "path @ ''.tmp''" and ?old = "gget (fs_files s) path"
  obtain ok1 s1 where mk: "MkdirAll s = (ok1, s1)" by fastforce
  obtain ok2 s2 where wr: "WriteFile ?tmp content s1 = (ok2, s2)" by fastforce
  obtain ok3 s3 where rn: "Rename ?tmp path s2 = (ok3, s3)" by fastforce
  have t1: "touches {?tmp} s s1" using MkdirAll_touches [of "{?tmp}" s] mk by simp
  have t2: "touches {?tmp} s s2"
    using touches_trans [OF t1] WriteFile_touches [of ?tmp s1 content] wr by simp
  have t3: "touches {path, ?tmp} s s3"
    using touches_trans [OF touches_mono [OF t2]] Rename_touches [of ?tmp path s2] rn
    by (simp add: insert_commute)
  have t4: "touches {path, ?tmp} s (snd (Remove ?tmp s3))"
    by (rule touches_trans [OF t3 touches_mono [OF Remove_touches]]) simp
  have k1: "reader_sees path s s1 {?old}" and k2: "reader_sees path s s2 {?old}"
    using touches_reader [OF t1] touches_reader [OF t2] by simp_all
  consider (mk_err) "\<not> ok1" | (wr_err) ok1 "\<not> ok2" | (rn_err) ok1 ok2 "\<not> ok3" | (finished) ok1 ok2 ok3 by blast
  then show ?thesis
  proof cases
    case mk_err
    then have "writeIfChanged s path content = (Inl ''mkdir'', s1)"
      using new mk by (simp add: writeIfChanged_def)
    then show ?thesis
      using reader_sees_mono [OF k1] touches_mono [OF t1] k1 by (auto simp: reader_sees_def)
  next
    case wr_err
    then have "writeIfChanged s path content = (Inl ''write'', s2)"
      using new mk wr by (simp add: writeIfChanged_def)
    then show ?thesis
      using reader_sees_mono [OF k2] touches_mono [OF t2] k2 by (auto simp: reader_sees_def)
  next
    case rn_err
    then have w: "writeIfChanged s path content = (Inl ''rename'', snd (Remove ?tmp s3))"
      using new mk wr rn by (simp add: writeIfChanged_def)
    have "reader_sees path s s3 {?old}"
      using k2 Rename_failed [of ?tmp path s2 s3] rn rn_err by (simp add: reader_sees_def)
    moreover from this have "reader_sees path s3 (snd (Remove ?tmp s3)) {?old}"
      using touches_reader [OF Remove_touches [of ?tmp s3], of path] by (simp add: reader_sees_def)
    ultimately have "reader_sees path s (snd (Remove ?tmp s3)) {?old}"
      using reader_sees_trans by fastforce
    then show ?thesis
      using w t4 reader_sees_mono by (auto simp: reader_sees_def)
  next
    case finished
    then have w: "writeIfChanged s path content = (Inr True, s3)"
      using new mk wr rn by (simp add: writeIfChanged_def)
    have now: "gget (fs_files s3) path = Some content"
      using finished wr rn Rename_done(1) [of ?tmp path s2 s3] WriteFile_done [of ?tmp content s1 s2] by simp
    then have "reader_sees path s2 s3 {Some content}"
      using Rename_done(2) [of ?tmp path s2 s3] rn finished by (simp add: reader_sees_def)
    then have "reader_sees path s s3 {?old, Some content}"
      using reader_sees_trans [OF k2] by fastforce
    then show ?thesis using w t3 now new by (simp add: ReadFile_def)
  qed
qed

interpretation atomic: content_target ReadFile writeIfChanged
proof unfold_locales
  fix s k v c
  show "ReadFile s k = Some v \<Longrightarrow> writeIfChanged s k v = (Inr False, s)"
    by (simp add: writeIfChanged_def)
  assume "fst (writeIfChanged s k v) = Inr c"
  then show "ReadFile (snd (writeIfChanged s k v)) k = Some v" "c \<longleftrightarrow> ReadFile s k \<noteq> Some v"
    using writeIfChanged_effects [where s = s and path = k and content = v] by (auto simp: ReadFile_def split: prod.splits)
qed

text \<open>Without failures it succeeds.\<close>

lemma writeIfChanged_ok:
  assumes "fs_fates s = []"
  shows "\<exists>ch f. writeIfChanged s path content = (Inr ch, f) \<and> fs_fates f = []"
proof -
  obtain res f where w: "writeIfChanged s path content = (res, f)" by fastforce
  have p: "fs_fates (put_prefixes n q c u) = fs_fates u" for n q c u using put_prefixes_eq by blast
  have "\<exists>ch. res = Inr ch"
    using w assms by (auto simp: writeIfChanged_def MkdirAll_def WriteFile_def Rename_def next_fate_def set_files_def p
        ghas_def split: if_splits) (auto simp: put_prefixes_eq gmap_simps)
  moreover have "fs_fates f = []"
    using writeIfChanged_effects [where s = s and path = path and content = content] w assms by (simp add: touches_def)
  ultimately show ?thesis using w by blast
qed

text \<open>
  Claim C3. \<open>writeIfChanged\<close> is atomic for every pattern of failing file operations: at every
  moment a concurrent reader of the path finds the old content or the complete new content;
  success means the new content is there, an error means the old content is still there, and
  "unchanged" is answered exactly when the content was there already, with nothing touched.
  No other path changes apart from the temporary file.
\<close>

theorem writeIfChanged_atomic:
  "case writeIfChanged s path content of (res, s') \<Rightarrow>
     reader_sees path s s' {gget (fs_files s) path, Some content} \<and>
     touches {path, path @ ''.tmp''} s s' \<and>
     (case res of
        Inr changed \<Rightarrow> gget (fs_files s') path = Some content \<and>
          changed = (gget (fs_files s) path \<noteq> Some content) \<and> (\<not> changed \<longrightarrow> s' = s)
      | Inl _ \<Rightarrow> gget (fs_files s') path = gget (fs_files s) path)"
  by (rule writeIfChanged_effects)

lemma writeIfChanged_atomic_witness:
  "let s = \<lparr>fs_files = [(''/o/u.yaml'', ''old'')], fs_fates = [Succeeds, Fails (Some 2)], fs_seen = []\<rparr>;
       s' = snd (writeIfChanged s ''/o/u.yaml'' ''new'')
   in fst (writeIfChanged s ''/o/u.yaml'' ''new'') = Inl ''write'' \<and>
      reader_sees ''/o/u.yaml'' s s' {Some ''old'', Some ''new''} \<and>
      gget (fs_files s') ''/o/u.yaml'' = Some ''old'' \<and> gget (fs_files s') ''/o/u.yaml.tmp'' = Some ''ne''"
proof -
  let ?s = "\<lparr>fs_files = [(''/o/u.yaml'', ''old'')], fs_fates = [Succeeds, Fails (Some 2)], fs_seen = []\<rparr>"
  have r: "fst (writeIfChanged ?s ''/o/u.yaml'' ''new'') = Inl ''write''"
    "gget (fs_files (snd (writeIfChanged ?s ''/o/u.yaml'' ''new''))) ''/o/u.yaml.tmp'' = Some ''ne''"
    by code_simp+
  obtain res s' where w: "writeIfChanged ?s ''/o/u.yaml'' ''new'' = (res, s')" by fastforce
  show ?thesis
    using writeIfChanged_atomic [where s = ?s and path = "''/o/u.yaml''" and content = "''new''"] r
    by (simp add: w Let_def)
qed

end
