(* ===== verification/Backends.thy ===== *)
theory Backends
  imports Routes
begin

text \<open>
  Backend resolution: controllers/endpoints.go and \<open>backendAddr\<close> of
  controllers/ingress_controller.go. An Ingress backend becomes the list of servers of a route,
  by the chain ready endpoints, ClusterIP, Service name. The lemmas show that the endpoint list
  depends on the set of endpoints and not on the order the API lists them in, which endpoints
  and ports it holds, and that a resolved backend is never an empty server list.
\<close>

section \<open>Configuration of the reconciler\<close>

text \<open>
  The fields of \<open>IngressReconciler\<close>. A \<open>NamespacedName\<close> is a pair. \<open>cf_leader\<close> is the answer
  of the leader gate during the pass (\<open>None\<close>: no gate), \<open>cf_recorder\<close> whether events are
  recorded.
\<close>

record ing_cfg =
  cf_class :: string
  cf_out_path :: string
  cf_certs_dir :: string
  cf_certs_secret :: "string \<times> string"
  cf_domain :: string
  cf_signal_reload :: bool
  cf_gateway_api :: bool
  cf_status_addrs :: "string list"
  cf_recorder :: bool
  cf_leader :: "bool option"
  cf_out_cm :: "string \<times> string"
  cf_resolve_ips :: bool
  cf_resolve_eps :: bool

section \<open>Endpoints\<close>

text \<open>\<^verbatim>\<open>net.JoinHostPort\<close>: a host with a colon is bracketed.\<close>

definition JoinHostPort :: "string \<Rightarrow> string \<Rightarrow> string" where
  "JoinHostPort host port =
     (if CHR '':'' \<in> set host then ''['' @ host @ '']:'' @ port else host @ '':'' @ port)"

definition servicePortName :: "service \<Rightarrow> string \<Rightarrow> int \<Rightarrow> (string \<times> int) option" where
  "servicePortName svc portName portNumber =
     map_option (\<lambda>sp. (sp_name sp, sp_port sp))
       (List.find (\<lambda>sp. portName \<noteq> [] \<and> sp_name sp = portName \<or>
                        portName = [] \<and> portNumber \<noteq> 0 \<and> sp_port sp = portNumber)
          (svc_ports svc))"

definition endpointUsable :: "endpoint \<Rightarrow> bool" where
  "endpointUsable ep \<longleftrightarrow> ep_ready ep \<noteq> Some False \<and> ep_terminating ep \<noteq> Some True"

text \<open>The port of one slice; \<open>None\<close> when the slice has ports but not the wanted one.\<close>

definition slicePort :: "ep_slice \<Rightarrow> string \<Rightarrow> int \<Rightarrow> int option" where
  "slicePort s portName svcPort =
     (if es_ports s = [] then Some svcPort
      else map_option (\<lambda>p. case slp_port p of None \<Rightarrow> svcPort | Some n \<Rightarrow> n)
             (List.find (\<lambda>p. opt_str (slp_name p) = portName) (es_ports s)))"

text \<open>The addresses one slice contributes, and the loop over the slices with its two lists.\<close>

definition sliceAddrs :: "ep_slice \<Rightarrow> string \<Rightarrow> int \<Rightarrow> string list" where
  "sliceAddrs s portName svcPort =
     (case slicePort s portName svcPort of
        None \<Rightarrow> []
      | Some port \<Rightarrow>
          if port = 0 then []
          else concat (map (\<lambda>ep. map (\<lambda>a. JoinHostPort a (show_int port)) (ep_addresses ep))
                        (filter endpointUsable (es_endpoints s))))"

definition addSlice ::
  "string \<Rightarrow> int \<Rightarrow> string list \<times> string list \<Rightarrow> ep_slice \<Rightarrow> string list \<times> string list" where
  "addSlice portName svcPort acc s =
     (case acc of (v4, v6) \<Rightarrow>
        if es_address_type s = ''IPv6'' then (v4, v6 @ sliceAddrs s portName svcPort)
        else if es_address_type s = ''IPv4'' then (v4 @ sliceAddrs s portName svcPort, v6)
        else (v4, v6))"

definition sliceEndpointAddrs :: "ep_slice list \<Rightarrow> string \<Rightarrow> int \<Rightarrow> string list" where
  "sliceEndpointAddrs slices portName svcPort =
     (case foldl (addSlice portName svcPort) ([], []) slices of
        (v4, v6) \<Rightarrow> sort (if v4 = [] then v6 else v4))"

definition endpointAddrs :: "api \<Rightarrow> string \<Rightarrow> ingress_service \<Rightarrow> string list option" where
  "endpointAddrs a ns b =
     (case get_service a ns (is_name b) of
        None \<Rightarrow> None
      | Some svc \<Rightarrow>
          if svc_type svc = ''ExternalName'' then None
          else case servicePortName svc (is_port_name b) (is_port_number b) of
            None \<Rightarrow> None
          | Some (portName, svcPort) \<Rightarrow>
              (case list_slices a ns (is_name b) of
                 None \<Rightarrow> None
               | Some slices \<Rightarrow>
                   (let addrs = sliceEndpointAddrs slices portName svcPort
                    in if addrs = [] then None else Some addrs)))"

section \<open>Service addressing and the fallback chain\<close>

definition clusterDomain :: "ing_cfg \<Rightarrow> string" where
  "clusterDomain cfg = (if cf_domain cfg = [] then ''cluster.local'' else cf_domain cfg)"

text \<open>
  Without a lookup the code reads the zero \<open>Service\<close>, which has no ClusterIP and no ports:
  \<open>svc\<close> is \<open>None\<close> then, and the two reads below give what the zero value gives.
\<close>

definition backendAddr :: "ing_cfg \<Rightarrow> api \<Rightarrow> string \<Rightarrow> ingress_backend \<Rightarrow> string option" where
  "backendAddr cfg a ns b =
     (case ib_service b of
        None \<Rightarrow> None
      | Some s \<Rightarrow>
          let fqdn = is_name s @ ''.'' @ ns @ ''.svc.'' @ clusterDomain cfg;
              needLookup = (is_port_name s \<noteq> [] \<or> cf_resolve_ips cfg);
              svc = (if needLookup then get_service a ns (is_name s) else None)
          in if needLookup \<and> svc = None then
               (if is_port_number s \<noteq> 0 then Some (fqdn @ '':'' @ show_int (is_port_number s)) else None)
             else
               let ip = (case svc of None \<Rightarrow> [] | Some v \<Rightarrow> svc_cluster_ip v);
                   ports = (case svc of None \<Rightarrow> [] | Some v \<Rightarrow> svc_ports v);
                   host = (if cf_resolve_ips cfg \<and> ip \<noteq> [] \<and> ip \<noteq> ''None'' then ip else fqdn)
               in if is_port_number s \<noteq> 0 then Some (host @ '':'' @ show_int (is_port_number s))
                  else if is_port_name s \<noteq> [] then
                    map_option (\<lambda>sp. host @ '':'' @ show_int (sp_port sp))
                      (List.find (\<lambda>sp. sp_name sp = is_port_name s) ports)
                  else None)"

definition backendServers ::
  "ing_cfg \<Rightarrow> api \<Rightarrow> string \<Rightarrow> ingress_backend \<Rightarrow> obs \<Rightarrow> backend list option \<times> obs" where
  "backendServers cfg a ns b o1 =
     (case (if cf_resolve_eps cfg then ib_service b else None) of
        None \<Rightarrow> (map_option (\<lambda>addr. [\<lparr>b_addr = addr, b_weight = 0\<rparr>]) (backendAddr cfg a ns b), o1)
      | Some s \<Rightarrow>
          (case endpointAddrs a ns s of
             Some addrs \<Rightarrow> (Some (map (\<lambda>x. \<lparr>b_addr = x, b_weight = 0\<rparr>) addrs), o1)
           | None \<Rightarrow> (map_option (\<lambda>addr. [\<lparr>b_addr = addr, b_weight = 0\<rparr>]) (backendAddr cfg a ns b),
                      inc MEndpointsFallbackTotal o1)))"

section \<open>The endpoint list\<close>

text \<open>The loop as two comprehensions.\<close>

definition family :: "string \<Rightarrow> ep_slice list \<Rightarrow> string \<Rightarrow> int \<Rightarrow> string list" where
  "family t slices portName svcPort =
     concat (map (\<lambda>s. sliceAddrs s portName svcPort) (filter (\<lambda>s. es_address_type s = t) slices))"

lemma addSlice_families:
  "foldl (addSlice pn sp) (v4, v6) slices =
     (v4 @ family ''IPv4'' slices pn sp, v6 @ family ''IPv6'' slices pn sp)"
  by (induction slices arbitrary: v4 v6) (auto simp: addSlice_def family_def)

lemma sliceEndpointAddrs_families:
  "sliceEndpointAddrs slices pn sp =
     sort (if family ''IPv4'' slices pn sp = [] then family ''IPv6'' slices pn sp
           else family ''IPv4'' slices pn sp)"
  by (simp add: sliceEndpointAddrs_def addSlice_families)

text \<open>What the result may depend on: a slice up to the order of its endpoints.\<close>

definition slice_key :: "ep_slice \<Rightarrow> string \<times> slice_port list \<times> endpoint multiset" where
  "slice_key s = (es_address_type s, es_ports s, mset (es_endpoints s))"

definition key_addrs :: "string \<Rightarrow> int \<Rightarrow> string \<times> slice_port list \<times> endpoint multiset \<Rightarrow> string multiset" where
  "key_addrs pn sp k =
     (case slicePort \<lparr>es_address_type = [], es_ports = fst (snd k), es_endpoints = []\<rparr> pn sp of
        None \<Rightarrow> {#}
      | Some port \<Rightarrow>
          if port = 0 then {#}
          else \<Sum>\<^sub># (image_mset (\<lambda>ep. mset (map (\<lambda>a. JoinHostPort a (show_int port)) (ep_addresses ep)))
                        (filter_mset endpointUsable (snd (snd k)))))"

lemma mset_concat_map: "mset (concat (map f xs)) = \<Sum>\<^sub># (image_mset (\<lambda>x. mset (f x)) (mset xs))"
  by (induction xs) auto

lemma mset_sliceAddrs: "mset (sliceAddrs s pn sp) = key_addrs pn sp (slice_key s)"
  by (simp add: sliceAddrs_def key_addrs_def slice_key_def slicePort_def mset_concat_map
      split: option.split)

lemma mset_family:
  "mset (family t slices pn sp) =
     \<Sum>\<^sub># (image_mset (key_addrs pn sp) (filter_mset (\<lambda>k. fst k = t) (mset (map slice_key slices))))"
proof (induction slices)
  case (Cons s slices)
  have "fst (slice_key s) = es_address_type s" by (simp add: slice_key_def)
  then show ?case using Cons by (simp add: family_def mset_sliceAddrs)
qed (simp add: family_def)

lemma sliceEndpointAddrs_perm:
  assumes "mset (map slice_key xs) = mset (map slice_key ys)"
  shows "sliceEndpointAddrs xs pn sp = sliceEndpointAddrs ys pn sp"
proof -
  have fam: "mset (family t xs pn sp) = mset (family t ys pn sp)" for t
    by (simp only: mset_family assms)
  then have "family t xs pn sp = [] \<longleftrightarrow> family t ys pn sp = []" for t by (metis mset_zero_iff)
  then show ?thesis using fam by (auto simp: sliceEndpointAddrs_families intro!: sort_mset_eq)
qed

text \<open>
  The address list of a Service is sorted and depends only on which endpoints its
  slices hold: two answers of the API that list the same slices in another order, with the
  endpoints inside each slice in another order, give the same list, so a resync with an
  unchanged endpoint set cannot change the rendered file.
\<close>

theorem sliceEndpointAddrs_order_free:
  assumes "mset (map slice_key slices) = mset (map slice_key slices')"
  shows "sliceEndpointAddrs slices portName svcPort = sliceEndpointAddrs slices' portName svcPort \<and>
    sorted (sliceEndpointAddrs slices portName svcPort)"
  using sliceEndpointAddrs_perm [OF assms] by (simp add: sliceEndpointAddrs_families)

definition http_slice :: "string list \<Rightarrow> ep_slice" where
  "http_slice ips = \<lparr>es_address_type = ''IPv4'',
     es_ports = [\<lparr>slp_name = Some ''http'', slp_port = Some 8080\<rparr>],
     es_endpoints = map (\<lambda>x. \<lparr>ep_addresses = [x], ep_ready = None, ep_terminating = None\<rparr>) ips\<rparr>"

lemma sliceEndpointAddrs_order_free_witness:
  "sliceEndpointAddrs [http_slice [''10.0.0.2'', ''10.0.0.1''], http_slice [''10.0.0.3'']] ''http'' 80 =
     sliceEndpointAddrs [http_slice [''10.0.0.3''], http_slice [''10.0.0.1'', ''10.0.0.2'']] ''http'' 80 \<and>
   sliceEndpointAddrs [http_slice [''10.0.0.2'', ''10.0.0.1'']] ''http'' 80 =
     [''10.0.0.1:8080'', ''10.0.0.2:8080'']"
proof (rule conjI)
  show "sliceEndpointAddrs [http_slice [''10.0.0.2'', ''10.0.0.1''], http_slice [''10.0.0.3'']] ''http'' 80 =
     sliceEndpointAddrs [http_slice [''10.0.0.3''], http_slice [''10.0.0.1'', ''10.0.0.2'']] ''http'' 80"
    by (rule sliceEndpointAddrs_order_free [THEN conjunct1])
      (simp add: slice_key_def http_slice_def)
  have port: "show_int 8080 = ''8080''" by code_simp
  show "sliceEndpointAddrs [http_slice [''10.0.0.2'', ''10.0.0.1'']] ''http'' 80 =
     [''10.0.0.1:8080'', ''10.0.0.2:8080'']"
    by (simp add: sliceEndpointAddrs_def addSlice_def sliceAddrs_def slicePort_def http_slice_def
      endpointUsable_def opt_str_def JoinHostPort_def port)
qed

lemma set_family:
  "x \<in> set (family t slices pn sp) \<longleftrightarrow>
     (\<exists>s \<in> set slices. es_address_type s = t \<and> x \<in> set (sliceAddrs s pn sp))"
  by (auto simp: family_def)

lemma set_sliceAddrs:
  "x \<in> set (sliceAddrs s pn sp) \<longleftrightarrow>
     (\<exists>port ep a. slicePort s pn sp = Some port \<and> port \<noteq> 0 \<and> ep \<in> set (es_endpoints s) \<and>
        endpointUsable ep \<and> a \<in> set (ep_addresses ep) \<and> x = JoinHostPort a (show_int port))"
proof (cases "slicePort s pn sp")
  case (Some port)
  then show ?thesis by (cases "port = 0") (simp_all add: sliceAddrs_def, blast)
qed (simp add: sliceAddrs_def)

text \<open>A usable endpoint address of a slice of the given family, with its resolved port.\<close>

definition serves :: "ep_slice list \<Rightarrow> string \<Rightarrow> int \<Rightarrow> string \<Rightarrow> string \<Rightarrow> bool" where
  "serves slices pn sp t x \<longleftrightarrow>
     (\<exists>s \<in> set slices. \<exists>ep \<in> set (es_endpoints s). \<exists>a \<in> set (ep_addresses ep). \<exists>port.
        es_address_type s = t \<and> endpointUsable ep \<and> slicePort s pn sp = Some port \<and> port \<noteq> 0 \<and>
        x = JoinHostPort a (show_int port))"

lemma serves_family: "serves slices pn sp t x \<longleftrightarrow> x \<in> set (family t slices pn sp)"
  by (auto simp: serves_def set_family set_sliceAddrs)

text \<open>
  Exactly the ready, non-terminating endpoints are rendered, each with the port the
  slice resolves the Service port to (the target port when the slice names one), and all of one
  address family: IPv4 when any IPv4 endpoint serves the port, IPv6 otherwise; an FQDN slice
  contributes nothing.
\<close>

theorem sliceEndpointAddrs_exact:
  "x \<in> set (sliceEndpointAddrs slices portName svcPort) \<longleftrightarrow>
     serves slices portName svcPort
       (if \<exists>y. serves slices portName svcPort ''IPv4'' y then ''IPv4'' else ''IPv6'') x"
proof -
  have "(\<exists>y. serves slices portName svcPort ''IPv4'' y) \<longleftrightarrow> family ''IPv4'' slices portName svcPort \<noteq> []"
    by (cases "family ''IPv4'' slices portName svcPort") (auto simp: serves_family)
  then show ?thesis by (simp add: sliceEndpointAddrs_families serves_family)
qed

section \<open>Resolution\<close>

lemma endpointAddrs_nonempty: "endpointAddrs a ns b \<noteq> Some []"
  by (auto simp: endpointAddrs_def Let_def split: option.split)

text \<open>
  Claim C33. A resolved backend is never an empty server list. With endpoint resolution on, the
  servers are the endpoint addresses when there are any; in every other case they are the one
  Service address of \<open>backendAddr\<close>, a failed endpoint lookup is counted exactly once, and the
  backend is unresolved only when \<open>backendAddr\<close> has no address. No server carries a weight.
\<close>

theorem backendServers_chain:
  "fst (backendServers cfg a ns b o1) \<noteq> Some [] \<and>
   fst (backendServers cfg a ns b o1) =
     (case (if cf_resolve_eps cfg then Option.bind (ib_service b) (endpointAddrs a ns) else None) of
        Some addrs \<Rightarrow> Some (map (\<lambda>x. \<lparr>b_addr = x, b_weight = 0\<rparr>) addrs)
      | None \<Rightarrow> map_option (\<lambda>addr. [\<lparr>b_addr = addr, b_weight = 0\<rparr>]) (backendAddr cfg a ns b)) \<and>
   snd (backendServers cfg a ns b o1) =
     (if cf_resolve_eps cfg \<and> ib_service b \<noteq> None \<and> Option.bind (ib_service b) (endpointAddrs a ns) = None
      then inc MEndpointsFallbackTotal o1 else o1)"
  using endpointAddrs_nonempty [of a ns]
  by (auto simp: backendServers_def split: option.split)

text \<open>
  The host part of a resolved address: the ClusterIP when it is wanted and usable, else the
  Service name in the cluster domain.
\<close>

definition service_host :: "ing_cfg \<Rightarrow> api \<Rightarrow> string \<Rightarrow> string \<Rightarrow> string" where
  "service_host cfg a ns name =
     (case get_service a ns name of
        Some v \<Rightarrow> if cf_resolve_ips cfg \<and> svc_cluster_ip v \<notin> {[], ''None''} then svc_cluster_ip v
                  else name @ ''.'' @ ns @ ''.svc.'' @ clusterDomain cfg
      | None \<Rightarrow> name @ ''.'' @ ns @ ''.svc.'' @ clusterDomain cfg)"

definition service_port :: "api \<Rightarrow> string \<Rightarrow> ingress_service \<Rightarrow> int option" where
  "service_port a ns s =
     (if is_port_number s \<noteq> 0 then Some (is_port_number s)
      else if is_port_name s = [] then None
      else Option.bind (get_service a ns (is_name s))
        (\<lambda>v. map_option sp_port (List.find (\<lambda>sp. sp_name sp = is_port_name s) (svc_ports v))))"

text \<open>
  \<open>backendAddr\<close> skips the Service lookup when it can, and still computes the
  specification without that shortcut: host and port of the Service, where a port number wins
  over a port name, a named port comes from the first matching port of the Service, a headless
  or missing Service keeps its name, and the address exists exactly when the port does.
\<close>

theorem backendAddr_spec:
  "backendAddr cfg a ns b =
     (case ib_service b of
        None \<Rightarrow> None
      | Some s \<Rightarrow> map_option (\<lambda>p. service_host cfg a ns (is_name s) @ '':'' @ show_int p)
                    (service_port a ns s))"
  by (auto simp: backendAddr_def service_host_def service_port_def Let_def option.map_comp comp_def
      split: option.split)

text \<open>
  With ClusterIP resolution, a Service whose ClusterIP is an IPv6 address gets an
  address without the brackets an IPv6 host needs: it is not what \<^verbatim>\<open>net.JoinHostPort\<close>, used for
  endpoint addresses, gives for the same host and port.
\<close>

theorem backendAddr_ipv6_unbracketed:
  assumes "cf_resolve_ips cfg" "ib_service b = Some s" "get_service a ns (is_name s) = Some v"
    and "CHR '':'' \<in> set (svc_cluster_ip v)" "is_port_number s \<noteq> 0"
  shows "backendAddr cfg a ns b = Some (svc_cluster_ip v @ '':'' @ show_int (is_port_number s)) \<and>
    (hd (svc_cluster_ip v) \<noteq> CHR ''['' \<longrightarrow>
     backendAddr cfg a ns b \<noteq> Some (JoinHostPort (svc_cluster_ip v) (show_int (is_port_number s))))"
proof -
  have ne: "svc_cluster_ip v \<notin> {[], ''None''}" using assms(4) by auto
  then have eq: "backendAddr cfg a ns b = Some (svc_cluster_ip v @ '':'' @ show_int (is_port_number s))"
    using assms by (simp add: backendAddr_spec service_host_def service_port_def)
  show ?thesis
    using ne assms(4) by (cases "svc_cluster_ip v") (auto simp: eq JoinHostPort_def)
qed

definition no_api :: api where
  "no_api = \<lparr>get_service = (\<lambda>_ _. None), list_slices = (\<lambda>_ _. None), get_secret = (\<lambda>_ _. None),
     list_ingresses = None, list_ingress_classes = None, list_gateway_classes = None,
     list_gateways = None, list_http_routes = None\<rparr>"

definition cfg0 :: ing_cfg where
  "cfg0 = \<lparr>cf_class = ''synapse'', cf_out_path = ''/out/upstreams.yaml'', cf_certs_dir = [],
     cf_certs_secret = ([], []), cf_domain = [], cf_signal_reload = False, cf_gateway_api = False,
     cf_status_addrs = [], cf_recorder = False, cf_leader = None, cf_out_cm = ([], []),
     cf_resolve_ips = False, cf_resolve_eps = False\<rparr>"

definition v6_service :: "string \<Rightarrow> string \<Rightarrow> service" where
  "v6_service ns n = \<lparr>svc_ns = ns, svc_name = n, svc_type = ''ClusterIP'', svc_cluster_ip = ''fd00::1'',
     svc_ports = [], svc_selector = [], svc_lb_ingress_ips = [], svc_external_ips = [], svc_lb_ip = []\<rparr>"

lemma backendAddr_ipv6_unbracketed_witness:
  "backendAddr (cfg0\<lparr>cf_resolve_ips := True\<rparr>)
     (no_api\<lparr>get_service := (\<lambda>ns n. Some (v6_service ns n))\<rparr>)
     ''default'' \<lparr>ib_service = Some \<lparr>is_name = ''web'', is_port_name = [], is_port_number = 80\<rparr>\<rparr> =
   Some ''fd00::1:80''"
proof -
  have "show_int 80 = ''80''" by code_simp
  then show ?thesis
    using backendAddr_ipv6_unbracketed [of "cfg0\<lparr>cf_resolve_ips := True\<rparr>"
        "\<lparr>ib_service = Some \<lparr>is_name = ''web'', is_port_name = [], is_port_number = 80\<rparr>\<rparr>"
        "\<lparr>is_name = ''web'', is_port_name = [], is_port_number = 80\<rparr>"
        "no_api\<lparr>get_service := (\<lambda>ns n. Some (v6_service ns n))\<rparr>" "''default''" "v6_service ''default'' ''web''"]
    by (simp add: v6_service_def)
qed

end
