(* ===== verification/Certs.thy ===== *)
theory Certs
  imports FileSys Backends
begin

text \<open>
  Certificate projection, controllers/certs.go: the names of certificate files, the directory
  mode (\<open>projectCerts\<close>, which writes \<^verbatim>\<open>stem.key\<close> then \<^verbatim>\<open>stem.crt\<close> in place and prunes the rest)
  and the Secret mode (\<open>projectCertsToSecret\<close>). The lemmas show what the directory holds after a
  pass, that a second pass writes nothing, that a certificate never becomes visible before its
  key, and that no pattern of failures touches a file that is not a certificate file of the
  directory.
\<close>

section \<open>Stems\<close>

definition stem_rune :: "int \<Rightarrow> bool" where
  "stem_rune r \<longleftrightarrow> 97 \<le> r \<and> r \<le> 122 \<or> 65 \<le> r \<and> r \<le> 90 \<or> 48 \<le> r \<and> r \<le> 57 \<or>
     r = 46 \<or> r = 45 \<or> r = 95"

definition sanitizeStem :: "string \<Rightarrow> string" where
  "sanitizeStem s = map (\<lambda>(r, _). if stem_rune r then char_of r else CHR ''_'') (runes s)"

definition certStem :: "string \<Rightarrow> string \<Rightarrow> string \<Rightarrow> string \<times> bool" where
  "certStem host ns secret =
     (if host \<noteq> [] \<and> \<not> has_prefix host ''*.'' then (sanitizeStem host, True)
      else (sanitizeStem (ns @ ''-'' @ secret), False))"

section \<open>Directory mode\<close>

text \<open>The key pair of a scheduled projection, when its Secret exists and is usable.\<close>

definition tlsPair :: "api \<Rightarrow> render_model \<Rightarrow> string \<Rightarrow> (string \<times> string) option" where
  "tlsPair a m stem =
     (let cp = (case gget (rm_certs m) stem of Some cp \<Rightarrow> cp
                | None \<Rightarrow> \<lparr>cp_stem = [], cp_ns = [], cp_name = []\<rparr>)
      in case get_secret a (cp_ns cp) (cp_name cp) of
           None \<Rightarrow> None
         | Some sec \<Rightarrow>
             (let crt = gstr (sec_data sec) ''tls.crt''; key = gstr (sec_data sec) ''tls.key''
              in if crt = [] \<or> key = [] then None else Some (crt, key)))"

text \<open>The key is written before the certificate.\<close>

definition writePair ::
  "string \<Rightarrow> string \<Rightarrow> string \<Rightarrow> string \<Rightarrow> fsys \<Rightarrow> (string + bool) \<times> fsys" where
  "writePair dir stem crt key s =
     (case writeFileIfChanged s (Join dir (stem @ ''.key'')) key of
        (Inl e, s1) \<Rightarrow> (Inl (''write '' @ stem @ ''.key: '' @ e), s1)
      | (Inr kch, s1) \<Rightarrow>
          (case writeFileIfChanged s1 (Join dir (stem @ ''.crt'')) crt of
             (Inl e, s2) \<Rightarrow> (Inl (''write '' @ stem @ ''.crt: '' @ e), s2)
           | (Inr cch, s2) \<Rightarrow> (Inr (kch \<or> cch), s2)))"

fun projectLoop ::
  "api \<Rightarrow> render_model \<Rightarrow> string \<Rightarrow> string list \<Rightarrow> bool \<Rightarrow> string list \<Rightarrow> fsys \<Rightarrow> obs
    \<Rightarrow> (string + bool \<times> string list) \<times> fsys \<times> obs" where
  "projectLoop a m dir [] changed want s o1 = (Inr (changed, want), s, o1)"
| "projectLoop a m dir (stem # stems) changed want s o1 =
     (case tlsPair a m stem of
        None \<Rightarrow> projectLoop a m dir stems changed want s (inc MCertErrors o1)
      | Some (crt, key) \<Rightarrow>
          (case writePair dir stem crt key s of
             (Inl e, s1) \<Rightarrow> (Inl e, s1, o1)
           | (Inr ch, s1) \<Rightarrow>
               projectLoop a m dir stems (changed \<or> ch) (List.insert stem want) s1 o1))"

text \<open>Whether \<open>pruneCerts\<close> removes a directory entry.\<close>

definition stale :: "string list \<Rightarrow> string \<Rightarrow> bool" where
  "stale want n \<longleftrightarrow>
     (if has_suffix n ''.crt'' then trim_suffix n ''.crt'' \<notin> set want
      else if has_suffix n ''.key'' then trim_suffix n ''.key'' \<notin> set want
      else has_suffix n ''.tmp'')"

definition pruneEntry :: "string \<Rightarrow> string list \<Rightarrow> int \<times> fsys \<Rightarrow> string \<Rightarrow> int \<times> fsys" where
  "pruneEntry dir want acc n =
     (case acc of (removed, s) \<Rightarrow>
        if stale want n then
          (case Remove (Join dir n) s of (ok, s1) \<Rightarrow> (if ok then removed + 1 else removed, s1))
        else (removed, s))"

definition pruneCerts :: "string \<Rightarrow> string list \<Rightarrow> fsys \<Rightarrow> int \<times> fsys" where
  "pruneCerts dir want s =
     (case ReadDir dir s of
        (None, s1) \<Rightarrow> (0, s1)
      | (Some names, s1) \<Rightarrow> foldl (pruneEntry dir want) (0, s1) names)"

text \<open>
  The error carries only its message: the caller drops the two counters returned beside it.
\<close>

definition projectCerts ::
  "ing_cfg \<Rightarrow> api \<Rightarrow> render_model \<Rightarrow> fsys \<Rightarrow> obs \<Rightarrow> (string + bool \<times> int) \<times> fsys \<times> obs" where
  "projectCerts cfg a m s o1 =
     (if cf_certs_dir cfg = [] then (Inr (False, 0), s, o1)
      else case MkdirAll s of (ok, s1) \<Rightarrow>
        if \<not> ok then (Inl (''certs dir '' @ cf_certs_dir cfg), s1, o1)
        else case projectLoop a m (cf_certs_dir cfg) (sorted_keys (rm_certs m)) False [] s1 o1 of
          (Inl e, s2, o2) \<Rightarrow> (Inl e, s2, o2)
        | (Inr (changed, want), s2, o2) \<Rightarrow>
            (case pruneCerts (cf_certs_dir cfg) want s2 of (pruned, s3) \<Rightarrow>
               (Inr (changed \<or> pruned > 0, int (length want)), s3,
                set_gauge MCerts (int (length want)) o2)))"

section \<open>Secret mode\<close>

definition bytesMapEqual :: "(string, string) gmap \<Rightarrow> (string, string) gmap \<Rightarrow> bool" where
  "bytesMapEqual a b \<longleftrightarrow> length a = length b \<and> list_all (\<lambda>(k, va). gget b k = Some va) a"

definition ingressCertsManagedLabel :: string where
  "ingressCertsManagedLabel = ''synapse.gen0sec.com/ingress-certs''"

definition certData ::
  "api \<Rightarrow> render_model \<Rightarrow> (string, string) gmap \<times> obs \<Rightarrow> string \<Rightarrow> (string, string) gmap \<times> obs" where
  "certData a m acc stem =
     (case acc of (data, o1) \<Rightarrow>
        (case tlsPair a m stem of
           None \<Rightarrow> (data, inc MCertErrors o1)
         | Some (crt, key) \<Rightarrow> (gput (stem @ ''.key'') key (gput (stem @ ''.crt'') crt data), o1)))"

text \<open>
  The mutate function handed to \<^verbatim>\<open>controllerutil.CreateOrUpdate\<close>, on the object it finds (\<open>None\<close>:
  it does not exist), with the value it leaves in the captured \<open>changed\<close>.
\<close>

definition mutateCerts ::
  "string \<times> string \<Rightarrow> (string, string) gmap \<Rightarrow> secret option \<Rightarrow> secret \<times> bool" where
  "mutateCerts key data cur =
     (let sec = (case cur of Some x \<Rightarrow> x
                 | None \<Rightarrow> \<lparr>sec_ns = fst key, sec_name = snd key, sec_labels = [], sec_type = [], sec_data = []\<rparr>);
          sec1 = sec\<lparr>sec_labels := gput ingressCertsManagedLabel ''true'' (sec_labels sec), sec_type := ''Opaque''\<rparr>
      in if \<not> bytesMapEqual (sec_data sec1) data then (sec1\<lparr>sec_data := data\<rparr>, True) else (sec1, False))"

datatype cou_op = OpNone | OpCreated | OpUpdated

text \<open>
  \<open>cou\<close> is \<^verbatim>\<open>CreateOrUpdate\<close> with its client: given the store, the key and the mutate function
  it returns the operation done and the captured flag, or an error, and the new store.
\<close>

type_synonym ('w, 'o) cou =
  "'w \<Rightarrow> string \<times> string \<Rightarrow> ('o option \<Rightarrow> 'o \<times> bool) \<Rightarrow> (string + cou_op \<times> bool) \<times> 'w"

definition projectCertsToSecret ::
  "('w, secret) cou \<Rightarrow> ing_cfg \<Rightarrow> api \<Rightarrow> render_model \<Rightarrow> 'w \<Rightarrow> obs
    \<Rightarrow> (string + bool \<times> int) \<times> 'w \<times> obs" where
  "projectCertsToSecret cou cfg a m w o1 =
     (if snd (cf_certs_secret cfg) = [] then (Inr (False, 0), w, o1)
      else case foldl (certData a m) ([], o1) (sorted_keys (rm_certs m)) of (data, o2) \<Rightarrow>
        (case cou w (cf_certs_secret cfg) (mutateCerts (cf_certs_secret cfg) data) of
           (Inl e, w1) \<Rightarrow> (Inl e, w1, o2)
         | (Inr (op, flag), w1) \<Rightarrow>
             (let n = int (length data) div 2
              in (Inr (flag \<or> op = OpCreated, n), w1, set_gauge MCerts n o2))))"

section \<open>Stem lemmas\<close>

definition stem_char :: "char \<Rightarrow> bool" where
  "stem_char c \<longleftrightarrow> stem_rune (byte c)"

lemma byte_char_of: "0 \<le> r \<Longrightarrow> r < 256 \<Longrightarrow> byte (char_of r) = r"
  by (simp add: of_char_of)

lemma sanitizeStem_chars: "list_all stem_char (sanitizeStem s)"
proof -
  have "stem_char (if stem_rune r then char_of r else CHR ''_'')" for r
  proof (cases "stem_rune r")
    case True
    then have "0 \<le> r" "r < 256" by (auto simp: stem_rune_def)
    then show ?thesis using True by (simp add: stem_char_def byte_char_of)
  qed (simp add: stem_char_def stem_rune_def)
  then show ?thesis by (auto simp: sanitizeStem_def list_all_iff)
qed

definition safe_stem :: "string \<Rightarrow> bool" where
  "safe_stem st \<longleftrightarrow> list_all stem_char st"

lemma safe_stem_plain:
  assumes "safe_stem st" "x = ''.crt'' \<or> x = ''.key''"
  shows "plain_name (st @ x)"
proof -
  have "\<not> stem_char (CHR ''/'')" by (simp add: stem_char_def stem_rune_def)
  then have "CHR ''/'' \<notin> set st" using assms(1) by (auto simp: safe_stem_def list_all_iff)
  then show ?thesis
    using assms(2) by (auto simp: plain_name_def append_eq_Cons_conv)
qed

lemma sanitizeStem_ascii:
  "list_all stem_char s \<Longrightarrow> sanitizeStem s = s"
proof (induction s)
  case Nil
  then show ?case by (simp add: sanitizeStem_def)
next
  case (Cons c s)
  have b: "byte c < 128" using Cons.prems by (auto simp: stem_char_def stem_rune_def)
  have "decode_rune (c # s) = (byte c, 1)" using b by (simp add: decode_rune_def)
  then have "runes (c # s) = (byte c, [c]) # runes s" by simp
  then show ?case using Cons by (simp add: sanitizeStem_def stem_char_def)
qed

section \<open>The pair is written key first\<close>

abbreviation keyPath :: "string \<Rightarrow> string \<Rightarrow> string" where
  "keyPath dir stem \<equiv> Join dir (stem @ ''.key'')"

abbreviation crtPath :: "string \<Rightarrow> string \<Rightarrow> string" where
  "crtPath dir stem \<equiv> Join dir (stem @ ''.crt'')"

lemma pair_paths:
  assumes "dir \<noteq> []" "safe_stem st" "safe_stem st'"
  shows "keyPath dir st \<noteq> crtPath dir st'" "keyPath dir st = keyPath dir st' \<longleftrightarrow> st = st'"
    "crtPath dir st = crtPath dir st' \<longleftrightarrow> st = st'"
  using assms by (simp_all add: Join_child safe_stem_plain)

lemma writePair_touches: "touches {keyPath dir st, crtPath dir st} s (snd (writePair dir st crt key s))"
proof -
  obtain r1 s1 where w1: "writeFileIfChanged s (keyPath dir st) key = (r1, s1)" by fastforce
  obtain r2 s2 where w2: "writeFileIfChanged s1 (crtPath dir st) crt = (r2, s2)" by fastforce
  have t1: "touches {keyPath dir st, crtPath dir st} s s1"
    using touches_mono [OF writeFileIfChanged_touches [of "keyPath dir st" s key]] w1 by simp
  have t2: "touches {keyPath dir st, crtPath dir st} s1 s2"
    using touches_mono [OF writeFileIfChanged_touches [of "crtPath dir st" s1 crt]] w2 by simp
  show ?thesis
    using t1 touches_trans [OF t1 t2] w1 w2 by (auto simp: writePair_def split: sum.split)
qed

lemma writePair_done:
  assumes "writePair dir st crt key s = (Inr ch, s')" "keyPath dir st \<noteq> crtPath dir st"
  shows "gget (fs_files s') = (gget (fs_files s))(keyPath dir st \<mapsto> key, crtPath dir st \<mapsto> crt)"
    "ch \<longleftrightarrow> gget (fs_files s) (keyPath dir st) \<noteq> Some key \<or> gget (fs_files s) (crtPath dir st) \<noteq> Some crt"
    "\<not> ch \<Longrightarrow> s' = s"
proof -
  obtain r1 s1 where w1: "writeFileIfChanged s (keyPath dir st) key = (r1, s1)" by fastforce
  obtain r2 s2 where w2: "writeFileIfChanged s1 (crtPath dir st) crt = (r2, s2)" by fastforce
  obtain b1 where r1: "r1 = Inr b1" using assms(1) w1 by (cases r1) (auto simp: writePair_def)
  obtain b2 where r2: "r2 = Inr b2" and s': "s' = s2" "ch = (b1 \<or> b2)"
    using assms(1) w1 w2 r1 by (cases r2) (auto simp: writePair_def)
  note d1 = writeFileIfChanged_done [OF w1 [unfolded r1]]
  note d2 = writeFileIfChanged_done [OF w2 [unfolded r2]]
  show "gget (fs_files s') = (gget (fs_files s))(keyPath dir st \<mapsto> key, crtPath dir st \<mapsto> crt)"
    using d1(1) d2(1) s' by simp
  show "ch \<longleftrightarrow> gget (fs_files s) (keyPath dir st) \<noteq> Some key \<or> gget (fs_files s) (crtPath dir st) \<noteq> Some crt"
    using d1(1,2) d2(2) s' assms(2) by (simp add: ReadFile_def)
  show "\<not> ch \<Longrightarrow> s' = s" using d1(3) d2(3) s' by simp
qed

lemma writePair_same:
  assumes "gget (fs_files s) (keyPath dir st) = Some key" "gget (fs_files s) (crtPath dir st) = Some crt"
  shows "writePair dir st crt key s = (Inr False, s)"
  using assms by (simp add: writePair_def writeFileIfChanged_def ReadFile_def)

lemma WriteFile_ok: "fs_fates s = [] \<Longrightarrow> fst (WriteFile p c s) = True"
  by (simp add: WriteFile_def next_fate_def)

lemma writeFileIfChanged_ok: "fs_fates s = [] \<Longrightarrow> \<exists>b. fst (writeFileIfChanged s p c) = Inr b"
  using WriteFile_ok [of s p c] by (auto simp: writeFileIfChanged_def split: prod.split)

lemma writePair_ok:
  assumes "fs_fates s = []"
  shows "\<exists>b. fst (writePair dir st crt key s) = Inr b"
proof -
  obtain r1 s1 where w1: "writeFileIfChanged s (keyPath dir st) key = (r1, s1)" by fastforce
  moreover have "fs_fates s1 = []"
    using writeFileIfChanged_touches [of "keyPath dir st" s key] w1 assms by (simp add: touches_def)
  ultimately show ?thesis
    using writeFileIfChanged_ok [OF assms, of "keyPath dir st" key]
      writeFileIfChanged_ok [of s1 "crtPath dir st" crt]
    by (cases "writeFileIfChanged s1 (crtPath dir st) crt") (auto simp: writePair_def)
qed

text \<open>
  Claim C17. A new certificate never becomes visible before its key: in every state of the
  directory a watcher can observe while a pair is written, whichever operation fails, either the
  certificate file still has the content it had before the pass or the key file already holds
  the complete new key.
\<close>

theorem writePair_key_first:
  assumes "dir \<noteq> []" "safe_stem stem"
  shows "\<exists>new. fs_seen (snd (writePair dir stem crt key s)) = fs_seen s @ new \<and>
    (\<forall>fm \<in> set new. gget fm (crtPath dir stem) = gget (fs_files s) (crtPath dir stem) \<or>
       gget fm (keyPath dir stem) = Some key)"
proof -
  note paths = pair_paths [OF assms assms(2)]
  obtain r1 s1 where w1: "writeFileIfChanged s (keyPath dir stem) key = (r1, s1)" by fastforce
  obtain r2 s2 where w2: "writeFileIfChanged s1 (crtPath dir stem) crt = (r2, s2)" by fastforce
  have t1: "touches {keyPath dir stem} s s1" and t2: "touches {crtPath dir stem} s1 s2"
    using writeFileIfChanged_touches [of "keyPath dir stem" s key] w1
      writeFileIfChanged_touches [of "crtPath dir stem" s1 crt] w2 by simp_all
  obtain n1 where n1: "fs_seen s1 = fs_seen s @ n1"
      "\<forall>fm \<in> set n1. gget fm (crtPath dir stem) = gget (fs_files s) (crtPath dir stem)"
    using t1 paths(1) unfolding touches_def by (metis singletonD)
  show ?thesis
  proof (cases r1)
    case (Inl e)
    then show ?thesis using n1 w1 by (simp add: writePair_def)
  next
    case (Inr b1)
    then have key: "gget (fs_files s1) (keyPath dir stem) = Some key"
      using writeFileIfChanged_done(1) w1 by simp
    obtain n2 where n2: "fs_seen s2 = fs_seen s1 @ n2"
        "\<forall>fm \<in> set n2. gget fm (keyPath dir stem) = Some key"
      using t2 key paths(1) unfolding touches_def by (metis singletonD)
    have "snd (writePair dir stem crt key s) = s2"
      using Inr w1 w2 by (simp add: writePair_def split: sum.split)
    then show ?thesis using n1 n2 by auto
  qed
qed

lemma writePair_key_first_witness:
  "let s = \<lparr>fs_files = [], fs_fates = [Succeeds, Fails (Some 1)], fs_seen = []\<rparr>
   in \<exists>new. fs_seen (snd (writePair ''/c'' ''h'' ''CRT'' ''KEY'' s)) = fs_seen s @ new \<and> length new = 6 \<and>
     (\<forall>fm \<in> set new. gget fm (crtPath ''/c'' ''h'') = gget (fs_files s) (crtPath ''/c'' ''h'') \<or>
        gget fm (keyPath ''/c'' ''h'') = Some ''KEY'')"
proof -
  let ?s = "\<lparr>fs_files = [], fs_fates = [Succeeds, Fails (Some 1)], fs_seen = []\<rparr>"
  have "safe_stem ''h''" by code_simp
  moreover have "length (fs_seen (snd (writePair ''/c'' ''h'' ''CRT'' ''KEY'' ?s))) = 6" by code_simp
  ultimately show ?thesis
    using writePair_key_first [of "''/c''" "''h''" "''CRT''" "''KEY''" ?s] by (auto simp: Let_def)
qed

section \<open>The loop over the stems\<close>

definition pairPaths :: "string \<Rightarrow> string set \<Rightarrow> string set" where
  "pairPaths dir S = (\<Union>st \<in> S. {keyPath dir st, crtPath dir st})"

lemma pairPaths_simps:
  "pairPaths dir {} = {}"
  "pairPaths dir (insert st S) = {keyPath dir st, crtPath dir st} \<union> pairPaths dir S"
  by (auto simp: pairPaths_def)

lemma pairPaths_fresh:
  assumes "dir \<noteq> []" "safe_stem st" "\<forall>x \<in> S. safe_stem x" "st \<notin> S"
  shows "keyPath dir st \<notin> pairPaths dir S" "crtPath dir st \<notin> pairPaths dir S"
  using assms pair_paths [of dir] by (auto simp: pairPaths_def) metis+

lemma projectLoop_touches:
  "touches (pairPaths dir (set stems)) s (fst (snd (projectLoop a m dir stems ch want s o1)))"
proof (induction a m dir stems ch want s o1 rule: projectLoop.induct)
  case (2 a m dir stem stems ch want s o1)
  show ?case
  proof (cases "tlsPair a m stem")
    case None
    then show ?thesis using 2(1) [OF None] by (auto simp: pairPaths_simps intro: touches_mono)
  next
    case (Some p)
    obtain crt key where p: "p = (crt, key)" by fastforce
    obtain r s1 where w: "writePair dir stem crt key s = (r, s1)" by fastforce
    have t: "touches (pairPaths dir (set (stem # stems))) s s1"
      using touches_mono [OF writePair_touches [of dir stem s crt key]] w by (simp add: pairPaths_simps)
    show ?thesis
    proof (cases r)
      case (Inl e)
      then show ?thesis using t w Some p by simp
    next
      case (Inr c)
      have "touches (pairPaths dir (set (stem # stems))) s1
          (fst (snd (projectLoop a m dir stems (ch \<or> c) (List.insert stem want) s1 o1)))"
        using 2(2) [OF Some p [symmetric] w [symmetric] Inr] by (auto simp: pairPaths_simps intro: touches_mono)
      then show ?thesis using touches_trans [OF t] w Some p Inr by simp
    qed
  qed
qed simp

text \<open>What a loop without failing operations does.\<close>

definition usable :: "api \<Rightarrow> render_model \<Rightarrow> string list \<Rightarrow> string set" where
  "usable a m stems = {st \<in> set stems. tlsPair a m st \<noteq> None}"

lemma projectLoop_done:
  assumes "distinct stems" "\<forall>st \<in> set stems. safe_stem st" "dir \<noteq> []"
    and "projectLoop a m dir stems ch want s o1 = (Inr (ch', want'), s', o')"
  shows "set want' = set want \<union> usable a m stems \<and> (distinct want \<longrightarrow> distinct want') \<and>
    (\<forall>st crt key. st \<in> set stems \<longrightarrow> tlsPair a m st = Some (crt, key) \<longrightarrow>
       gget (fs_files s') (keyPath dir st) = Some key \<and> gget (fs_files s') (crtPath dir st) = Some crt) \<and>
    touches (pairPaths dir (usable a m stems)) s s' \<and>
    metrics o' MCertErrors = metrics o1 MCertErrors + int (card (set stems - usable a m stems))"
  using assms
proof (induction stems arbitrary: ch want s o1)
  case Nil
  then show ?case by (simp add: usable_def pairPaths_simps)
next
  case (Cons stem stems)
  have fresh: "keyPath dir stem \<notin> pairPaths dir (usable a m stems)"
    "crtPath dir stem \<notin> pairPaths dir (usable a m stems)"
    using pairPaths_fresh [of dir stem "usable a m stems"] Cons.prems by (auto simp: usable_def)
  show ?case
  proof (cases "tlsPair a m stem")
    case None
    have u: "usable a m (stem # stems) = usable a m stems" using None by (auto simp: usable_def)
    have "stem \<notin> usable a m stems" "stem \<notin> set stems" using Cons.prems by (auto simp: usable_def)
    then have c: "card (set (stem # stems) - usable a m stems) = Suc (card (set stems - usable a m stems))"
      by (simp add: insert_Diff_if)
    show ?thesis
      using Cons.IH [of ch want s "inc MCertErrors o1"] Cons.prems None unfolding u c by auto
  next
    case (Some p)
    obtain crt key where p: "p = (crt, key)" by fastforce
    obtain c s1 where w: "writePair dir stem crt key s = (Inr c, s1)"
      using Cons.prems(4) Some p by (auto split: prod.splits sum.splits)
    have t: "touches {keyPath dir stem, crtPath dir stem} s s1"
      using writePair_touches [of dir stem s crt key] w by simp
    have neq: "keyPath dir stem \<noteq> crtPath dir stem" using pair_paths [of dir stem stem] Cons.prems by simp
    have u: "usable a m (stem # stems) = insert stem (usable a m stems)" using Some by (auto simp: usable_def)
    have rest: "projectLoop a m dir stems (ch \<or> c) (List.insert stem want) s1 o1 = (Inr (ch', want'), s', o')"
      using Cons.prems(4) Some p w by simp
    note ih = Cons.IH [OF _ _ Cons.prems(3) rest]
    have t': "touches (pairPaths dir (usable a m stems)) s1 s'" using ih Cons.prems by simp
    have here: "gget (fs_files s') (keyPath dir stem) = Some key" "gget (fs_files s') (crtPath dir stem) = Some crt"
      using writePair_done(1) [OF w neq] t' fresh neq unfolding touches_def by auto
    have "touches (pairPaths dir (usable a m (stem # stems))) s s'"
      using touches_trans [OF touches_mono [OF t] touches_mono [OF t']] by (auto simp: u pairPaths_simps)
    moreover have "set (stem # stems) - usable a m (stem # stems) = set stems - usable a m stems"
      using Cons.prems by (auto simp: u)
    ultimately show ?thesis
      using ih here Some p Cons.prems by (auto simp: u)
  qed
qed

lemma projectLoop_ok:
  "fs_fates s = [] \<Longrightarrow> \<exists>ch' want' s' o'. projectLoop a m dir stems ch want s o1 = (Inr (ch', want'), s', o')"
proof (induction stems arbitrary: ch want s o1)
  case (Cons stem stems)
  show ?case
  proof (cases "tlsPair a m stem")
    case (Some p)
    obtain crt key where p: "p = (crt, key)" by fastforce
    obtain c s1 where w: "writePair dir stem crt key s = (Inr c, s1)"
      using writePair_ok [OF Cons.prems, of dir stem crt key] by (metis prod.collapse)
    then have "fs_fates s1 = []"
      using writePair_touches [of dir stem s crt key] Cons.prems by (simp add: touches_def)
    then show ?thesis using Cons.IH Some p w by simp
  qed (use Cons in simp)
qed simp

section \<open>Pruning\<close>

definition cert_name :: "string \<Rightarrow> bool" where
  "cert_name n \<longleftrightarrow> has_suffix n ''.crt'' \<or> has_suffix n ''.key'' \<or> has_suffix n ''.tmp''"

lemma stale_cert_name: "stale want n \<Longrightarrow> cert_name n"
  by (auto simp: stale_def cert_name_def split: if_splits)

lemma cert_name_plain: "cert_name n \<Longrightarrow> CHR ''/'' \<notin> set n \<Longrightarrow> plain_name n"
  by (auto simp: cert_name_def plain_name_def has_suffix_def)

lemma dir_names_iff:
  "n \<in> set (dir_names dir fm) \<longleftrightarrow> CHR ''/'' \<notin> set n \<and> ghas fm (dir_prefix dir @ n)"
proof -
  have "(\<exists>p \<in> set (gkeys fm). has_prefix p (dir_prefix dir) \<and> n = drop (length (dir_prefix dir)) p) \<longleftrightarrow>
      dir_prefix dir @ n \<in> set (gkeys fm)"
    unfolding has_prefix_iff by (metis append_eq_conv_conj)
  then show ?thesis unfolding dir_names_def Let_def ghas_iff by auto
qed

definition certFiles :: "string \<Rightarrow> string set" where
  "certFiles dir = {dir_prefix dir @ n | n. plain_name n \<and> cert_name n}"

text \<open>The files pruning may remove.\<close>

definition staleFiles :: "string \<Rightarrow> string list \<Rightarrow> string set" where
  "staleFiles dir want = {dir_prefix dir @ n | n. plain_name n \<and> stale want n}"

lemma staleFiles_certFiles: "staleFiles dir want \<subseteq> certFiles dir"
  using stale_cert_name by (auto simp: staleFiles_def certFiles_def)

lemma pruneEntry_touches:
  assumes "dir \<noteq> []" "CHR ''/'' \<notin> set n"
  shows "touches (staleFiles dir want) s (snd (pruneEntry dir want (k, s) n))"
proof (cases "stale want n")
  case True
  then have n: "plain_name n"
    using assms(2) stale_cert_name cert_name_plain by blast
  have "touches (staleFiles dir want) s (snd (Remove (Join dir n) s))"
    by (rule touches_mono [OF Remove_touches]) (use n True assms in \<open>auto simp: staleFiles_def Join_child\<close>)
  then show ?thesis using True by (cases "Remove (Join dir n) s") (simp add: pruneEntry_def)
qed (simp add: pruneEntry_def)

lemma prune_fold_touches:
  assumes "dir \<noteq> []" "\<forall>n \<in> set ns. CHR ''/'' \<notin> set n"
  shows "touches (staleFiles dir want) s (snd (foldl (pruneEntry dir want) (k, s) ns))"
  using assms(2)
proof (induction ns arbitrary: k s)
  case (Cons n ns)
  obtain k1 s1 where e: "pruneEntry dir want (k, s) n = (k1, s1)" by fastforce
  have "touches (staleFiles dir want) s s1"
    using pruneEntry_touches [OF assms(1), of n want s k] Cons.prems e by simp
  then show ?case using touches_trans Cons e by simp
qed simp

lemma ReadDir_names: "ReadDir dir s = (Some ns, s1) \<Longrightarrow> ns = dir_names dir (fs_files s) \<and> fs_files s1 = fs_files s"
  using next_fate_frame [of s] by (auto simp: ReadDir_def split: prod.splits fate.splits)

lemma pruneCerts_removes:
  assumes "dir \<noteq> []"
  shows "touches (staleFiles dir want) s (snd (pruneCerts dir want s))"
proof -
  obtain ns s1 where r: "ReadDir dir s = (ns, s1)" by fastforce
  have t: "touches (staleFiles dir want) s s1" using ReadDir_touches [of "staleFiles dir want" s dir] r by simp
  show ?thesis
  proof (cases ns)
    case (Some names)
    have "\<forall>n \<in> set names. CHR ''/'' \<notin> set n"
      using ReadDir_names [of dir s names s1] r Some by (simp add: dir_names_iff)
    then show ?thesis
      using touches_trans [OF t] prune_fold_touches [OF assms] r Some by (simp add: pruneCerts_def)
  qed (use t r in \<open>simp add: pruneCerts_def\<close>)
qed

lemma pruneCerts_touches:
  assumes "dir \<noteq> []"
  shows "touches (certFiles dir) s (snd (pruneCerts dir want s))"
  by (rule touches_mono [OF pruneCerts_removes [OF assms] staleFiles_certFiles])

lemma prune_fold_ok:
  assumes "dir \<noteq> []" "fs_fates s = []" "\<forall>n \<in> set ns. CHR ''/'' \<notin> set n"
  shows "gget (fs_files (snd (foldl (pruneEntry dir want) (k, s) ns))) =
    (\<lambda>p. if \<exists>n \<in> set ns. stale want n \<and> p = dir_prefix dir @ n then None else gget (fs_files s) p)"
  using assms(2,3)
proof (induction ns arbitrary: k s)
  case (Cons n ns)
  obtain k1 s1 where e: "pruneEntry dir want (k, s) n = (k1, s1)" by fastforce
  have f: "fs_fates s1 = []"
    using pruneEntry_touches [OF assms(1), of n want s k] Cons.prems e by (simp add: touches_def)
  have "gget (fs_files s1) = (\<lambda>p. if stale want n \<and> p = dir_prefix dir @ n then None else gget (fs_files s) p)"
  proof (cases "stale want n")
    case True
    then have "plain_name n" using Cons.prems(2) stale_cert_name cert_name_plain by simp
    then have j: "Join dir n = dir_prefix dir @ n" using assms(1) by (simp add: Join_child)
    show ?thesis
      using e True Cons.prems(1)
      by (auto simp: pruneEntry_def j Remove_def next_fate_def set_files_def gmap_simps ghas_def
          fun_eq_iff split: if_splits)
  next
    case False
    then show ?thesis using e by (simp add: pruneEntry_def)
  qed
  then show ?case using Cons.IH [OF f, of k1] Cons.prems e by (auto simp: fun_eq_iff)
qed simp

lemma pruneCerts_ok:
  assumes "dir \<noteq> []" "fs_fates s = []" "CHR ''/'' \<notin> set n"
  shows "gget (fs_files (snd (pruneCerts dir want s))) (dir_prefix dir @ n) =
    (if stale want n then None else gget (fs_files s) (dir_prefix dir @ n))"
proof -
  let ?ns = "dir_names dir (fs_files s)"
  have r: "ReadDir dir s = (Some ?ns, s)" using assms(2) by (simp add: ReadDir_def next_fate_def)
  have "\<forall>n \<in> set ?ns. CHR ''/'' \<notin> set n" by (simp add: dir_names_iff)
  from prune_fold_ok [OF assms(1,2) this, of want 0] show ?thesis
    using assms(3) by (auto simp: pruneCerts_def r dir_names_iff ghas_def)
qed

lemma pruneCerts_nothing:
  assumes "fs_fates s = []" "\<forall>n. CHR ''/'' \<notin> set n \<longrightarrow> stale want n \<longrightarrow> gget (fs_files s) (dir_prefix dir @ n) = None"
  shows "pruneCerts dir want s = (0, s)"
proof -
  let ?ns = "dir_names dir (fs_files s)"
  have "\<forall>n \<in> set ?ns. \<not> stale want n" using assms(2) by (auto simp: dir_names_iff ghas_def)
  then have "foldl (pruneEntry dir want) (0, s) ns = (0, s)" if "set ns \<subseteq> set ?ns" for ns
    using that by (induction ns) (auto simp: pruneEntry_def)
  then show ?thesis using assms(1) by (simp add: pruneCerts_def ReadDir_def next_fate_def)
qed

section \<open>A whole pass\<close>

text \<open>The pair that should be in the directory for a stem, and the content of a file by name.\<close>

definition wantedPair :: "api \<Rightarrow> render_model \<Rightarrow> string \<Rightarrow> (string \<times> string) option" where
  "wantedPair a m st = (if ghas (rm_certs m) st then tlsPair a m st else None)"

definition wantedFile :: "api \<Rightarrow> render_model \<Rightarrow> string \<Rightarrow> string option" where
  "wantedFile a m n =
     (if has_suffix n ''.crt'' then map_option fst (wantedPair a m (trim_suffix n ''.crt''))
      else if has_suffix n ''.key'' then map_option snd (wantedPair a m (trim_suffix n ''.key''))
      else None)"

definition stems_safe :: "render_model \<Rightarrow> bool" where
  "stems_safe m \<longleftrightarrow> gmap_ok (rm_certs m) \<and> (\<forall>st \<in> set (gkeys (rm_certs m)). safe_stem st)"

lemma stems_safe_sorted:
  "stems_safe m \<Longrightarrow> distinct (sorted_keys (rm_certs m)) \<and> (\<forall>st \<in> set (sorted_keys (rm_certs m)). safe_stem st)"
  by (simp add: stems_safe_def sorted_keys_def gmap_ok_def)

lemma usable_wanted: "st \<in> usable a m (sorted_keys (rm_certs m)) \<longleftrightarrow> wantedPair a m st \<noteq> None"
  by (simp add: usable_def wantedPair_def ghas_iff)

lemma stale_wanted:
  "set want = usable a m (sorted_keys (rm_certs m)) \<Longrightarrow> stale want n \<longleftrightarrow> cert_name n \<and> wantedFile a m n = None"
  by (simp add: stale_def cert_name_def wantedFile_def usable_wanted del: not_None_eq)

lemma has_suffix_trim: "has_suffix n p \<Longrightarrow> n = trim_suffix n p @ p"
proof -
  assume "has_suffix n p"
  then obtain t where "rev n = rev p @ t" by (auto simp: has_suffix_def has_prefix_iff)
  then have "n = rev t @ p" by (metis rev_append rev_rev_ident)
  then show ?thesis by simp
qed

lemma wantedFile_pair:
  assumes "dir \<noteq> []" "stems_safe m" "wantedFile a m n = Some c"
  obtains st crt key where "st \<in> set (sorted_keys (rm_certs m))" "tlsPair a m st = Some (crt, key)"
    "n = st @ ''.crt'' \<and> c = crt \<and> dir_prefix dir @ n = crtPath dir st \<or>
     n = st @ ''.key'' \<and> c = key \<and> dir_prefix dir @ n = keyPath dir st"
proof -
  obtain st x where sx: "n = st @ x" "x = ''.crt'' \<or> x = ''.key''" "wantedPair a m st \<noteq> None"
      "x = ''.crt'' \<and> c = fst (the (wantedPair a m st)) \<or> x = ''.key'' \<and> c = snd (the (wantedPair a m st))"
    using assms(3) has_suffix_trim [of n "''.crt''"] has_suffix_trim [of n "''.key''"]
    by (auto simp: wantedFile_def split: if_splits)
  obtain crt key where p: "wantedPair a m st = Some (crt, key)" using sx(3) by auto
  then have st: "st \<in> set (sorted_keys (rm_certs m))" "tlsPair a m st = Some (crt, key)"
    by (auto simp: wantedPair_def ghas_iff split: if_splits)
  moreover have "safe_stem st" using st assms(2) stems_safe_sorted by blast
  ultimately show thesis
    using that [of st crt key] sx p assms(1) by (auto simp: Join_child safe_stem_plain)
qed

lemma pairPaths_certFiles:
  assumes "dir \<noteq> []" "\<forall>st \<in> S. safe_stem st"
  shows "pairPaths dir S \<subseteq> certFiles dir"
proof
  fix p assume "p \<in> pairPaths dir S"
  then obtain st x where p: "p = Join dir (st @ x)" "x = ''.crt'' \<or> x = ''.key''" "st \<in> S"
    by (auto simp: pairPaths_def)
  then have "plain_name (st @ x)" "cert_name (st @ x)"
    using assms(2) by (auto simp: safe_stem_plain cert_name_def has_suffix_def)
  then show "p \<in> certFiles dir" using p(1) assms(1) by (auto simp: certFiles_def Join_child)
qed

lemma projectCerts_touches:
  assumes "stems_safe m"
  shows "touches (certFiles (cf_certs_dir cfg)) s (fst (snd (projectCerts cfg a m s o1)))"
proof (cases "cf_certs_dir cfg = []")
  case False
  let ?dir = "cf_certs_dir cfg" and ?stems = "sorted_keys (rm_certs m)"
  obtain ok s1 where mk: "MkdirAll s = (ok, s1)" by fastforce
  obtain r s2 o2 where lp: "projectLoop a m ?dir ?stems False [] s1 o1 = (r, s2, o2)"
    by (metis prod.collapse)
  have t1: "touches (certFiles ?dir) s s1" using MkdirAll_touches [of "certFiles ?dir" s] mk by simp
  have "pairPaths ?dir (set ?stems) \<subseteq> certFiles ?dir"
    using pairPaths_certFiles [OF False] stems_safe_sorted [OF assms] by simp
  then have "touches (certFiles ?dir) s1 s2"
    using touches_mono [OF projectLoop_touches [of ?dir ?stems s1 a m False "[]" o1]] lp by simp
  note t2 = touches_trans [OF t1 this]
  show ?thesis
  proof (cases ok)
    case True
    show ?thesis
    proof (cases r)
      case (Inl e)
      then show ?thesis using t2 True False mk lp by (simp add: projectCerts_def)
    next
      case (Inr cw)
      obtain pr s3 where pr: "pruneCerts ?dir (snd cw) s2 = (pr, s3)" by fastforce
      then have "touches (certFiles ?dir) s s3"
        using touches_trans [OF t2] pruneCerts_touches [OF False, of s2 "snd cw"] by simp
      then show ?thesis using Inr True False mk lp pr by (cases cw) (simp add: projectCerts_def)
    qed
  qed (use t1 False mk in \<open>simp add: projectCerts_def\<close>)
qed (simp add: projectCerts_def)

text \<open>
  Claim C22. Certificate projection stays in its directory: whatever the Secrets hold and
  whichever file operation fails, a pass creates, changes or removes only files that are direct
  children of the certificates directory and end in \<^verbatim>\<open>.crt\<close>, \<^verbatim>\<open>.key\<close> or \<^verbatim>\<open>.tmp\<close>, at every
  intermediate moment.
\<close>

theorem projectCerts_contained:
  assumes "stems_safe m"
  shows "touches (certFiles (cf_certs_dir cfg)) s (fst (snd (projectCerts cfg a m s o1)))"
  using assms by (rule projectCerts_touches)

text \<open>The result of a pass without failing operations, and what a second one finds.\<close>

lemma projectCerts_ok:
  assumes "cf_certs_dir cfg \<noteq> []" "stems_safe m" "fs_fates s = []"
  shows "\<exists>ch want s' o'. projectCerts cfg a m s o1 = (Inr (ch, int (length want)), s', o') \<and>
    distinct want \<and> set want = usable a m (sorted_keys (rm_certs m)) \<and> fs_fates s' = [] \<and>
    (\<forall>n. CHR ''/'' \<notin> set n \<longrightarrow> gget (fs_files s') (dir_prefix (cf_certs_dir cfg) @ n) =
       (if cert_name n then wantedFile a m n else gget (fs_files s) (dir_prefix (cf_certs_dir cfg) @ n))) \<and>
    metrics o' MCertErrors = metrics o1 MCertErrors +
      int (card (set (sorted_keys (rm_certs m)) - set want)) \<and>
    metrics o' MCerts = int (length want)"
proof -
  let ?dir = "cf_certs_dir cfg" and ?stems = "sorted_keys (rm_certs m)"
  have mk: "MkdirAll s = (True, s)" using assms(3) by (simp add: MkdirAll_def next_fate_def)
  obtain ch want s2 o2 where lp: "projectLoop a m ?dir ?stems False [] s o1 = (Inr (ch, want), s2, o2)"
      "set want = usable a m ?stems" "distinct want"
      "\<And>st crt key. st \<in> set ?stems \<Longrightarrow> tlsPair a m st = Some (crt, key) \<Longrightarrow>
         gget (fs_files s2) (keyPath ?dir st) = Some key \<and> gget (fs_files s2) (crtPath ?dir st) = Some crt"
      "touches (pairPaths ?dir (usable a m ?stems)) s s2"
      "metrics o2 MCertErrors = metrics o1 MCertErrors + int (card (set ?stems - usable a m ?stems))"
    using projectLoop_ok [OF assms(3), of a m ?dir ?stems False "[]" o1] projectLoop_done [of ?stems ?dir a m False "[]" s o1]
      stems_safe_sorted [OF assms(2)] assms(1) by fastforce
  have f2: "fs_fates s2 = []" using lp(5) assms(3) by (simp add: touches_def)
  obtain pr s3 where pr: "pruneCerts ?dir want s2 = (pr, s3)" by fastforce
  have f3: "fs_fates s3 = []"
    using pruneCerts_touches [OF assms(1), of s2 want] f2 pr by (simp add: touches_def)
  have out: "gget (fs_files s3) (dir_prefix ?dir @ n) =
      (if cert_name n then wantedFile a m n else gget (fs_files s) (dir_prefix ?dir @ n))"
    if n: "CHR ''/'' \<notin> set n" for n
  proof -
    note step = pruneCerts_ok [OF assms(1) f2 n, of want, unfolded pr snd_conv stale_wanted [OF lp(2)]]
    show ?thesis
    proof (cases "cert_name n")
      case True
      show ?thesis
      proof (cases "wantedFile a m n")
        case (Some c)
        obtain st crt key where w: "st \<in> set ?stems" "tlsPair a m st = Some (crt, key)"
            "n = st @ ''.crt'' \<and> c = crt \<and> dir_prefix ?dir @ n = crtPath ?dir st \<or>
             n = st @ ''.key'' \<and> c = key \<and> dir_prefix ?dir @ n = keyPath ?dir st"
          using wantedFile_pair [OF assms(1,2) Some] by blast
        have "gget (fs_files s2) (dir_prefix ?dir @ n) = Some c"
          using lp(4) [OF w(1,2)] w(3) by metis
        then show ?thesis using step Some True by simp
      qed (use step True in simp)
    next
      case False
      then have "dir_prefix ?dir @ n \<notin> certFiles ?dir" by (simp add: certFiles_def)
      moreover have "\<forall>st \<in> usable a m ?stems. safe_stem st"
        using stems_safe_sorted [OF assms(2)] unfolding usable_def by blast
      then have "pairPaths ?dir (usable a m ?stems) \<subseteq> certFiles ?dir"
        by (rule pairPaths_certFiles [OF assms(1)])
      ultimately show ?thesis using lp(5) step False unfolding touches_def by auto
    qed
  qed
  have "projectCerts cfg a m s o1 =
      (Inr (ch \<or> pr > 0, int (length want)), s3, set_gauge MCerts (int (length want)) o2)"
    using assms(1) mk lp(1) pr by (simp add: projectCerts_def)
  then show ?thesis using lp f3 out by auto
qed

text \<open>
  Claim C23. A pass in which no file operation fails makes the certificates directory exactly
  what the Secrets say: for every name, a \<^verbatim>\<open>.crt\<close> or \<^verbatim>\<open>.key\<close> file exists exactly when its stem is
  scheduled and its Secret is usable, with the Secret's bytes, \<^verbatim>\<open>.tmp\<close> files are gone, and every
  other file is as it was. It reports the number of usable stems, and counts one certificate
  error for each of the others.
\<close>

theorem projectCerts_converges:
  assumes "cf_certs_dir cfg \<noteq> []" "stems_safe m" "fs_fates s = []"
  shows "\<exists>ch n s' o'. projectCerts cfg a m s o1 = (Inr (ch, int n), s', o') \<and>
    n = card {st. wantedPair a m st \<noteq> None} \<and>
    (\<forall>f. CHR ''/'' \<notin> set f \<longrightarrow> gget (fs_files s') (dir_prefix (cf_certs_dir cfg) @ f) =
       (if cert_name f then wantedFile a m f else gget (fs_files s) (dir_prefix (cf_certs_dir cfg) @ f))) \<and>
    metrics o' MCertErrors = metrics o1 MCertErrors +
      int (card {st. ghas (rm_certs m) st \<and> tlsPair a m st = None})"
proof -
  have u: "usable a m (sorted_keys (rm_certs m)) = {st. wantedPair a m st \<noteq> None}"
    using usable_wanted by blast
  have e: "set (sorted_keys (rm_certs m)) - {st. wantedPair a m st \<noteq> None} =
      {st. ghas (rm_certs m) st \<and> tlsPair a m st = None}"
  proof (rule set_eqI)
    fix x
    have "x \<in> set (sorted_keys (rm_certs m)) \<longleftrightarrow> ghas (rm_certs m) x"
      by (simp only: set_sorted_keys ghas_iff)
    then show "x \<in> set (sorted_keys (rm_certs m)) - {st. wantedPair a m st \<noteq> None} \<longleftrightarrow>
        x \<in> {st. ghas (rm_certs m) st \<and> tlsPair a m st = None}"
      by (simp only: Diff_iff mem_Collect_eq wantedPair_def) (cases "tlsPair a m x"; simp)
  qed
  obtain ch want s' o' where r: "projectCerts cfg a m s o1 = (Inr (ch, int (length want)), s', o')"
      "distinct want" "set want = usable a m (sorted_keys (rm_certs m))"
      "\<forall>n. CHR ''/'' \<notin> set n \<longrightarrow> gget (fs_files s') (dir_prefix (cf_certs_dir cfg) @ n) =
       (if cert_name n then wantedFile a m n else gget (fs_files s) (dir_prefix (cf_certs_dir cfg) @ n))"
      "metrics o' MCertErrors = metrics o1 MCertErrors + int (card (set (sorted_keys (rm_certs m)) - set want))"
    using projectCerts_ok [OF assms, of a o1] by blast
  have "length want = card {st. wantedPair a m st \<noteq> None}"
    using r(2,3) distinct_card [of want] by (simp only: u)
  then show ?thesis
    using r(1,4) r(5) [unfolded r(3) u e] by (intro exI conjI)
qed

text \<open>A directory that already holds what the Secrets say.\<close>

definition settled :: "ing_cfg \<Rightarrow> api \<Rightarrow> render_model \<Rightarrow> fsys \<Rightarrow> bool" where
  "settled cfg a m s \<longleftrightarrow>
     (\<forall>f. CHR ''/'' \<notin> set f \<longrightarrow> cert_name f \<longrightarrow>
        gget (fs_files s) (dir_prefix (cf_certs_dir cfg) @ f) = wantedFile a m f)"

lemma projectLoop_settled:
  assumes "cf_certs_dir cfg \<noteq> []" "settled cfg a m s" "\<forall>st \<in> set stems. safe_stem st \<and> ghas (rm_certs m) st"
  shows "\<exists>want' o'. projectLoop a m (cf_certs_dir cfg) stems ch want s o1 = (Inr (ch, want'), s, o') \<and>
    set want' = set want \<union> usable a m stems"
  using assms(3)
proof (induction stems arbitrary: want o1)
  case (Cons stem stems)
  show ?case
  proof (cases "tlsPair a m stem")
    case None
    moreover from this have "usable a m (stem # stems) = usable a m stems" by (auto simp: usable_def)
    ultimately show ?thesis using Cons by simp
  next
    case (Some p)
    obtain crt key where p: "p = (crt, key)" by fastforce
    have safe: "safe_stem stem" and w: "wantedPair a m stem = Some (crt, key)"
      using Cons.prems Some p by (simp_all add: wantedPair_def)
    have pl: "plain_name (stem @ ''.key'')" "plain_name (stem @ ''.crt'')"
      using safe by (simp_all add: safe_stem_plain)
    have "\<not> has_suffix (stem @ ''.key'') ''.crt''" by (simp add: has_suffix_def)
    then have "wantedFile a m (stem @ ''.key'') = Some key" "wantedFile a m (stem @ ''.crt'') = Some crt"
      using w by (simp_all add: wantedFile_def has_suffix_def del: append_assoc)
    then have "gget (fs_files s) (keyPath (cf_certs_dir cfg) stem) = Some key"
      "gget (fs_files s) (crtPath (cf_certs_dir cfg) stem) = Some crt"
      using assms(1,2) pl unfolding settled_def
      by (simp_all add: Join_child cert_name_def has_suffix_def plain_name_def)
    then have "writePair (cf_certs_dir cfg) stem crt key s = (Inr False, s)" by (rule writePair_same)
    moreover have "usable a m (stem # stems) = insert stem (usable a m stems)"
      using Some by (auto simp: usable_def)
    moreover obtain want' o' where "projectLoop a m (cf_certs_dir cfg) stems ch (List.insert stem want) s o1 =
          (Inr (ch, want'), s, o')" "set want' = set (List.insert stem want) \<union> usable a m stems"
      using Cons.IH [of "List.insert stem want" o1] Cons.prems by auto
    ultimately show ?thesis using Some p by simp
  qed
qed (simp add: usable_def)

lemma projectCerts_settled:
  assumes "cf_certs_dir cfg \<noteq> []" "stems_safe m" "fs_fates s = []" "settled cfg a m s"
  shows "\<exists>n o2. projectCerts cfg a m s o1 = (Inr (False, n), s, o2)"
proof -
  let ?dir = "cf_certs_dir cfg" and ?stems = "sorted_keys (rm_certs m)"
  have mk: "MkdirAll s = (True, s)" using assms(3) by (simp add: MkdirAll_def next_fate_def)
  have "\<forall>st \<in> set ?stems. safe_stem st \<and> ghas (rm_certs m) st"
    using stems_safe_sorted [OF assms(2)] by (simp add: ghas_iff)
  then obtain want o2 where lp: "projectLoop a m ?dir ?stems False [] s o1 = (Inr (False, want), s, o2)"
      "set want = usable a m ?stems"
    using projectLoop_settled [OF assms(1,4), of ?stems False "[]" o1] by auto
  have "pruneCerts ?dir want s = (0, s)"
    using pruneCerts_nothing [OF assms(3), of want ?dir] assms(4) stale_wanted [OF lp(2)] by (auto simp: settled_def)
  then show ?thesis using assms(1) mk lp(1) by (simp add: projectCerts_def)
qed

text \<open>
  Whatever removals fail: a pass that reports success has put every usable pair in place.
\<close>

lemma projectCerts_pairs:
  assumes "cf_certs_dir cfg \<noteq> []" "stems_safe m" "projectCerts cfg a m s o1 = (Inr r, s', o')"
    and st: "ghas (rm_certs m) st" "tlsPair a m st = Some (crt, key)"
  shows "gget (fs_files s') (keyPath (cf_certs_dir cfg) st) = Some key"
    "gget (fs_files s') (crtPath (cf_certs_dir cfg) st) = Some crt"
proof -
  let ?dir = "cf_certs_dir cfg" and ?stems = "sorted_keys (rm_certs m)"
  obtain s1 ch want s2 o2 where lp: "projectLoop a m ?dir ?stems False [] s1 o1 = (Inr (ch, want), s2, o2)"
      and s': "s' = snd (pruneCerts ?dir want s2)"
    using assms(1,3) by (auto simp: projectCerts_def split: prod.splits sum.splits if_splits)
  have mem: "st \<in> set ?stems" using st(1) by (simp add: ghas_iff)
  note fin = projectLoop_done [OF _ _ assms(1) lp] stems_safe_sorted [OF assms(2)]
  have here: "gget (fs_files s2) (keyPath ?dir st) = Some key" "gget (fs_files s2) (crtPath ?dir st) = Some crt"
    using fin mem st(2) by blast+
  have want: "st \<in> set want" using fin mem st(2) by (auto simp: usable_def)
  have "safe_stem st" using fin(2) mem by blast
  then have j: "keyPath ?dir st = dir_prefix ?dir @ st @ ''.key''" "crtPath ?dir st = dir_prefix ?dir @ st @ ''.crt''"
    using assms(1) by (simp_all add: Join_child safe_stem_plain)
  have "\<not> stale want (st @ ''.key'')" "\<not> stale want (st @ ''.crt'')"
    using want by (simp_all add: stale_def has_suffix_def)
  then have "keyPath ?dir st \<notin> staleFiles ?dir want" "crtPath ?dir st \<notin> staleFiles ?dir want"
    unfolding j by (auto simp: staleFiles_def)
  then show "gget (fs_files s') (keyPath ?dir st) = Some key" "gget (fs_files s') (crtPath ?dir st) = Some crt"
    using here pruneCerts_removes [OF assms(1), of want s2] by (simp_all add: s' touches_def)
qed

lemma projectCerts_settles:
  assumes "cf_certs_dir cfg \<noteq> []" "stems_safe m" "fs_fates s = []"
    and "projectCerts cfg a m s o1 = (r1, s1, o2)"
  shows "fs_fates s1 = [] \<and> settled cfg a m s1"
  using projectCerts_ok [OF assms(1-3), of a o1] assms(4) by (auto simp: settled_def)

text \<open>
  Projection is quiet when nothing changed: after a pass without failures, another
  pass over the same Secrets performs no write and no removal and reports no change, so the
  proxy's certificate watcher is not woken.
\<close>

theorem projectCerts_idempotent:
  assumes "cf_certs_dir cfg \<noteq> []" "stems_safe m" "fs_fates s = []"
    and "projectCerts cfg a m s o1 = (r1, s1, o2)"
  shows "\<exists>n o3. projectCerts cfg a m s1 o2 = (Inr (False, n), s1, o3)"
  using projectCerts_settles [OF assms] projectCerts_settled [OF assms(1,2)] by blast

section \<open>A concrete directory\<close>

definition dirCfg :: ing_cfg where
  "dirCfg = cfg0\<lparr>cf_certs_dir := ''/c''\<rparr>"

definition tlsApi :: api where
  "tlsApi = no_api\<lparr>get_secret := (\<lambda>ns n. if n = ''tls'' then
     Some \<lparr>sec_ns = ns, sec_name = n, sec_labels = [], sec_type = ''kubernetes.io/tls'',
       sec_data = [(''tls.crt'', ''CRT''), (''tls.key'', ''KEY'')]\<rparr> else None)\<rparr>"

definition tlsModel :: render_model where
  "tlsModel = addCert (addCert newRenderModel ''a.io'' ''a.io'' ''ns'' ''tls'') ''b.io'' ''b.io'' ''ns'' ''gone''"

definition dirState :: fsys where
  "dirState = \<lparr>fs_files = [(''/c/old.crt'', ''x''), (''/c/readme'', ''y'')], fs_fates = [], fs_seen = []\<rparr>"

lemma dir_facts:
  "cf_certs_dir dirCfg = ''/c''" "stems_safe tlsModel" "fs_fates dirState = []"
  "dir_prefix ''/c'' = ''/c/''" "cf_certs_dir dirCfg \<noteq> []"
proof -
  show "stems_safe tlsModel"
    unfolding stems_safe_def gmap_ok_def by (rule conjI; code_simp)
  show "dir_prefix ''/c'' = ''/c/''" by code_simp
qed (simp_all add: dirCfg_def cfg0_def dirState_def)

lemma projectCerts_contained_witness:
  "touches (certFiles ''/c'') (dirState\<lparr>fs_fates := [Succeeds, Fails (Some 1)]\<rparr>)
     (fst (snd (projectCerts dirCfg tlsApi tlsModel (dirState\<lparr>fs_fates := [Succeeds, Fails (Some 1)]\<rparr>) obs0)))"
  using projectCerts_contained [OF dir_facts(2), of dirCfg _ tlsApi obs0] unfolding dir_facts .

lemma projectCerts_converges_witness:
  "\<exists>ch s' o'. projectCerts dirCfg tlsApi tlsModel dirState obs0 = (Inr (ch, int (card {st. wantedPair tlsApi tlsModel st \<noteq> None})), s', o') \<and>
     gget (fs_files s') ''/c/a.io.crt'' = Some ''CRT'' \<and> gget (fs_files s') ''/c/a.io.key'' = Some ''KEY'' \<and>
     gget (fs_files s') ''/c/old.crt'' = None \<and> gget (fs_files s') ''/c/b.io.crt'' = None \<and>
     gget (fs_files s') ''/c/readme'' = Some ''y''"
proof -
  obtain ch n s' o' where r: "projectCerts dirCfg tlsApi tlsModel dirState obs0 = (Inr (ch, int n), s', o')"
      "n = card {st. wantedPair tlsApi tlsModel st \<noteq> None}"
      "\<forall>f. CHR ''/'' \<notin> set f \<longrightarrow> gget (fs_files s') (''/c/'' @ f) =
         (if cert_name f then wantedFile tlsApi tlsModel f else gget (fs_files dirState) (''/c/'' @ f))"
    using projectCerts_converges [OF dir_facts(5,2,3), of tlsApi obs0] unfolding dir_facts by blast
  have f: "cert_name ''a.io.crt''" "cert_name ''a.io.key''" "cert_name ''old.crt''" "cert_name ''b.io.crt''"
      "\<not> cert_name ''readme''"
      "wantedFile tlsApi tlsModel ''a.io.crt'' = Some ''CRT''" "wantedFile tlsApi tlsModel ''a.io.key'' = Some ''KEY''"
      "wantedFile tlsApi tlsModel ''old.crt'' = None" "wantedFile tlsApi tlsModel ''b.io.crt'' = None"
    by code_simp+
  show ?thesis
    using r(1,2) r(3) [rule_format, of "''a.io.crt''"] r(3) [rule_format, of "''a.io.key''"]
      r(3) [rule_format, of "''old.crt''"] r(3) [rule_format, of "''b.io.crt''"]
      r(3) [rule_format, of "''readme''"] f
    by (simp add: dirState_def)
qed

lemma projectCerts_idempotent_witness:
  "case projectCerts dirCfg tlsApi tlsModel dirState obs0 of (r1, s1, o2) \<Rightarrow>
     \<exists>n o3. projectCerts dirCfg tlsApi tlsModel s1 o2 = (Inr (False, n), s1, o3)"
  using projectCerts_idempotent [OF dir_facts(5,2,3)]
  by (cases "projectCerts dirCfg tlsApi tlsModel dirState obs0") blast

section \<open>Secret mode\<close>

text \<open>
  What the code relies on of \<^verbatim>\<open>CreateOrUpdate\<close>: when it succeeds, the object is what the mutate
  function made of the object found, the captured flag is what the function left there, other
  objects are untouched, and the operation is "created" for a missing object, "none" when the
  function changed nothing and "updated" otherwise.
\<close>

definition cou_ok :: "('w \<Rightarrow> string \<times> string \<Rightarrow> 'o option) \<Rightarrow> ('w, 'o) cou \<Rightarrow> bool" where
  "cou_ok find_obj cou \<longleftrightarrow>
     (\<forall>w key mut op flag w'. cou w key mut = (Inr (op, flag), w') \<longrightarrow>
        find_obj w' key = Some (fst (mut (find_obj w key))) \<and> flag = snd (mut (find_obj w key)) \<and>
        (\<forall>k. k \<noteq> key \<longrightarrow> find_obj w' k = find_obj w k) \<and>
        op = (case find_obj w key of None \<Rightarrow> OpCreated
              | Some x \<Rightarrow> if fst (mut (Some x)) = x then OpNone else OpUpdated))"

lemma cou_okD:
  assumes "cou_ok find_obj cou" "cou w key mut = (Inr (op, flag), w')"
  shows "find_obj w' key = Some (fst (mut (find_obj w key)))" "flag = snd (mut (find_obj w key))"
    "op = OpCreated \<longleftrightarrow> find_obj w key = None"
proof -
  show "find_obj w' key = Some (fst (mut (find_obj w key)))" "flag = snd (mut (find_obj w key))"
    using assms unfolding cou_ok_def by blast+
  have "op = (case find_obj w key of None \<Rightarrow> OpCreated
              | Some x \<Rightarrow> if fst (mut (Some x)) = x then OpNone else OpUpdated)"
    using assms unfolding cou_ok_def by blast
  then show "op = OpCreated \<longleftrightarrow> find_obj w key = None" by (auto split: option.splits if_splits)
qed

text \<open>An instance: a map of objects and a client that never fails.\<close>

definition mem_cou :: "(string \<times> string \<Rightarrow> 'o option, 'o) cou" where
  "mem_cou w key mut =
     (Inr (case w key of None \<Rightarrow> OpCreated
           | Some x \<Rightarrow> if fst (mut (Some x)) = x then OpNone else OpUpdated, snd (mut (w key))),
      w(key \<mapsto> fst (mut (w key))))"

lemma mem_cou_ok: "cou_ok (\<lambda>w. w) mem_cou"
  by (simp add: cou_ok_def mem_cou_def)

lemma bytesMapEqual_same:
  assumes "gmap_ok d" "gmap_ok e"
  shows "bytesMapEqual d e \<longleftrightarrow> same_map d e"
proof
  assume eq: "bytesMapEqual d e"
  then have sub: "\<And>k v. gget d k = Some v \<Longrightarrow> gget e k = Some v"
    by (auto simp: bytesMapEqual_def list_all_iff dest!: map_of_SomeD)
  have card: "card (set (gkeys d)) = card (set (gkeys e))"
    using assms eq by (simp add: gmap_ok_def bytesMapEqual_def distinct_card del: set_map)
  have "set (gkeys d) \<subseteq> set (gkeys e)"
  proof
    fix k assume "k \<in> set (gkeys d)"
    then obtain v where "gget d k = Some v" unfolding ghas_iff [symmetric] ghas_def by blast
    then show "k \<in> set (gkeys e)" using sub by (auto simp: ghas_iff [symmetric] ghas_def simp del: set_map)
  qed
  then have keys: "set (gkeys d) = set (gkeys e)" using card by (simp add: card_subset_eq del: set_map)
  show "same_map d e"
    unfolding same_map_def
  proof (rule ext)
    fix k show "gget d k = gget e k"
    proof (cases "gget d k")
      case None
      then have "\<not> ghas d k" by (simp add: ghas_def)
      then have "\<not> ghas e k" using keys unfolding ghas_iff by blast
      then show ?thesis using None by (simp add: ghas_def)
    qed (use sub in simp)
  qed
next
  assume same: "same_map d e"
  then have "length (gkeys d) = length (gkeys e)"
    using assms same_map_keys [OF same] unfolding gmap_ok_def by (metis distinct_card)
  moreover have "\<forall>(k, v) \<in> set d. gget e k = Some v"
    using same assms(1) by (auto simp: gmap_in_set same_map_def)
  ultimately show "bytesMapEqual d e" by (auto simp: bytesMapEqual_def list_all_iff)
qed

lemma suffix_names:
  "has_suffix (st @ ''.crt'') ''.crt''" "has_suffix (st @ ''.key'') ''.key''"
  "\<not> has_suffix (st @ ''.key'') ''.crt''" "\<not> has_suffix (st @ ''.crt'') ''.key''"
  by (simp_all add: has_suffix_def)

definition pairLook ::
  "api \<Rightarrow> render_model \<Rightarrow> string set \<Rightarrow> (string, string) gmap \<Rightarrow> string \<Rightarrow> string option" where
  "pairLook a m S d n =
     (if has_suffix n ''.crt'' \<and> trim_suffix n ''.crt'' \<in> S
      then map_option fst (tlsPair a m (trim_suffix n ''.crt''))
      else if has_suffix n ''.key'' \<and> trim_suffix n ''.key'' \<in> S
      then map_option snd (tlsPair a m (trim_suffix n ''.key'')) else gget d n)"

lemma pairLook_insert:
  assumes "tlsPair a m st = Some (crt, key)" "st \<notin> S"
  shows "pairLook a m S (gput (st @ ''.key'') key (gput (st @ ''.crt'') crt d)) n =
    pairLook a m (insert st S) d n"
proof (cases "has_suffix n ''.crt''")
  case True
  then obtain t where "n = t @ ''.crt''" using has_suffix_trim by blast
  then show ?thesis using assms suffix_names by (auto simp: pairLook_def gmap_simps)
next
  case no_crt: False
  show ?thesis
  proof (cases "has_suffix n ''.key''")
    case True
    then obtain t where "n = t @ ''.key''" using has_suffix_trim by blast
    then show ?thesis using assms suffix_names by (auto simp: pairLook_def gmap_simps)
  next
    case False
    then have "n \<noteq> st @ ''.key''" "n \<noteq> st @ ''.crt''" using no_crt suffix_names by auto
    then show ?thesis using False no_crt by (simp add: pairLook_def gmap_simps)
  qed
qed

lemma gput_fresh: "gget e k = None \<Longrightarrow> gput k v e = e @ [(k, v)]"
  by (induction e) (auto split: if_splits)

lemma certData_fold:
  assumes "distinct stems" "gmap_ok d"
    and "\<And>st. st \<in> set stems \<Longrightarrow> gget d (st @ ''.crt'') = None \<and> gget d (st @ ''.key'') = None"
  shows "\<exists>d' o'. foldl (certData a m) (d, o1) stems = (d', o') \<and> gmap_ok d' \<and>
    length d' = length d + 2 * card (usable a m stems) \<and>
    (\<forall>n. gget d' n = pairLook a m (usable a m stems) d n)"
  using assms
proof (induction stems arbitrary: d o1)
  case Nil
  then show ?case by (simp add: usable_def pairLook_def)
next
  case (Cons st stems)
  show ?case
  proof (cases "tlsPair a m st")
    case None
    then have u: "usable a m (st # stems) = usable a m stems" by (auto simp: usable_def)
    have "certData a m (d, o1) st = (d, inc MCertErrors o1)" using None by (simp add: certData_def)
    then show ?thesis
      unfolding u foldl.simps using Cons.IH [of d "inc MCertErrors o1"] Cons.prems by simp
  next
    case (Some p)
    obtain crt key where p: "p = (crt, key)" by fastforce
    let ?d = "gput (st @ ''.key'') key (gput (st @ ''.crt'') crt d)"
    have u: "usable a m (st # stems) = insert st (usable a m stems)" "st \<notin> usable a m stems"
      using Some Cons.prems(1) by (auto simp: usable_def)
    have fin: "finite (usable a m stems)" by (simp add: usable_def)
    have free: "gget d (st @ ''.crt'') = None" "gget d (st @ ''.key'') = None" using Cons.prems(3) by auto
    have "gput (st @ ''.crt'') crt d = d @ [(st @ ''.crt'', crt)]" using gput_fresh [OF free(1)] .
    moreover have "gget (d @ [(st @ ''.crt'', crt)]) (st @ ''.key'') = None"
      using free by (simp add: map_add_def)
    ultimately have len: "length ?d = length d + 2"
      using gput_fresh [of "d @ [(st @ ''.crt'', crt)]" "st @ ''.key''" key] by simp
    have "\<And>x. x \<in> set stems \<Longrightarrow> gget ?d (x @ ''.crt'') = None \<and> gget ?d (x @ ''.key'') = None"
      using Cons.prems by (auto simp: gmap_simps)
    then obtain d' o' where ih: "foldl (certData a m) (?d, o1) stems = (d', o')" "gmap_ok d'"
        "length d' = length ?d + 2 * card (usable a m stems)"
        "\<forall>n. gget d' n = pairLook a m (usable a m stems) ?d n"
      using Cons.IH [of ?d o1] Cons.prems by auto
    have "certData a m (d, o1) st = (?d, o1)" using Some p by (simp add: certData_def)
    then show ?thesis
      unfolding u foldl.simps
      using ih len fin u(2) pairLook_insert [of a m st crt key "usable a m stems" d] Some p by simp
  qed
qed

definition certDataOf :: "api \<Rightarrow> render_model \<Rightarrow> (string, string) gmap" where
  "certDataOf a m = fst (foldl (certData a m) ([], obs0) (sorted_keys (rm_certs m)))"

lemma certData_fst:
  "fst (foldl (certData a m) (d, o1) stems) = fst (foldl (certData a m) (d, o2) stems)"
  by (induction stems arbitrary: d o1 o2) (auto simp: certData_def split: option.split)

lemma pairLook_wanted:
  "pairLook a m (usable a m (sorted_keys (rm_certs m))) [] n = wantedFile a m n"
proof (cases "has_suffix n ''.crt''")
  case True
  moreover from this have "\<not> has_suffix n ''.key''" using has_suffix_trim suffix_names(4) by metis
  ultimately show ?thesis
    by (auto simp: pairLook_def wantedFile_def usable_wanted wantedPair_def simp del: not_None_eq)
qed (auto simp: pairLook_def wantedFile_def usable_wanted wantedPair_def simp del: not_None_eq)

lemma certDataOf_spec:
  assumes "gmap_ok (rm_certs m)"
  shows "gmap_ok (certDataOf a m)" "gget (certDataOf a m) = wantedFile a m"
    "length (certDataOf a m) = 2 * card {st. wantedPair a m st \<noteq> None}"
proof -
  have d: "distinct (sorted_keys (rm_certs m))" using assms by (simp add: sorted_keys_def gmap_ok_def)
  have u: "usable a m (sorted_keys (rm_certs m)) = {st. wantedPair a m st \<noteq> None}"
    using usable_wanted by blast
  show "gmap_ok (certDataOf a m)" "gget (certDataOf a m) = wantedFile a m"
    "length (certDataOf a m) = 2 * card {st. wantedPair a m st \<noteq> None}"
    using certData_fold [OF d, of "[]" a m obs0] pairLook_wanted [of a m] u
    by (auto simp: certDataOf_def fun_eq_iff)
qed

text \<open>
  In Secret mode a successful pass leaves the output Secret with exactly the files
  the directory would hold (\<^verbatim>\<open>.crt\<close> and \<^verbatim>\<open>.key\<close> of every usable stem, nothing else), labelled and
  opaque; it reports the number of certificates, and a change exactly when the Secret was
  missing or held other data. A later successful pass over the same Secrets reports no change.
\<close>

theorem projectCertsToSecret_exact:
  assumes lib: "cou_ok find_obj cou" and ok: "gmap_ok (rm_certs m)" and key: "snd (cf_certs_secret cfg) \<noteq> []"
    and cur: "\<And>x. find_obj w (cf_certs_secret cfg) = Some x \<Longrightarrow> gmap_ok (sec_data x)"
    and run: "projectCertsToSecret cou cfg a m w o1 = (Inr (changed, n), w', o')"
  shows "(\<exists>sec. find_obj w' (cf_certs_secret cfg) = Some sec \<and> gget (sec_data sec) = wantedFile a m \<and>
      sec_type sec = ''Opaque'' \<and> gget (sec_labels sec) ingressCertsManagedLabel = Some ''true'') \<and>
    n = int (card {st. wantedPair a m st \<noteq> None}) \<and>
    (changed \<longleftrightarrow> (case find_obj w (cf_certs_secret cfg) of None \<Rightarrow> True
                 | Some x \<Rightarrow> gget (sec_data x) \<noteq> wantedFile a m)) \<and>
    (\<forall>c k w'' o''. projectCertsToSecret cou cfg a m w' o' = (Inr (c, k), w'', o'') \<longrightarrow> \<not> c)"
proof -
  let ?key = "cf_certs_secret cfg" and ?data = "certDataOf a m"
  note spec = certDataOf_spec [OF ok, of a]
  let ?mut = "mutateCerts ?key ?data"
  have fold: "\<exists>o2. foldl (certData a m) ([], ob) (sorted_keys (rm_certs m)) = (?data, o2)" for ob
    unfolding certDataOf_def by (metis certData_fst prod.collapse)
  have step: "find_obj w2 ?key = Some (fst (?mut (find_obj w1 ?key))) \<and>
      k = int (length ?data) div 2 \<and>
      (c \<longleftrightarrow> snd (?mut (find_obj w1 ?key)) \<or> find_obj w1 ?key = None)"
    if run1: "projectCertsToSecret cou cfg a m w1 p1 = (Inr (c, k), w2, p2)" for w1 p1 c k w2 p2
  proof -
    obtain o2 where "foldl (certData a m) ([], p1) (sorted_keys (rm_certs m)) = (?data, o2)"
      using fold by blast
    moreover obtain r w3 where r: "cou w1 ?key ?mut = (r, w3)" by fastforce
    ultimately obtain op flag where o: "r = Inr (op, flag)" "c = (flag \<or> op = OpCreated)" "w2 = w3"
        "k = int (length ?data) div 2"
      using run1 key by (cases r) (auto simp: projectCertsToSecret_def Let_def)
    then show ?thesis using cou_okD [OF lib r [unfolded o(1)]] by simp
  qed
  have mut: "gget (sec_data (fst (?mut x))) = wantedFile a m \<and> gmap_ok (sec_data (fst (?mut x))) \<and>
      sec_type (fst (?mut x)) = ''Opaque'' \<and>
      gget (sec_labels (fst (?mut x))) ingressCertsManagedLabel = Some ''true'' \<and>
      (\<forall>y. x = Some y \<longrightarrow> (snd (?mut x) \<longleftrightarrow> gget (sec_data y) \<noteq> wantedFile a m))"
    if "\<And>y. x = Some y \<Longrightarrow> gmap_ok (sec_data y)" for x
    using that spec(1) bytesMapEqual_same [of "[]" ?data]
    by (cases x) (auto simp: mutateCerts_def Let_def bytesMapEqual_same same_map_def spec(2) gmap_simps)
  note first = step [OF run]
  let ?new = "fst (?mut (find_obj w ?key))"
  have found: "find_obj w' ?key = Some ?new" and n: "n = int (card {st. wantedPair a m st \<noteq> None})"
    and ch: "changed \<longleftrightarrow> snd (?mut (find_obj w ?key)) \<or> find_obj w ?key = None"
    using first spec(3) by simp_all
  have new: "gget (sec_data ?new) = wantedFile a m" "gmap_ok (sec_data ?new)" "sec_type ?new = ''Opaque''"
      "gget (sec_labels ?new) ingressCertsManagedLabel = Some ''true''"
    using mut [of "find_obj w ?key"] cur by blast+
  have flag: "snd (?mut (Some y)) \<longleftrightarrow> gget (sec_data y) \<noteq> wantedFile a m" if "gmap_ok (sec_data y)" for y
    using mut [of "Some y"] that by simp
  have "changed \<longleftrightarrow> (case find_obj w ?key of None \<Rightarrow> True | Some x \<Rightarrow> gget (sec_data x) \<noteq> wantedFile a m)"
    using ch flag cur by (cases "find_obj w ?key") auto
  moreover have "\<not> c" if "projectCertsToSecret cou cfg a m w' o' = (Inr (c, k), w'', o'')" for c k w'' o''
    using step [OF that] found flag [OF new(2)] new(1) by simp
  ultimately show ?thesis using found n new by blast
qed

definition secCfg :: ing_cfg where
  "secCfg = cfg0\<lparr>cf_certs_secret := (''sys'', ''certs'')\<rparr>"

lemma projectCertsToSecret_exact_witness:
  "case projectCertsToSecret mem_cou secCfg tlsApi tlsModel (\<lambda>_. None) obs0 of (r, w', o') \<Rightarrow>
     (\<exists>sec. w' (''sys'', ''certs'') = Some sec \<and> gget (sec_data sec) ''a.io.key'' = Some ''KEY'') \<and>
     (\<forall>c k w'' o''. projectCertsToSecret mem_cou secCfg tlsApi tlsModel w' o' = (Inr (c, k), w'', o'') \<longrightarrow> \<not> c)"
proof -
  obtain c n w' o' where r: "projectCertsToSecret mem_cou secCfg tlsApi tlsModel (\<lambda>_. None) obs0 = (Inr (c, n), w', o')"
    by (cases "foldl (certData tlsApi tlsModel) ([], obs0) (sorted_keys (rm_certs tlsModel))")
      (auto simp: projectCertsToSecret_def mem_cou_def secCfg_def Let_def)
  have key: "cf_certs_secret secCfg = (''sys'', ''certs'')" by (simp add: secCfg_def)
  have ok: "gmap_ok (rm_certs tlsModel)" using dir_facts(2) by (simp add: stems_safe_def)
  have "wantedFile tlsApi tlsModel ''a.io.key'' = Some ''KEY''" by code_simp
  then show ?thesis
    using projectCertsToSecret_exact [OF mem_cou_ok ok _ _ r] r key by auto
qed

section \<open>Stem collisions\<close>

text \<open>
  Stems of certificates that are not bound to a host are not unique: namespace
  \<open>a-b\<close> with Secret \<open>c\<close> and namespace \<open>a\<close> with Secret \<open>b-c\<close> share one stem, and since the first
  writer of a stem wins, the second Secret is never projected.
\<close>

theorem certStem_collision:
  assumes "c \<noteq> []"
  shows "certStem [] (a @ ''-'' @ b) c = certStem [] a (b @ ''-'' @ c) \<and>
    (let stem = fst (certStem [] (a @ ''-'' @ b) c);
         m1 = addCert m [] stem (a @ ''-'' @ b) c
     in gget (rm_certs (addCert m1 [] stem a (b @ ''-'' @ c))) = gget (rm_certs m1))"
proof -
  have "runes s = [] \<Longrightarrow> s = []" for s using concat_runes [of s] by simp
  then have "fst (certStem [] (a @ ''-'' @ b) c) \<noteq> []" by (auto simp: certStem_def sanitizeStem_def)
  then show ?thesis using assms by (simp add: addCert_certs Let_def certStem_def)
qed

lemma certStem_collision_witness:
  "certStem [] ''a-b'' ''c'' = certStem [] ''a'' ''b-c'' \<and> certStem [] ''a-b'' ''c'' = (''a-b-c'', False)"
proof -
  have "certStem [] ''a-b'' ''c'' = (''a-b-c'', False)" by code_simp
  then show ?thesis using certStem_collision [of "''c''" "''a''" "''b''"] by simp
qed

end
