(* ===== verification/NetAddr.thy ===== *)
theory NetAddr
  imports GoStrings
begin

text \<open>
  IP addresses of package \<^verbatim>\<open>net\<close>: \<^verbatim>\<open>ParseIP\<close>, \<^verbatim>\<open>To4\<close> and \<^verbatim>\<open>ParseCIDR\<close>, with the address of a
  dotted quad as four bytes, any other as sixteen. A text with a zone is not an address for
  these functions.
\<close>

section \<open>Dotted quads\<close>

definition octet :: "string \<Rightarrow> int option" where
  "octet f =
     (if f \<noteq> [] \<and> list_all is_digit f \<and> (length f = 1 \<or> hd f \<noteq> CHR ''0'') \<and> digits_val f \<le> 255
      then Some (digits_val f) else None)"

fun all_some :: "'a option list \<Rightarrow> 'a list option" where
  "all_some [] = Some []"
| "all_some (None # xs) = None"
| "all_some (Some x # xs) = map_option ((#) x) (all_some xs)"

definition parse_v4 :: "string \<Rightarrow> int list option" where
  "parse_v4 s =
     (let fs = split_on (CHR ''.'') s in if length fs = 4 then all_some (map octet fs) else None)"

section \<open>Sixteen-byte addresses\<close>

definition hex_nibble :: "char \<Rightarrow> int option" where
  "hex_nibble c =
     (let b = byte c in
      if 48 \<le> b \<and> b \<le> 57 then Some (b - 48)
      else if 97 \<le> b \<and> b \<le> 102 then Some (b - 87)
      else if 65 \<le> b \<and> b \<le> 70 then Some (b - 55) else None)"

definition hex_run :: "string \<Rightarrow> string" where
  "hex_run s = takeWhile (\<lambda>c. hex_nibble c \<noteq> None) s"

definition hex_group :: "string \<Rightarrow> int" where
  "hex_group ds = foldl (\<lambda>n c. 16 * n + (case hex_nibble c of None \<Rightarrow> 0 | Some d \<Rightarrow> d)) 0 ds"

text \<open>
  The groups of an address: \<open>ip\<close> are the bytes read so far, \<open>ell\<close> where \<^verbatim>\<open>::\<close> stood. \<open>k\<close> bounds
  the number of groups; eight are enough, since each adds two bytes.
\<close>

definition expand :: "int list \<Rightarrow> nat option \<Rightarrow> int list option" where
  "expand ip ell =
     (if length ip < 16 then
        (case ell of None \<Rightarrow> None
         | Some e \<Rightarrow> Some (take e ip @ replicate (16 - length ip) 0 @ drop e ip))
      else if ell = None then Some ip else None)"

fun v6_groups :: "nat \<Rightarrow> int list \<Rightarrow> nat option \<Rightarrow> string \<Rightarrow> int list option" where
  "v6_groups 0 ip ell s = (if s = [] then expand ip ell else None)"
| "v6_groups (Suc k) ip ell s =
     (let ds = hex_run s; rest = drop (length ds) s in
      if ds = [] \<or> length ds > 4 then None
      else if rest \<noteq> [] \<and> hd rest = CHR ''.'' then
        (if ell = None \<and> length ip \<noteq> 12 \<or> length ip + 4 > 16 then None
         else case parse_v4 s of None \<Rightarrow> None | Some v \<Rightarrow> expand (ip @ v) ell)
      else
        let ip' = ip @ [hex_group ds div 256, hex_group ds mod 256] in
        if rest = [] then expand ip' ell
        else if hd rest \<noteq> CHR '':'' \<or> tl rest = [] then None
        else if hd (tl rest) = CHR '':'' then
          (if ell \<noteq> None then None
           else if tl (tl rest) = [] then expand ip' (Some (length ip'))
           else v6_groups k ip' (Some (length ip')) (tl (tl rest)))
        else v6_groups k ip' ell (tl rest))"

definition parse_v6 :: "string \<Rightarrow> int list option" where
  "parse_v6 s =
     (if CHR ''%'' \<in> set s then None
      else if has_prefix s ''::'' then
        (if drop 2 s = [] then Some (replicate 16 0) else v6_groups 8 [] (Some 0) (drop 2 s))
      else v6_groups 8 [] None s)"

text \<open>The address and whether it was written as a dotted quad.\<close>

definition ParseAddr :: "string \<Rightarrow> (bool \<times> int list) option" where
  "ParseAddr s =
     (case dropWhile (\<lambda>c. c \<noteq> CHR ''.'' \<and> c \<noteq> CHR '':'' \<and> c \<noteq> CHR ''%'') s of
        [] \<Rightarrow> None
      | c # _ \<Rightarrow>
          if c = CHR ''.'' then map_option (Pair True) (parse_v4 s)
          else if c = CHR '':'' then map_option (Pair False) (parse_v6 s) else None)"

definition v4_in_v6 :: "int list" where
  "v4_in_v6 = replicate 10 0 @ [255, 255]"

definition ParseIP :: "string \<Rightarrow> int list option" where
  "ParseIP s = map_option (\<lambda>(v4, b). if v4 then v4_in_v6 @ b else b) (ParseAddr s)"

definition To4 :: "int list \<Rightarrow> int list option" where
  "To4 b = (if length b = 4 then Some b
            else if length b = 16 \<and> take 12 b = v4_in_v6 then Some (drop 12 b) else None)"

definition ParseCIDR :: "string \<Rightarrow> bool" where
  "ParseCIDR s =
     (case split_first (CHR ''/'') s of
        None \<Rightarrow> False
      | Some (addr, bits) \<Rightarrow>
          (case ParseAddr addr of
             None \<Rightarrow> False
           | Some (v4, _) \<Rightarrow>
               bits \<noteq> [] \<and> list_all is_digit bits \<and> digits_val bits \<le> (if v4 then 32 else 128)))"

section \<open>Shapes\<close>

lemma all_some_length: "all_some xs = Some ys \<Longrightarrow> length ys = length xs"
  by (induction xs arbitrary: ys rule: all_some.induct) auto

lemma parse_v4_length: "parse_v4 s = Some b \<Longrightarrow> length b = 4"
  by (auto simp: parse_v4_def Let_def dest!: all_some_length split: if_splits)

text \<open>A text with a dot before any colon is read as a dotted quad, so \<^verbatim>\<open>To4\<close> finds it.\<close>

lemma ParseIP_v4: "ParseAddr s = Some (True, b) \<Longrightarrow> ParseIP s = Some (v4_in_v6 @ b) \<and> To4 (v4_in_v6 @ b) = Some b"
  by (auto simp: ParseIP_def ParseAddr_def To4_def v4_in_v6_def
      split: list.splits if_splits dest!: parse_v4_length)

text \<open>Any other address has sixteen bytes: every group adds two of them, and \<^verbatim>\<open>::\<close> fills up.\<close>

lemma expand_length: "expand ip ell = Some b \<Longrightarrow> length ip \<le> 16 \<Longrightarrow> length b = 16"
  by (auto simp: expand_def split: if_splits option.splits)

lemma v6_groups_length:
  "v6_groups k ip ell s = Some b \<Longrightarrow> length ip + 2 * k = 16 \<Longrightarrow> length b = 16"
proof (induction k ip ell s rule: v6_groups.induct)
  case (1 ip ell s)
  then show ?case by (auto simp: expand_length split: if_splits)
next
  case (2 k ip ell s)
  show ?case
    using "2.prems" "2.IH"
    by (auto simp: Let_def split: if_splits option.splits
        dest!: parse_v4_length dest: expand_length elim!: expand_length)
qed

lemma ParseAddr_v6_length: "ParseAddr s = Some (False, b) \<Longrightarrow> length b = 16"
  by (auto simp: ParseAddr_def parse_v6_def intro: v6_groups_length split: list.splits if_splits)

end
