(* ===== verification/GatewayRender.thy ===== *)
theory GatewayRender
  imports IngressRender
begin

text \<open>
  The Gateway API half of a render pass, controllers/gateway.go: the classes and Gateways that
  are ours with their status conditions and certificate references, and the HTTPRoutes attached
  to them. \<open>now\<close> is the time of the pass. A failing status update is ignored by the code; the
  write is recorded as attempted.
\<close>

section \<open>Status conditions\<close>

fun replaceFirst :: "('a \<Rightarrow> bool) \<Rightarrow> 'a \<Rightarrow> 'a list \<Rightarrow> 'a list option" where
  "replaceFirst P y [] = None"
| "replaceFirst P y (x # xs) = (if P x then Some (y # xs) else map_option ((#) x) (replaceFirst P y xs))"

definition ensureCond ::
  "int \<Rightarrow> condition list \<Rightarrow> int \<Rightarrow> string \<Rightarrow> string \<Rightarrow> string \<Rightarrow> condition list \<times> bool" where
  "ensureCond now conds gen ctype reason msg =
     (if list_ex (\<lambda>c. cond_type c = ctype \<and> cond_status c = ''True'' \<and> cond_generation c = gen) conds
      then (conds, False)
      else
        let c = \<lparr>cond_type = ctype, cond_status = ''True'', cond_reason = reason, cond_message = msg,
                 cond_generation = gen, cond_time = now\<rparr>
        in (case replaceFirst (\<lambda>x. cond_type x = ctype) c conds of
              Some cs \<Rightarrow> (cs, True)
            | None \<Rightarrow> (conds @ [c], True)))"

definition mk_cond :: "int \<Rightarrow> http_route \<Rightarrow> string \<Rightarrow> condition" where
  "mk_cond now rt t = \<lparr>cond_type = t, cond_status = ''True'', cond_reason = t,
     cond_message = ''synapse-operator'', cond_generation = hr_generation rt, cond_time = now\<rparr>"

definition acceptRoute :: "ing_cfg \<Rightarrow> int \<Rightarrow> http_route \<Rightarrow> parent_ref \<Rightarrow> obs \<Rightarrow> obs" where
  "acceptRoute cfg now rt parent o1 =
     (if \<not> leader cfg then o1
      else
        let ps = \<lparr>ps_parent = parent, ps_controller = ControllerName,
                  ps_conditions = [mk_cond now rt ''Accepted'', mk_cond now rt ''ResolvedRefs'']\<rparr>
        in status_update (WHTTPRoute (hr_ns rt) (hr_name rt)
             (filter (\<lambda>p. ps_controller p \<noteq> ControllerName) (hr_status rt) @ [ps])) o1)"

section \<open>Classes and Gateways\<close>

definition classOne :: "ing_cfg \<Rightarrow> int \<Rightarrow> obs \<Rightarrow> gateway_class \<Rightarrow> obs" where
  "classOne cfg now o1 gc =
     (if gc_controller gc \<noteq> ControllerName then o1
      else case ensureCond now (gc_conditions gc) (gc_generation gc) ''Accepted'' ''Accepted'' ''synapse-operator'' of
        (cs, changed) \<Rightarrow> if changed \<and> leader cfg then status_update (WGatewayClass (gc_name gc) cs) o1 else o1)"

definition ourClasses :: "gateway_class list \<Rightarrow> string list" where
  "ourClasses gcs = map gc_name (filter (\<lambda>gc. gc_controller gc = ControllerName) gcs)"

definition refOne :: "gateway \<Rightarrow> string \<Rightarrow> render_model \<Rightarrow> cert_ref \<Rightarrow> render_model" where
  "refOne gw host m cr =
     (if cr_kind cr \<noteq> None \<and> cr_kind cr \<noteq> Some ''Secret'' then m
      else bindCert (case cr_namespace cr of None \<Rightarrow> gw_ns gw | Some n \<Rightarrow> n) (cr_name cr) m host)"

definition listenerOne :: "gateway \<Rightarrow> render_model \<Rightarrow> listener \<Rightarrow> render_model" where
  "listenerOne gw m l =
     (case li_tls l of
        None \<Rightarrow> m
      | Some t \<Rightarrow>
          if lt_mode t \<noteq> None \<and> lt_mode t \<noteq> Some ''Terminate'' then m
          else foldl (refOne gw (opt_str (li_hostname l))) m (lt_refs t))"

definition gatewayOne :: "ing_cfg \<Rightarrow> int \<Rightarrow> render_model \<times> obs \<Rightarrow> gateway \<Rightarrow> render_model \<times> obs" where
  "gatewayOne cfg now st gw =
     (let m1 = foldl (listenerOne gw) (fst st) (gw_listeners gw) in
      case ensureCond now (gw_conditions gw) (gw_generation gw) ''Accepted'' ''Accepted'' ''synapse-operator'' of
        (cs1, ch1) \<Rightarrow>
          (case ensureCond now cs1 (gw_generation gw) ''Programmed'' ''Programmed'' ''synapse-operator'' of
             (cs2, ch2) \<Rightarrow>
               (m1, if (ch2 \<or> ch1) \<and> leader cfg
                    then status_update (WGateway (gw_ns gw) (gw_name gw) cs2) (snd st) else snd st)))"

definition ourGateways :: "string list \<Rightarrow> gateway list \<Rightarrow> gateway list" where
  "ourGateways ours gws = filter (\<lambda>gw. gw_class gw \<in> set ours) gws"

definition gw_key :: "gateway \<Rightarrow> string \<times> string" where
  "gw_key gw = (gw_ns gw, gw_name gw)"

section \<open>Routes\<close>

definition headerLines :: "header_filter option \<Rightarrow> string list" where
  "headerLines f =
     (case f of None \<Rightarrow> []
      | Some hf \<Rightarrow> map (\<lambda>h. hh_name h @ '': '' @ hh_value h) (hf_set hf @ hf_add hf))"

definition headerFilters :: "route_filter list \<Rightarrow> string list \<times> string list" where
  "headerFilters fs =
     (concat (map (\<lambda>f. if rf_type f = ''RequestHeaderModifier'' then headerLines (rf_request f) else []) fs),
      concat (map (\<lambda>f. if rf_type f = ''ResponseHeaderModifier'' then headerLines (rf_response f) else []) fs))"

definition gwBackend :: "ing_cfg \<Rightarrow> string \<Rightarrow> backend_ref \<Rightarrow> string option" where
  "gwBackend cfg routeNS br =
     (if br_kind br \<noteq> None \<and> br_kind br \<noteq> Some ''Service'' then None
      else
        let ns = (case br_namespace br of None \<Rightarrow> routeNS | Some n \<Rightarrow> n)
        in map_option (\<lambda>p. br_name br @ ''.'' @ ns @ ''.svc.'' @ clusterDomain cfg @ '':'' @ show_int p)
             (br_port br))"

definition msg_ref_unresolved :: "(int \<Rightarrow> bool) \<Rightarrow> string \<Rightarrow> string" where
  "msg_ref_unresolved prt name =
     ''backendRef '' @ quote prt name @ '' could not be resolved (non-Service kind or missing port)''"

definition backendOne ::
  "(int \<Rightarrow> bool) \<Rightarrow> ing_cfg \<Rightarrow> http_route \<Rightarrow> bool \<Rightarrow> backend list \<times> obs \<Rightarrow> backend_ref
    \<Rightarrow> backend list \<times> obs" where
  "backendOne prt cfg rt weighted acc br =
     (case acc of (servers, o1) \<Rightarrow>
        (case gwBackend cfg (hr_ns rt) br of
           None \<Rightarrow> (servers, warn cfg MBackendUnresolved (hr_ns rt) (hr_name rt) ''BackendUnresolved''
                              (msg_ref_unresolved prt (br_name br)) o1)
         | Some addr \<Rightarrow>
             if \<not> weighted then (servers @ [\<lparr>b_addr = addr, b_weight = 0\<rparr>], o1)
             else
               let w = (case br_weight br of None \<Rightarrow> 1 | Some w \<Rightarrow> w)
               in if w \<le> 0 then (servers, o1)
                  else (servers @ [\<lparr>b_addr = addr, b_weight = word_of_int w\<rparr>], o1)))"

definition ruleBackends ::
  "(int \<Rightarrow> bool) \<Rightarrow> ing_cfg \<Rightarrow> http_route \<Rightarrow> route_rule \<Rightarrow> obs \<Rightarrow> backend list \<times> obs" where
  "ruleBackends prt cfg rt rule o1 =
     foldl (backendOne prt cfg rt (list_ex (\<lambda>br. br_weight br \<noteq> None) (rr_backends rule)))
       ([], o1) (rr_backends rule)"

definition msg_ignored_match :: string where
  "msg_ignored_match =
     ''header/method/queryParam match conditions are ignored (synapse v1 routes on host+path only)''"

definition msg_exact_match :: "(int \<Rightarrow> bool) \<Rightarrow> string \<Rightarrow> string" where
  "msg_exact_match prt pv =
     ''Exact path match '' @ quote prt pv @ '' is approximated as a prefix (synapse v1 matches longest-prefix)''"

text \<open>One match: what it adds to the paths, the regexes and the warnings.\<close>

definition matchOne ::
  "(int \<Rightarrow> bool) \<Rightarrow> string list \<times> string list \<times> string list \<Rightarrow> route_match
    \<Rightarrow> string list \<times> string list \<times> string list" where
  "matchOne prt acc mt =
     (case acc of (paths, regexes, warns) \<Rightarrow>
        let warns1 = (if rm_headers mt \<noteq> [] \<or> rm_method mt \<noteq> None \<or> rm_query mt \<noteq> []
                      then warns @ [msg_ignored_match] else warns);
            pt = (case rm_path mt of None \<Rightarrow> ''PathPrefix''
                  | Some p \<Rightarrow> (case pm_type p of None \<Rightarrow> ''PathPrefix'' | Some t \<Rightarrow> t));
            pv = (case rm_path mt of None \<Rightarrow> ''/''
                  | Some p \<Rightarrow> (case pm_value p of None \<Rightarrow> ''/'' | Some v \<Rightarrow> if v = [] then ''/'' else v))
        in if pt = ''RegularExpression'' then (paths, regexes @ [pv], warns1)
           else (paths @ [pv], regexes, if pt = ''Exact'' then warns1 @ [msg_exact_match prt pv] else warns1))"

definition rulePaths ::
  "(int \<Rightarrow> bool) \<Rightarrow> route_rule \<Rightarrow> string list \<times> string list \<times> string list" where
  "rulePaths prt rule =
     (if rr_matches rule = [] then ([''/''], [], [])
      else foldl (matchOne prt) ([], [], []) (rr_matches rule))"

text \<open>One path on one hostname; an ACME challenge path only offers its first server.\<close>

definition routePathHost ::
  "(int \<Rightarrow> bool) \<Rightarrow> ing_cfg \<Rightarrow> http_route \<Rightarrow> ann_settings \<Rightarrow> backend list \<Rightarrow> string list \<Rightarrow> string list
    \<Rightarrow> string \<Rightarrow> render_model \<times> obs \<Rightarrow> string \<Rightarrow> render_model \<times> obs" where
  "routePathHost prt cfg rt an servers req resp path st host =
     (if has_prefix path acmeChallengePrefix then
        (if rm_acme (fst st) = [] then ((fst st)\<lparr>rm_acme := b_addr (hd servers)\<rparr>, snd st) else st)
      else claimRoute prt cfg (hr_ns rt, hr_name rt) False (''host'', ''rule'') path servers an req resp st host)"

definition routeRule ::
  "(int \<Rightarrow> bool) \<Rightarrow> ing_cfg \<Rightarrow> http_route \<Rightarrow> ann_settings \<Rightarrow> render_model \<times> obs \<Rightarrow> route_rule
    \<Rightarrow> render_model \<times> obs" where
  "routeRule prt cfg rt an st rule =
     (case ruleBackends prt cfg rt rule (snd st) of
        (servers, o1) \<Rightarrow>
          if servers = [] then (fst st, o1)
          else case headerFilters (rr_filters rule) of
            (req, resp) \<Rightarrow>
              (case rulePaths prt rule of
                 (paths, regexes, warns) \<Rightarrow>
                   let o2 = foldl (\<lambda>ob w. warn cfg MUnsupportedMatch (hr_ns rt) (hr_name rt) ''UnsupportedMatch'' w ob)
                              o1 warns;
                       st1 = foldl (\<lambda>s path. foldl (routePathHost prt cfg rt an servers req resp path) s (hr_hostnames rt))
                               (fst st, o2) paths
                   in foldl (\<lambda>s rx. foldl (claimRoute prt cfg (hr_ns rt, hr_name rt) True (''host'', ''rule'')
                                             rx servers an req resp) s (hr_hostnames rt))
                        st1 regexes))"

definition boundParent :: "(string \<times> string) list \<Rightarrow> http_route \<Rightarrow> parent_ref option" where
  "boundParent ourGW rt =
     List.find (\<lambda>p. (pr_kind p = None \<or> pr_kind p = Some ''Gateway'') \<and>
         (case pr_namespace p of None \<Rightarrow> hr_ns rt | Some n \<Rightarrow> n, pr_name p) \<in> set ourGW)
       (hr_parents rt)"

definition routeOne ::
  "(int \<Rightarrow> bool) \<Rightarrow> ing_cfg \<Rightarrow> int \<Rightarrow> render_model \<times> obs \<Rightarrow> http_route \<times> parent_ref
    \<Rightarrow> render_model \<times> obs" where
  "routeOne prt cfg now st rp =
     (case rp of (rt, parent) \<Rightarrow>
        let an = parseAnnotations (hr_annotations rt);
            st1 = foldl (routeRule prt cfg rt an) (setSticky an (fst st), snd st) (hr_rules rt)
        in (fst st1, acceptRoute cfg now rt parent (snd st1)))"

definition rt_key :: "http_route \<Rightarrow> string \<times> string" where
  "rt_key rt = (hr_ns rt, hr_name rt)"

definition boundRoutes :: "(string \<times> string) list \<Rightarrow> http_route list \<Rightarrow> (http_route \<times> parent_ref) list" where
  "boundRoutes ourGW rts =
     List.map_filter (\<lambda>rt. map_option (Pair rt) (boundParent ourGW rt)) (sort_key rt_key rts)"

definition renderGateways ::
  "(int \<Rightarrow> bool) \<Rightarrow> ing_cfg \<Rightarrow> api \<Rightarrow> int \<Rightarrow> render_model \<times> obs \<Rightarrow> int \<times> render_model \<times> obs" where
  "renderGateways prt cfg a now st =
     (case list_gateway_classes a of
        None \<Rightarrow> (0, st)
      | Some gcs \<Rightarrow>
          let st1 = (fst st, foldl (classOne cfg now) (snd st) gcs) in
          if ourClasses gcs = [] then (0, st1)
          else case list_gateways a of
            None \<Rightarrow> (0, st1)
          | Some gws \<Rightarrow>
              let ours = ourGateways (ourClasses gcs) gws;
                  st2 = foldl (gatewayOne cfg now) st1 ours
              in if ours = [] then (0, st2)
                 else case list_http_routes a of
                   None \<Rightarrow> (0, st2)
                 | Some rts \<Rightarrow>
                     let bound = boundRoutes (map gw_key ours) rts
                     in (int (length bound), foldl (routeOne prt cfg now) st2 bound))"

end
