(* ===== verification/Claims.thy ===== *)
theory Claims
  imports GatewayRender
begin

text \<open>
  The specification of a render pass: the claims it makes, in order, as a list that does not
  depend on the state, and the registry that grants a claim when the host and the key are free.
  The refinement lemmas show that the loops over Ingresses and HTTPRoutes run exactly their
  claims; \<open>conflict_meter\<close> is the contract of what counts the refused ones (the metric and the
  events both do).
\<close>

section \<open>The registry\<close>

datatype claim = ClRoute string string route_cfg | ClPass string string

record registry =
  rg_routes :: "string \<times> string \<Rightarrow> route_cfg option"
  rg_pass :: "string \<Rightarrow> string option"
  rg_hosts :: "string \<Rightarrow> bool"
  rg_refused :: int

fun granted :: "registry \<Rightarrow> claim \<Rightarrow> bool" where
  "granted s (ClRoute h k rc) \<longleftrightarrow> rg_pass s h = None \<and> rg_routes s (h, k) = None"
| "granted s (ClPass h up) \<longleftrightarrow> rg_pass s h = None \<and> \<not> rg_hosts s h"

fun grant :: "registry \<Rightarrow> claim \<Rightarrow> registry" where
  "grant s (ClRoute h k rc) = s\<lparr>rg_routes := (rg_routes s)((h, k) \<mapsto> rc), rg_hosts := (rg_hosts s)(h := True)\<rparr>"
| "grant s (ClPass h up) = s\<lparr>rg_pass := (rg_pass s)(h \<mapsto> up)\<rparr>"

definition claim_step :: "registry \<Rightarrow> claim \<Rightarrow> registry" where
  "claim_step s c = (if granted s c then grant s c else s\<lparr>rg_refused := rg_refused s + 1\<rparr>)"

definition run_claims :: "registry \<Rightarrow> claim list \<Rightarrow> registry" where
  "run_claims = foldl claim_step"

lemma run_claims_simps [simp]:
  "run_claims s [] = s" "run_claims s (c # cs) = run_claims (claim_step s c) cs"
  "run_claims s (cs @ ds) = run_claims (run_claims s cs) ds"
  by (simp_all add: run_claims_def)

lemma claim_step_keeps:
  "rg_routes s hk = Some rc \<Longrightarrow> rg_routes (claim_step s c) hk = Some rc"
  "rg_pass s h = Some up \<Longrightarrow> rg_pass (claim_step s c) h = Some up"
  "rg_hosts s h \<Longrightarrow> rg_hosts (claim_step s c) h"
  by (cases c; auto simp: claim_step_def)+

lemma run_claims_keeps:
  "rg_routes s hk = Some rc \<Longrightarrow> rg_routes (run_claims s cs) hk = Some rc"
  "rg_pass s h = Some up \<Longrightarrow> rg_pass (run_claims s cs) h = Some up"
  by (induction cs arbitrary: s) (simp_all add: claim_step_keeps)

text \<open>Every route comes from a claim, and a claim met by a free key decides it.\<close>

lemma run_claims_origin:
  "rg_routes (run_claims s cs) (h, k) = Some rc \<Longrightarrow>
   rg_routes s (h, k) = Some rc \<or> ClRoute h k rc \<in> set cs"
proof (induction cs arbitrary: s)
  case (Cons c cs)
  then have "rg_routes (claim_step s c) (h, k) = Some rc \<or> ClRoute h k rc \<in> set cs" by simp
  then show ?case by (cases c) (auto simp: claim_step_def split: if_splits)
qed simp

lemma run_claims_decides:
  assumes "rg_pass (run_claims s xs) h = None" "rg_routes (run_claims s xs) (h, k) = None"
  shows "rg_routes (run_claims s (xs @ ClRoute h k rc # ys)) (h, k) = Some rc"
  using assms run_claims_keeps(1) [of "claim_step (run_claims s xs) (ClRoute h k rc)" "(h, k)" rc ys]
  by (simp add: claim_step_def)

section \<open>The registry of a render state\<close>

definition registry_of :: "(obs \<Rightarrow> int) \<Rightarrow> render_model \<times> obs \<Rightarrow> registry" where
  "registry_of f st =
     \<lparr>rg_routes = route_at (fst st), rg_pass = gget (rm_passthrough (fst st)),
      rg_hosts = (\<lambda>h. host_paths (fst st) h \<noteq> []), rg_refused = f (snd st)\<rparr>"

lemma registry_of_frame:
  assumes "rm_hosts m' = rm_hosts m" "rm_passthrough m' = rm_passthrough m"
  shows "registry_of f (m', o1) = registry_of f (m, o1)"
proof -
  have "host_paths m' = host_paths m" using assms by (simp add: host_paths_def fun_eq_iff)
  then show ?thesis using assms by (simp add: registry_of_def route_at_def fun_eq_iff)
qed

lemma registry_of_obs: "f o1 = f o2 \<Longrightarrow> registry_of f (m, o1) = registry_of f (m, o2)"
  by (simp add: registry_of_def)

lemma host_paths_storeRoute:
  "snd (storeRoute m h k rc) \<Longrightarrow>
     host_paths (fst (storeRoute m h k rc)) h' = (if h' = h then gput k rc (host_paths m h) else host_paths m h')"
  "\<not> snd (storeRoute m h k rc) \<Longrightarrow> fst (storeRoute m h k rc) = m"
  by (auto simp: storeRoute_eq host_paths_gput split: if_splits)

lemma storeRoute_claim:
  "registry_of f (fst (storeRoute m h k rc), ob) =
     (if granted (registry_of f (m, ob)) (ClRoute h k rc) then grant (registry_of f (m, ob)) (ClRoute h k rc)
      else registry_of f (m, ob))"
  "snd (storeRoute m h k rc) = granted (registry_of f (m, ob)) (ClRoute h k rc)"
proof -
  show ans: "snd (storeRoute m h k rc) = granted (registry_of f (m, ob)) (ClRoute h k rc)"
    by (simp add: storeRoute_answer registry_of_def ghas_def)
  show "registry_of f (fst (storeRoute m h k rc), ob) =
     (if granted (registry_of f (m, ob)) (ClRoute h k rc) then grant (registry_of f (m, ob)) (ClRoute h k rc)
      else registry_of f (m, ob))"
  proof (cases "snd (storeRoute m h k rc)")
    case True
    then have "registry_of f (fst (storeRoute m h k rc), ob) = grant (registry_of f (m, ob)) (ClRoute h k rc)"
      using host_paths_storeRoute(1) [OF True]
      by (simp add: registry_of_def storeRoute_route_at model_frame fun_eq_iff)
    then show ?thesis using True ans by (simp del: granted.simps grant.simps)
  next
    case False
    then show ?thesis
      using ans host_paths_storeRoute(2) [OF False] by (simp del: granted.simps grant.simps)
  qed
qed

section \<open>The claims of a pass\<close>

definition routeClaim ::
  "(int \<Rightarrow> bool) \<Rightarrow> bool \<Rightarrow> string \<Rightarrow> backend list \<Rightarrow> ann_settings \<Rightarrow> string list \<Rightarrow> string list \<Rightarrow> string \<Rightarrow> claim" where
  "routeClaim prt regex path servers an req resp host =
     (if regex then ClRoute host (regexRouteKey path) (mkRoute servers an req resp (pathRegexExpr prt path))
      else ClRoute host (normPath path) (mkRoute servers an req resp []))"

definition pathOf :: "ingress_path \<Rightarrow> string" where
  "pathOf p = (if ip_path p = [] then ''/'' else ip_path p)"

definition serversOf :: "ing_cfg \<Rightarrow> api \<Rightarrow> string \<Rightarrow> ingress_backend \<Rightarrow> backend list option" where
  "serversOf cfg a ns b = fst (backendServers cfg a ns b obs0)"

definition pathClaims ::
  "(int \<Rightarrow> bool) \<Rightarrow> ing_cfg \<Rightarrow> api \<Rightarrow> string \<Rightarrow> ann_settings \<Rightarrow> string \<Rightarrow> ingress_path \<Rightarrow> claim list" where
  "pathClaims prt cfg a ns an host p =
     (case serversOf cfg a ns (ip_backend p) of
        None \<Rightarrow> []
      | Some servers \<Rightarrow>
          if \<not> an_use_regex an \<and> has_prefix (pathOf p) acmeChallengePrefix then []
          else map (routeClaim prt (an_use_regex an) (pathOf p) servers an [] [])
                 (host # filter (\<lambda>alias. alias \<noteq> [] \<and> alias \<noteq> host) (an_server_aliases an)))"

definition ruleClaims ::
  "(int \<Rightarrow> bool) \<Rightarrow> ing_cfg \<Rightarrow> api \<Rightarrow> string \<Rightarrow> ann_settings \<Rightarrow> ingress_rule \<Rightarrow> claim list" where
  "ruleClaims prt cfg a ns an rule =
     (case (if ir_host rule = [] then None else ir_http rule) of
        None \<Rightarrow> []
      | Some paths \<Rightarrow>
          if an_passthrough an then
            (let addr = firstBackend cfg a ns paths in if addr = [] then [] else [ClPass (ir_host rule) addr])
          else concat (map (pathClaims prt cfg a ns an (ir_host rule)) paths))"

definition ingressClaims :: "(int \<Rightarrow> bool) \<Rightarrow> ing_cfg \<Rightarrow> api \<Rightarrow> ingress \<Rightarrow> claim list" where
  "ingressClaims prt cfg a ing =
     concat (map (ruleClaims prt cfg a (ing_ns ing) (parseAnnotations (ing_annotations ing))) (ing_rules ing))"

definition routeRuleClaims ::
  "(int \<Rightarrow> bool) \<Rightarrow> ing_cfg \<Rightarrow> http_route \<Rightarrow> ann_settings \<Rightarrow> route_rule \<Rightarrow> claim list" where
  "routeRuleClaims prt cfg rt an rule =
     (let servers = fst (ruleBackends prt cfg rt rule obs0);
          req = fst (headerFilters (rr_filters rule)); resp = snd (headerFilters (rr_filters rule));
          paths = fst (rulePaths prt rule); regexes = fst (snd (rulePaths prt rule))
      in if servers = [] then []
         else concat (map (\<lambda>path. map (routeClaim prt False path servers an req resp) (hr_hostnames rt))
                       (filter (\<lambda>path. \<not> has_prefix path acmeChallengePrefix) paths))
           @ concat (map (\<lambda>rx. map (routeClaim prt True rx servers an req resp) (hr_hostnames rt)) regexes))"

definition routeClaims :: "(int \<Rightarrow> bool) \<Rightarrow> ing_cfg \<Rightarrow> http_route \<Rightarrow> claim list" where
  "routeClaims prt cfg rt =
     concat (map (routeRuleClaims prt cfg rt (parseAnnotations (hr_annotations rt))) (hr_rules rt))"

text \<open>The HTTPRoutes a pass programs; none when a list call fails or nothing is ours.\<close>

definition passRoutes :: "api \<Rightarrow> (http_route \<times> parent_ref) list" where
  "passRoutes a =
     (case (list_gateway_classes a, list_gateways a, list_http_routes a) of
        (Some gcs, Some gws, Some rts) \<Rightarrow>
          boundRoutes (map gw_key (ourGateways (ourClasses gcs) gws)) rts
      | _ \<Rightarrow> [])"

definition gatewayClaims :: "(int \<Rightarrow> bool) \<Rightarrow> ing_cfg \<Rightarrow> api \<Rightarrow> claim list" where
  "gatewayClaims prt cfg a = concat (map (\<lambda>rp. routeClaims prt cfg (fst rp)) (passRoutes a))"

section \<open>What counts refused claims\<close>

text \<open>
  A measure of the observations that goes up by one for each reported conflict and ignores
  every other report of a pass.
\<close>

locale conflict_meter =
  fixes cfg :: ing_cfg and f :: "obs \<Rightarrow> int"
  assumes counted: "f (warn cfg MRouteConflicts ns n ''RouteConflict'' msg o1) = f o1 + 1"
    and other: "k \<noteq> MRouteConflicts \<Longrightarrow> r \<noteq> ''RouteConflict'' \<Longrightarrow> f (warn cfg k ns n r msg o1) = f o1"
    and fallback: "f (inc MEndpointsFallbackTotal o1) = f o1"
    and status: "f (status_update w o1) = f o1"
begin

lemma refine_foldl:
  assumes "\<And>x s. x \<in> set xs \<Longrightarrow> registry_of f (step s x) = run_claims (registry_of f s) (g x)"
  shows "registry_of f (foldl step s xs) = run_claims (registry_of f s) (concat (map g xs))"
  using assms by (induction xs arbitrary: s) simp_all

lemma refine_foldl_obs:
  assumes "\<And>x s. x \<in> set xs \<Longrightarrow> f (step s x) = f s"
  shows "f (foldl step s xs) = f s"
  using assms by (induction xs arbitrary: s) simp_all

lemma claimRoute_refines:
  assumes "regex \<Longrightarrow> path \<noteq> []"
  shows "registry_of f (claimRoute prt cfg obj regex words path servers an req resp st host) =
    run_claims (registry_of f st) [routeClaim prt regex path servers an req resp host]"
proof -
  obtain m o1 where st: "st = (m, o1)" by fastforce
  define k where "k = (if regex then regexRouteKey path else normPath path)"
  define rc where "rc = mkRoute servers an req resp (if regex then pathRegexExpr prt path else [])"
  have cl: "routeClaim prt regex path servers an req resp host = ClRoute host k rc"
    by (simp add: routeClaim_def k_def rc_def)
  let ?ok = "snd (storeRoute m host k rc)"
  have add: "(if regex then addRegexRoute prt m host path servers an req resp
      else addRoute m host path servers an req resp) =
      (if ?ok then setSticky an (fst (storeRoute m host k rc)) else fst (storeRoute m host k rc), ?ok)"
    using assms by (auto simp: addRegexRoute_def addRoute_def k_def rc_def split: prod.split)
  let ?o2 = "if ?ok then o1 else warn cfg MRouteConflicts (fst obj) (snd obj) ''RouteConflict''
    (msg_conflict (fst words) host (if regex then ''regex'' else ''path'') path (snd words)) o1"
  have run: "claimRoute prt cfg obj regex words path servers an req resp st host =
      (if ?ok then setSticky an (fst (storeRoute m host k rc)) else fst (storeRoute m host k rc), ?o2)"
    unfolding claimRoute_def st prod.case add by simp
  have sticky: "registry_of f (setSticky an m', ob) = registry_of f (m', ob)" for m' ob
    by (intro registry_of_frame) (simp_all add: model_frame)
  show ?thesis
  proof (cases ?ok)
    case True
    then show ?thesis
      unfolding run cl unfolding st using storeRoute_claim [where f = f and m = m and h = host and k = k and rc = rc and ob = o1] sticky by (simp add: claim_step_def)
  next
    case False
    then have same: "fst (storeRoute m host k rc) = m" by (rule host_paths_storeRoute(2))
    have ng: "\<not> granted (registry_of f (m, o1)) (ClRoute host k rc)"
      using False storeRoute_claim(2) [where f = f and m = m and h = host and k = k and rc = rc and ob = o1] by blast
    have "registry_of f (m, warn cfg MRouteConflicts ns n ''RouteConflict'' msg o1) =
        (registry_of f (m, o1))\<lparr>rg_refused := rg_refused (registry_of f (m, o1)) + 1\<rparr>" for ns n msg
      by (simp add: registry_of_def counted)
    then show ?thesis
      unfolding run cl unfolding st using False ng same by (simp add: claim_step_def del: granted.simps)
  qed
qed

lemma servers_meter:
  "backendServers cfg a ns b o1 = (serversOf cfg a ns b, snd (backendServers cfg a ns b o1))"
  "f (snd (backendServers cfg a ns b o1)) = f o1"
  by (auto simp: backendServers_def serversOf_def fallback split: option.split)

lemma ingressPath_refines:
  "registry_of f (ingressPath prt cfg a ing an host st p) =
     run_claims (registry_of f st) (pathClaims prt cfg a (ing_ns ing) an host p)"
proof -
  obtain m o1 where st: "st = (m, o1)" by fastforce
  obtain o2 where bs: "backendServers cfg a (ing_ns ing) (ip_backend p) o1 =
      (serversOf cfg a (ing_ns ing) (ip_backend p), o2)" and o2: "f o2 = f o1"
    using servers_meter by metis
  have ne: "pathOf p \<noteq> []" by (simp add: pathOf_def)
  have hosts: "registry_of f (claimHosts prt cfg ing regex host (pathOf p) sv an st') =
      run_claims (registry_of f st') (map (routeClaim prt regex (pathOf p) sv an [] [])
        (host # filter (\<lambda>alias. alias \<noteq> [] \<and> alias \<noteq> host) (an_server_aliases an)))" for regex sv st'
    unfolding claimHosts_def Let_def
    by (subst refine_foldl [where g = "\<lambda>h. [routeClaim prt regex (pathOf p) sv an [] [] h]"])
      (simp_all add: claimRoute_refines ne concat_map_singleton)
  have acme: "registry_of f (m\<lparr>rm_acme := x\<rparr>, ob) = registry_of f (m, ob)" for x ob
    by (intro registry_of_frame) simp_all
  show ?thesis
  proof (cases "serversOf cfg a (ing_ns ing) (ip_backend p)")
    case None
    then show ?thesis
      using o2 other [of MBackendUnresolved] by (simp add: ingressPath_def st bs pathClaims_def registry_of_def)
  next
    case (Some sv)
    show ?thesis
    proof (cases "an_use_regex an")
      case True
      have "ingressPath prt cfg a ing an host st p = claimHosts prt cfg ing True host (pathOf p) sv an (m, o2)"
        by (simp add: ingressPath_def st bs Some True pathOf_def)
      then show ?thesis
        using hosts [of True sv "(m, o2)"] registry_of_obs [OF o2, of m] by (simp add: pathClaims_def Some True st)
    next
      case prefix: False
      define o3 where "o3 = (if ip_type p = Some ''Exact'' then
          warn cfg MUnsupportedMatch (ing_ns ing) (ing_name ing) ''UnsupportedMatch'' (msg_exact host (pathOf p)) o2
          else o2)"
      have o3: "f o3 = f o1" using o2 other [of MUnsupportedMatch] by (simp add: o3_def)
      have run: "ingressPath prt cfg a ing an host st p =
          (if has_prefix (pathOf p) acmeChallengePrefix then
             (case (if rm_acme m = [] then backendAddr cfg a (ing_ns ing) (ip_backend p) else None) of
                Some addr \<Rightarrow> (m\<lparr>rm_acme := addr\<rparr>, o3)
              | None \<Rightarrow> (m, o3))
           else claimHosts prt cfg ing False host (pathOf p) sv an (m, o3))"
        unfolding o3_def by (simp add: ingressPath_def st bs Some prefix pathOf_def [symmetric] Let_def)
      show ?thesis
      proof (cases "has_prefix (pathOf p) acmeChallengePrefix")
        case True
        then show ?thesis
          unfolding run using registry_of_obs [OF o3, of m] acme
          by (auto simp: pathClaims_def Some prefix st split: option.split)
      next
        case False
        then show ?thesis
          unfolding run using hosts [of False sv "(m, o3)"] registry_of_obs [OF o3, of m]
          by (simp add: pathClaims_def Some prefix st)
      qed
    qed
  qed
qed

lemma firstBackend_cases:
  "firstBackend cfg a ns ps \<noteq> [] \<Longrightarrow> \<exists>p \<in> set ps. backendAddr cfg a ns (ip_backend p) = Some (firstBackend cfg a ns ps)"
  by (induction ps) (auto split: option.splits)

lemma passthroughRule_refines:
  assumes "host \<noteq> []"
  shows "registry_of f (passthroughRule prt cfg a ing host paths st) =
    run_claims (registry_of f st)
      (let addr = firstBackend cfg a (ing_ns ing) paths in if addr = [] then [] else [ClPass host addr])"
proof -
  obtain m o1 where st: "st = (m, o1)" by fastforce
  let ?addr = "firstBackend cfg a (ing_ns ing) paths"
  show ?thesis
  proof (cases "?addr = []")
    case True
    then show ?thesis
      using other [of MBackendUnresolved] by (simp add: st passthroughRule_def registry_of_def)
  next
    case addr: False
    have ans: "snd (addPassthroughHost m host ?addr) \<longleftrightarrow> granted (registry_of f (m, o1)) (ClPass host ?addr)"
      using assms addr by (simp add: addPassthroughHost_def registry_of_def ghas_def)
    show ?thesis
    proof (cases "snd (addPassthroughHost m host ?addr)")
      case True
      then have "fst (addPassthroughHost m host ?addr) = m\<lparr>rm_passthrough := gput host ?addr (rm_passthrough m)\<rparr>"
        by (auto simp: addPassthroughHost_def split: if_splits)
      then show ?thesis
        using True ans addr
        by (cases "addPassthroughHost m host ?addr")
          (auto simp: st passthroughRule_def claim_step_def registry_of_def model_frame gmap_simps)
    next
      case False
      then have "fst (addPassthroughHost m host ?addr) = m"
        by (auto simp: addPassthroughHost_def split: if_splits)
      then show ?thesis
        using False ans addr counted
        by (cases "addPassthroughHost m host ?addr")
          (simp add: st passthroughRule_def claim_step_def registry_of_def del: granted.simps)
    qed
  qed
qed

lemma ingressRule_refines:
  "registry_of f (ingressRule prt cfg a ing an st rule) =
     run_claims (registry_of f st) (ruleClaims prt cfg a (ing_ns ing) an rule)"
proof (cases "if ir_host rule = [] then None else ir_http rule")
  case (Some paths)
  then have "ir_host rule \<noteq> []" by (auto split: if_splits)
  moreover have "registry_of f (foldl (ingressPath prt cfg a ing an (ir_host rule)) st paths) =
      run_claims (registry_of f st) (concat (map (pathClaims prt cfg a (ing_ns ing) an (ir_host rule)) paths))"
    by (rule refine_foldl) (rule ingressPath_refines)
  ultimately show ?thesis
    unfolding ingressRule_def ruleClaims_def Some option.case
    by (cases "an_passthrough an")
      (simp_all only: if_True if_False simp_thms passthroughRule_refines not_False_eq_True)
qed (simp add: ingressRule_def ruleClaims_def)

lemma tls_registry: "registry_of f (foldl (tlsEntry ing) m ts, o1) = registry_of f (m, o1)"
proof -
  have b: "rm_hosts (bindCert ns n m' h) = rm_hosts m' \<and> rm_passthrough (bindCert ns n m' h) = rm_passthrough m'"
    for ns n m' h by (simp add: bindCert_def model_frame split: prod.split)
  have bf: "rm_hosts (foldl (bindCert ns n) m' hs) = rm_hosts m' \<and>
      rm_passthrough (foldl (bindCert ns n) m' hs) = rm_passthrough m'" for ns n m' hs
    by (induction hs arbitrary: m') (simp_all add: b)
  have "rm_hosts (foldl (tlsEntry ing) m ts) = rm_hosts m \<and>
      rm_passthrough (foldl (tlsEntry ing) m ts) = rm_passthrough m"
    by (induction ts arbitrary: m) (simp_all add: tlsEntry_def b bf)
  then show ?thesis by (intro registry_of_frame) simp_all
qed

lemma sticky_registry: "registry_of f (setSticky an m, o1) = registry_of f (m, o1)"
  by (intro registry_of_frame) (simp_all add: model_frame)

lemma ingressOne_refines:
  "registry_of f (ingressOne prt cfg a st ing) = run_claims (registry_of f st) (ingressClaims prt cfg a ing)"
proof -
  obtain m o1 where st: "st = (m, o1)" by fastforce
  show ?thesis
    unfolding ingressOne_def ingressClaims_def Let_def
    by (subst refine_foldl [OF ingressRule_refines]) (simp add: st tls_registry sticky_registry)
qed

lemma renderIngresses_refines:
  "registry_of f (renderIngresses prt cfg a ings st) =
     run_claims (registry_of f st) (concat (map (ingressClaims prt cfg a) (matchedIngs cfg a ings)))"
  unfolding renderIngresses_def by (rule refine_foldl) (rule ingressOne_refines)

lemma backendOne_meter:
  "backendOne prt cfg rt weighted (sv, o1) br =
     (fst (backendOne prt cfg rt weighted (sv, obs0) br), snd (backendOne prt cfg rt weighted (sv, o1) br))"
  "f (snd (backendOne prt cfg rt weighted (sv, o1) br)) = f o1"
  using other [of MBackendUnresolved] by (auto simp: backendOne_def Let_def split: option.split)

lemma ruleBackends_meter:
  "fst (ruleBackends prt cfg rt rule o1) = fst (ruleBackends prt cfg rt rule o2)"
  "f (snd (ruleBackends prt cfg rt rule o1)) = f o1"
proof -
  have fst_eq: "fst (foldl (backendOne prt cfg rt w) (sv, p) brs) = fst (foldl (backendOne prt cfg rt w) (sv, q) brs)"
    for w sv p q brs
  proof (induction brs arbitrary: sv p q)
    case (Cons b brs)
    show ?case
      using backendOne_meter(1) [of prt rt w sv p b] backendOne_meter(1) [of prt rt w sv q b] Cons
      by (metis foldl_Cons)
  qed simp
  have snd_eq: "f (snd (foldl (backendOne prt cfg rt w) (sv, p) brs)) = f p" for w sv p brs
  proof (induction brs arbitrary: sv p)
    case (Cons b brs)
    show ?case
      using backendOne_meter [of prt rt w sv p b] Cons by (metis foldl_Cons)
  qed simp
  show "fst (ruleBackends prt cfg rt rule o1) = fst (ruleBackends prt cfg rt rule o2)"
    unfolding ruleBackends_def by (rule fst_eq)
  show "f (snd (ruleBackends prt cfg rt rule o1)) = f o1"
    unfolding ruleBackends_def by (rule snd_eq)
qed

lemma routePathHost_refines:
  "registry_of f (routePathHost prt cfg rt an sv req resp path st host) =
     run_claims (registry_of f st)
       (if has_prefix path acmeChallengePrefix then [] else [routeClaim prt False path sv an req resp host])"
proof (cases "has_prefix path acmeChallengePrefix")
  case True
  have "registry_of f ((fst st)\<lparr>rm_acme := x\<rparr>, snd st) = registry_of f (fst st, snd st)" for x
    by (intro registry_of_frame) simp_all
  then show ?thesis using True by (simp add: routePathHost_def)
qed (simp add: routePathHost_def claimRoute_refines)

lemma rulePaths_nonempty:
  assumes "rx \<in> set (fst (snd (rulePaths prt rule)))"
  shows "rx \<noteq> []"
proof -
  have "(\<forall>x \<in> set (fst (snd (foldl (matchOne prt) (ps, rs, ws) ms))). x \<noteq> [])"
    if "\<forall>x \<in> set rs. x \<noteq> []" for ps rs ws ms
    using that
  proof (induction ms arbitrary: ps rs ws)
    case (Cons mt ms)
    obtain ps' rs' ws' where m: "matchOne prt (ps, rs, ws) mt = (ps', rs', ws')" by (metis prod_cases3)
    let ?pv = "case rm_path mt of None \<Rightarrow> ''/''
      | Some p \<Rightarrow> (case pm_value p of None \<Rightarrow> ''/'' | Some v \<Rightarrow> if v = [] then ''/'' else v)"
    have pv: "?pv \<noteq> []" by (simp split: option.split)
    have "fst (snd (matchOne prt (ps, rs, ws) mt)) \<in> {rs, rs @ [?pv]}"
      by (simp only: matchOne_def Let_def prod.case) simp
    then have "\<forall>x \<in> set rs'. x \<noteq> []" using Cons.prems m pv by auto
    then show ?case using Cons.IH m by simp
  qed simp
  from this [of "[]"] show ?thesis using assms by (auto simp: rulePaths_def split: if_splits)
qed

lemma routeRule_refines:
  "registry_of f (routeRule prt cfg rt an st rule) =
     run_claims (registry_of f st) (routeRuleClaims prt cfg rt an rule)"
proof -
  obtain m p where st: "st = (m, p)" by fastforce
  obtain sv o1 where sv: "ruleBackends prt cfg rt rule p = (sv, o1)" by fastforce
  have sv0: "fst (ruleBackends prt cfg rt rule obs0) = sv" and o1: "f o1 = f p"
    using ruleBackends_meter [of prt rt rule p] sv by auto
  obtain req resp where h: "headerFilters (rr_filters rule) = (req, resp)" by fastforce
  obtain paths regexes warns where rp: "rulePaths prt rule = (paths, regexes, warns)" by (metis prod_cases3)
  define o2 where "o2 = foldl (\<lambda>ob w. warn cfg MUnsupportedMatch (hr_ns rt) (hr_name rt) ''UnsupportedMatch'' w ob)
                          o1 warns"
  have o2: "f o2 = f p"
    unfolding o2_def o1 [symmetric] by (rule refine_foldl_obs) (rule other, simp_all)
  show ?thesis
  proof (cases "sv = []")
    case True
    then show ?thesis
      using registry_of_obs [OF o1, of m]
      by (simp add: routeRule_def routeRuleClaims_def st sv sv0)
  next
    case False
    define st1 where "st1 = foldl (\<lambda>s path. foldl (routePathHost prt cfg rt an sv req resp path) s (hr_hostnames rt))
        (m, o2) paths"
    have p1: "registry_of f st1 = run_claims (registry_of f (m, o2))
        (concat (map (\<lambda>path. concat (map (\<lambda>h. if has_prefix path acmeChallengePrefix then []
            else [routeClaim prt False path sv an req resp h]) (hr_hostnames rt))) paths))"
      unfolding st1_def by (intro refine_foldl routePathHost_refines)
    have flat: "concat (map (\<lambda>path. concat (map (\<lambda>h. if has_prefix path acmeChallengePrefix then []
            else [routeClaim prt False path sv an req resp h]) hs)) ps) =
        concat (map (\<lambda>path. map (routeClaim prt False path sv an req resp) hs)
          (filter (\<lambda>path. \<not> has_prefix path acmeChallengePrefix) ps))" for hs ps
    proof (induction ps)
      case (Cons path ps)
      have "concat (map (\<lambda>h. if has_prefix path acmeChallengePrefix then []
            else [routeClaim prt False path sv an req resp h]) hs) =
          (if has_prefix path acmeChallengePrefix then [] else map (routeClaim prt False path sv an req resp) hs)"
        by (induction hs) simp_all
      then show ?case using Cons by simp
    qed simp
    have p2: "registry_of f (foldl (\<lambda>s rx. foldl (claimRoute prt cfg (hr_ns rt, hr_name rt) True (''host'', ''rule'')
            rx sv an req resp) s (hr_hostnames rt)) st1 regexes) =
        run_claims (registry_of f st1)
          (concat (map (\<lambda>rx. concat (map (\<lambda>h. [routeClaim prt True rx sv an req resp h]) (hr_hostnames rt))) regexes))"
      by (intro refine_foldl claimRoute_refines) (use rulePaths_nonempty [of _ prt rule] rp in simp)
    have "routeRule prt cfg rt an st rule =
        foldl (\<lambda>s rx. foldl (claimRoute prt cfg (hr_ns rt, hr_name rt) True (''host'', ''rule'')
            rx sv an req resp) s (hr_hostnames rt)) st1 regexes"
      unfolding routeRule_def st1_def o2_def st fst_conv snd_conv sv prod.case h rp Let_def using False by simp
    then show ?thesis
      using p1 p2 flat registry_of_obs [OF o2, of m] False
      by (simp add: routeRuleClaims_def sv0 h rp st concat_map_singleton)
  qed
qed

lemma routeOne_refines:
  "registry_of f (routeOne prt cfg now st rp) = run_claims (registry_of f st) (routeClaims prt cfg (fst rp))"
proof -
  obtain rt parent where rp: "rp = (rt, parent)" by fastforce
  let ?an = "parseAnnotations (hr_annotations rt)"
  let ?st1 = "foldl (routeRule prt cfg rt ?an) (setSticky ?an (fst st), snd st) (hr_rules rt)"
  have "registry_of f ?st1 = run_claims (registry_of f (setSticky ?an (fst st), snd st)) (routeClaims prt cfg rt)"
    unfolding routeClaims_def by (rule refine_foldl) (rule routeRule_refines)
  moreover have "registry_of f (fst ?st1, acceptRoute cfg now rt parent (snd ?st1)) = registry_of f (fst ?st1, snd ?st1)"
    by (rule registry_of_obs) (simp add: acceptRoute_def Let_def status)
  moreover have "routeOne prt cfg now st rp = (fst ?st1, acceptRoute cfg now rt parent (snd ?st1))"
    by (simp add: routeOne_def rp Let_def)
  ultimately show ?thesis by (simp add: rp sticky_registry)
qed

lemma classes_meter: "f (foldl (classOne cfg now) o1 gcs) = f o1"
  by (rule refine_foldl_obs) (simp add: classOne_def status split: prod.split)

lemma gateways_registry: "registry_of f (foldl (gatewayOne cfg now) st gws) = registry_of f st"
proof -
  have b: "rm_hosts (bindCert ns n m h) = rm_hosts m" "rm_passthrough (bindCert ns n m h) = rm_passthrough m"
    for ns n m h by (simp_all add: bindCert_def model_frame split: prod.split)
  have r: "rm_hosts (foldl (refOne gw h) m crs) = rm_hosts m \<and>
      rm_passthrough (foldl (refOne gw h) m crs) = rm_passthrough m" for gw h m crs
    by (induction crs arbitrary: m) (simp_all add: refOne_def b)
  have l: "rm_hosts (foldl (listenerOne gw) m ls) = rm_hosts m \<and>
      rm_passthrough (foldl (listenerOne gw) m ls) = rm_passthrough m" for gw m ls
    by (induction ls arbitrary: m) (simp_all add: listenerOne_def r split: option.split)
  have one: "registry_of f (gatewayOne cfg now s gw) = registry_of f s" for s gw
  proof -
    obtain m1 o1 where s: "s = (m1, o1)" by fastforce
    obtain cs1 ch1 where e1: "ensureCond now (gw_conditions gw) (gw_generation gw) ''Accepted'' ''Accepted''
        ''synapse-operator'' = (cs1, ch1)" by fastforce
    obtain cs2 ch2 where e2: "ensureCond now cs1 (gw_generation gw) ''Programmed'' ''Programmed''
        ''synapse-operator'' = (cs2, ch2)" by fastforce
    obtain o2 where g: "gatewayOne cfg now s gw = (foldl (listenerOne gw) m1 (gw_listeners gw), o2)" "f o2 = f o1"
      by (simp add: gatewayOne_def s Let_def status e1 e2)
    have "registry_of f (foldl (listenerOne gw) m1 (gw_listeners gw), o2) = registry_of f (m1, o2)"
      by (rule registry_of_frame) (simp_all add: l)
    then show ?thesis using g s registry_of_obs [of f o2 o1 m1] by simp
  qed
  show ?thesis by (induction gws arbitrary: st) (simp_all add: one)
qed

lemma renderGateways_refines:
  "registry_of f (snd (renderGateways prt cfg a now st)) = run_claims (registry_of f st) (gatewayClaims prt cfg a)"
proof (cases "list_gateway_classes a")
  case None
  then show ?thesis by (simp add: renderGateways_def gatewayClaims_def passRoutes_def)
next
  case (Some gcs)
  define st1 where "st1 = (fst st, foldl (classOne cfg now) (snd st) gcs)"
  have st1: "registry_of f st1 = registry_of f st"
    using registry_of_obs [of f "foldl (classOne cfg now) (snd st) gcs" "snd st" "fst st"] classes_meter
    by (simp add: st1_def)
  have none: "boundRoutes [] rts = []" for rts
    by (simp add: boundRoutes_def boundParent_def map_filter_def find_None_iff)
  show ?thesis
  proof (cases "list_gateways a")
    case None
    then show ?thesis
      using st1 Some by (simp add: renderGateways_def gatewayClaims_def passRoutes_def st1_def [symmetric] Let_def)
  next
    case gws: (Some gws)
    let ?ours = "ourGateways (ourClasses gcs) gws"
    let ?st2 = "foldl (gatewayOne cfg now) st1 ?ours"
    have st2: "registry_of f ?st2 = registry_of f st" using st1 gateways_registry by simp
    have empty: "ourClasses gcs = [] \<Longrightarrow> ?ours = []" by (simp add: ourGateways_def)
    show ?thesis
    proof (cases "?ours = [] \<or> list_http_routes a = None")
      case True
      then show ?thesis
        using st1 st2 Some gws none empty
        by (auto simp: renderGateways_def gatewayClaims_def passRoutes_def st1_def [symmetric] Let_def
            split: option.split)
    next
      case False
      then obtain rts where rts: "list_http_routes a = Some rts" by auto
      let ?bound = "boundRoutes (map gw_key ?ours) rts"
      have "snd (renderGateways prt cfg a now st) = foldl (routeOne prt cfg now) ?st2 ?bound"
        using False Some gws rts empty by (auto simp: renderGateways_def st1_def [symmetric] Let_def)
      moreover have "registry_of f (foldl (routeOne prt cfg now) ?st2 ?bound) =
          run_claims (registry_of f ?st2) (concat (map (\<lambda>rp. routeClaims prt cfg (fst rp)) ?bound))"
        by (rule refine_foldl) (rule routeOne_refines)
      ultimately show ?thesis
        using st2 Some gws rts by (simp add: gatewayClaims_def passRoutes_def)
    qed
  qed
qed

end

section \<open>The metric and the events count refused claims\<close>

interpretation metric: conflict_meter cfg "\<lambda>o1. metrics o1 MRouteConflicts" for cfg
  by unfold_locales (simp_all add: warn_def emit_def)

definition conflict_events :: "obs \<Rightarrow> int" where
  "conflict_events o1 = int (length (filter (\<lambda>e. ev_reason e = ''RouteConflict'') (events o1)))"

interpretation reported: conflict_meter "cfg\<lparr>cf_recorder := True\<rparr>" conflict_events for cfg
  by unfold_locales (simp_all add: warn_def emit_def conflict_events_def)

end
