(* ===== verification/RenderYaml.thy ===== *)
theory RenderYaml
  imports Routes
begin

text \<open>
  The two renderers of controllers/routes.go: the v1 document (\<open>renderUpstreams\<close>) and the v2
  document (\<open>renderUpstreamsV2\<close>) of a render model. Every string that comes from a cluster
  object is written with \<^verbatim>\<open>%q\<close>; the lemmas show that such a string can neither add a line nor
  close its scalar, and that the document depends on the contents of the model's maps only.
\<close>

section \<open>Lines\<close>

definition ln :: "string \<Rightarrow> string" where
  "ln s = s @ nl"

definition opt_line :: "string \<Rightarrow> ('a \<Rightarrow> string) \<Rightarrow> 'a option \<Rightarrow> string" where
  "opt_line key show v = (case v of None \<Rightarrow> [] | Some x \<Rightarrow> ln (key @ show x))"

definition show_word :: "('a::len) word \<Rightarrow> string" where
  "show_word w = show_uint (uint w)"

definition doc_header :: string where
  "doc_header = ln ''# Generated by synapse-operator ingress controller. Do not edit.''"

definition acme_key :: string where
  "acme_key = dq @ ''/.well-known/acme-challenge/*'' @ dq"

section \<open>Schema v1\<close>

definition writeHeaderList :: "(int \<Rightarrow> bool) \<Rightarrow> string \<Rightarrow> string list \<Rightarrow> string" where
  "writeHeaderList prt key hs =
     (if hs = [] then []
      else ln (''        '' @ key @ '':'') @
        concat (map (\<lambda>h. ln (''          - '' @ quote prt h)) hs))"

definition serverLineV1 :: "(int \<Rightarrow> bool) \<Rightarrow> backend \<Rightarrow> string" where
  "serverLineV1 prt sv =
     (if b_weight sv > 0
      then ln (''          - { address: '' @ quote prt (b_addr sv) @ '', weight: '' @
             show_word (b_weight sv) @ '' }'')
      else ln (''          - '' @ quote prt (b_addr sv)))"

definition redirectLines :: "(int \<Rightarrow> bool) \<Rightarrow> route_cfg \<Rightarrow> string" where
  "redirectLines prt rc =
     (case rc_redirect_status rc of
        None \<Rightarrow> []
      | Some st \<Rightarrow>
          if rc_redirect_location rc \<noteq> []
          then ln ''        redirect:'' @ ln (''          status: '' @ show_word st) @
            ln (''          location: '' @ quote prt (rc_redirect_location rc))
          else [])"

definition routeBlockV1 :: "(int \<Rightarrow> bool) \<Rightarrow> string \<Rightarrow> route_cfg \<Rightarrow> string" where
  "routeBlockV1 prt p rc =
     ln (''      '' @ quote prt p @ '':'') @ ln ''        servers:'' @
     concat (map (serverLineV1 prt) (rc_servers rc)) @
     (if rc_match_expr rc \<noteq> [] then ln (''        match_expr: '' @ quote prt (rc_match_expr rc)) else []) @
     ln (''        ssl_enabled: '' @ show_bool (case rc_ssl rc of None \<Rightarrow> False | Some b \<Rightarrow> b)) @
     opt_line ''        http2_enabled: '' show_bool (rc_http2 rc) @
     opt_line ''        https_proxy_enabled: '' show_bool (rc_force_https rc) @
     opt_line ''        healthcheck: '' show_bool (rc_healthcheck rc) @
     opt_line ''        disable_access_log: '' show_bool (rc_disable_access_log rc) @
     opt_line ''        connection_timeout: '' show_word (rc_connect_timeout rc) @
     opt_line ''        read_timeout: '' show_word (rc_read_timeout rc) @
     opt_line ''        write_timeout: '' show_word (rc_write_timeout rc) @
     opt_line ''        idle_timeout: '' show_word (rc_idle_timeout rc) @
     opt_line ''        max_body_size: '' show_word (rc_max_body_size rc) @
     redirectLines prt rc @
     writeHeaderList prt ''request_headers'' (rc_req_headers rc) @
     writeHeaderList prt ''response_headers'' (rc_resp_headers rc)"

text \<open>One entry of a map, looked up under one of its own (sorted) keys.\<close>

definition entryBlock :: "('k \<Rightarrow> 'v \<Rightarrow> string) \<Rightarrow> ('k, 'v) gmap \<Rightarrow> 'k \<Rightarrow> string" where
  "entryBlock f m k = (case gget m k of None \<Rightarrow> [] | Some v \<Rightarrow> f k v)"

definition certLine :: "(int \<Rightarrow> bool) \<Rightarrow> string \<Rightarrow> render_model \<Rightarrow> string \<Rightarrow> string" where
  "certLine prt key m h =
     (let stem = gstr (rm_host_cert m) h in if stem \<noteq> [] then ln (key @ quote prt stem) else [])"

definition hostBlockV1 :: "(int \<Rightarrow> bool) \<Rightarrow> render_model \<Rightarrow> string \<Rightarrow> string" where
  "hostBlockV1 prt m h =
     ln (''  '' @ quote prt h @ '':'') @ certLine prt ''    certificate: '' m h @
     ln ''    paths:'' @
     concat (map (entryBlock (routeBlockV1 prt) (host_paths m h)) (sorted_keys (host_paths m h)))"

definition acmeBlockV1 :: "(int \<Rightarrow> bool) \<Rightarrow> string \<Rightarrow> string" where
  "acmeBlockV1 prt acme =
     (if acme \<noteq> [] then
        ln ''internal_paths:'' @ ln (''  '' @ acme_key @ '':'') @ ln ''    servers:'' @
        ln (''      - '' @ quote prt acme) @ ln ''    ssl_enabled: false''
      else [])"

definition renderUpstreams :: "(int \<Rightarrow> bool) \<Rightarrow> render_model \<Rightarrow> string" where
  "renderUpstreams prt m =
     doc_header @ acmeBlockV1 prt (rm_acme m) @
     (if rm_sticky m then ln ''sticky_sessions: true'' else []) @
     ln ''upstreams:'' @
     concat (map (hostBlockV1 prt m) (sorted_keys (rm_hosts m)))"

section \<open>Schema v2\<close>

definition serverLineV2 :: "(int \<Rightarrow> bool) \<Rightarrow> backend \<Rightarrow> string" where
  "serverLineV2 prt sv =
     (if b_weight sv > 0
      then ln (''          - { addr: '' @ quote prt (b_addr sv) @ '', weight: '' @
             show_word (b_weight sv) @ '' }'')
      else ln (''          - '' @ quote prt (b_addr sv)))"

definition serversV2 :: "(int \<Rightarrow> bool) \<Rightarrow> backend list \<Rightarrow> string" where
  "serversV2 prt servers =
     (case servers of
        [sv] \<Rightarrow> if b_weight sv = 0 then ln (''        upstream: '' @ quote prt (b_addr sv))
               else ln ''        upstreams:'' @ concat (map (serverLineV2 prt) servers)
      | _ \<Rightarrow> ln ''        upstreams:'' @ concat (map (serverLineV2 prt) servers))"

definition timeoutsV2 :: "route_cfg \<Rightarrow> string" where
  "timeoutsV2 rc =
     (if rc_connect_timeout rc \<noteq> None \<or> rc_read_timeout rc \<noteq> None \<or> rc_write_timeout rc \<noteq> None
         \<or> rc_idle_timeout rc \<noteq> None
      then ln ''        timeouts:'' @
        opt_line ''          connect: '' show_word (rc_connect_timeout rc) @
        opt_line ''          read: '' show_word (rc_read_timeout rc) @
        opt_line ''          write: '' show_word (rc_write_timeout rc) @
        opt_line ''          idle: '' show_word (rc_idle_timeout rc)
      else [])"

definition headerListV2 :: "(int \<Rightarrow> bool) \<Rightarrow> string \<Rightarrow> string list \<Rightarrow> string" where
  "headerListV2 prt key hs =
     (if hs = [] then []
      else ln (''          '' @ key @ '':'') @
        concat (map (\<lambda>h. ln (''            - '' @ quote prt h)) hs))"

definition headersV2 :: "(int \<Rightarrow> bool) \<Rightarrow> route_cfg \<Rightarrow> string" where
  "headersV2 prt rc =
     (if rc_req_headers rc \<noteq> [] \<or> rc_resp_headers rc \<noteq> []
      then ln ''        headers:'' @ headerListV2 prt ''request'' (rc_req_headers rc) @
        headerListV2 prt ''response'' (rc_resp_headers rc)
      else [])"

definition writeRouteV2 :: "(int \<Rightarrow> bool) \<Rightarrow> route_cfg \<Rightarrow> string" where
  "writeRouteV2 prt rc =
     serversV2 prt (rc_servers rc) @
     (if rc_match_expr rc \<noteq> [] then ln (''        match_expr: '' @ quote prt (rc_match_expr rc)) else []) @
     opt_line ''        ssl_enabled: '' show_bool (rc_ssl rc) @
     opt_line ''        http2_enabled: '' show_bool (rc_http2 rc) @
     (if rc_force_https rc = Some True then ln ''        force_https: true'' else []) @
     (if rc_healthcheck rc = Some True
      then ln ''        health_check:'' @ ln ''          type: tcp'' else []) @
     opt_line ''        disable_access_log: '' show_bool (rc_disable_access_log rc) @
     opt_line ''        max_body_size: '' show_word (rc_max_body_size rc) @
     redirectLines prt rc @ timeoutsV2 rc @ headersV2 prt rc"

definition routeBlockV2 :: "(int \<Rightarrow> bool) \<Rightarrow> string \<Rightarrow> route_cfg \<Rightarrow> string" where
  "routeBlockV2 prt p rc = ln (''      '' @ quote prt p @ '':'') @ writeRouteV2 prt rc"

definition hostBlockV2 :: "(int \<Rightarrow> bool) \<Rightarrow> render_model \<Rightarrow> string \<Rightarrow> string" where
  "hostBlockV2 prt m h =
     ln (''  '' @ quote prt h @ '':'') @
     (case gget (rm_passthrough m) h of
        Some upstream \<Rightarrow>
          ln ''    tls:'' @ ln ''      passthrough: true'' @ ln (''    upstream: '' @ quote prt upstream)
      | None \<Rightarrow>
          ln ''    tls:'' @ ln ''      terminate:'' @ certLine prt ''        cert: '' m h @
          ln ''    paths:'' @
          concat (map (entryBlock (routeBlockV2 prt) (host_paths m h)) (sorted_keys (host_paths m h))))"

definition hostKeysV2 :: "render_model \<Rightarrow> string list" where
  "hostKeysV2 m = sort (gkeys (rm_hosts m) @ gkeys (rm_passthrough m))"

definition renderUpstreamsV2 :: "(int \<Rightarrow> bool) \<Rightarrow> render_model \<Rightarrow> string" where
  "renderUpstreamsV2 prt m =
     doc_header @ ln ''version: 2'' @
     (if rm_sticky m
      then ln ''proxy:'' @ ln ''  sticky_sessions:'' @ ln ''    enabled: true'' else []) @
     (if rm_acme m \<noteq> []
      then ln ''internal:'' @ ln (''  - path: '' @ acme_key) @
        ln (''    upstream: '' @ quote prt (rm_acme m)) else []) @
     (if hostKeysV2 m = [] then []
      else ln ''hosts:'' @ concat (map (hostBlockV2 prt m) (hostKeysV2 m)))"

text \<open>The schema of a render: v2 as soon as any host is passed through.\<close>

definition renderDoc :: "(int \<Rightarrow> bool) \<Rightarrow> render_model \<Rightarrow> string" where
  "renderDoc prt m =
     (if length (rm_passthrough m) > 0 then renderUpstreamsV2 prt m else renderUpstreams prt m)"

section \<open>The document depends on the contents of the maps only\<close>

text \<open>
  Two models with the same contents, whatever the iteration orders of their Go maps.
\<close>

definition same_model :: "render_model \<Rightarrow> render_model \<Rightarrow> bool" where
  "same_model m m' \<longleftrightarrow> rm_acme m = rm_acme m' \<and> rm_sticky m = rm_sticky m' \<and>
     same_map (rm_host_cert m) (rm_host_cert m') \<and> same_map (rm_passthrough m) (rm_passthrough m') \<and>
     (\<forall>h. ghas (rm_hosts m) h = ghas (rm_hosts m') h \<and> same_map (host_paths m h) (host_paths m' h))"

lemma entryBlock_same: "same_map m m' \<Longrightarrow> entryBlock f m = entryBlock f m'"
  by (rule ext) (simp add: entryBlock_def same_map_def)

lemma certLine_same: "same_map (rm_host_cert m) (rm_host_cert m') \<Longrightarrow> certLine prt key m = certLine prt key m'"
  by (rule ext) (simp add: certLine_def gstr_def same_map_def)

lemma same_model_paths:
  assumes "model_inv prt m" "model_inv prt m'" "same_model m m'"
  shows "sorted_keys (host_paths m h) = sorted_keys (host_paths m' h)"
    "entryBlock f (host_paths m h) = entryBlock f (host_paths m' h)"
  using assms host_paths_inv
  by (auto simp: model_inv_def same_model_def intro!: sorted_keys_same_map entryBlock_same)

lemma same_model_hosts:
  assumes "same_model m m'"
  shows "set (gkeys (rm_hosts m)) = set (gkeys (rm_hosts m'))"
    and "set (gkeys (rm_passthrough m)) = set (gkeys (rm_passthrough m'))"
proof -
  show "set (gkeys (rm_hosts m)) = set (gkeys (rm_hosts m'))"
    using assms by (simp only: set_eq_iff ghas_iff [symmetric] same_model_def) simp
  show "set (gkeys (rm_passthrough m)) = set (gkeys (rm_passthrough m'))"
    using assms by (intro same_map_keys) (simp add: same_model_def)
qed

lemma hostKeysV2_distinct:
  assumes "model_inv prt m"
  shows "distinct (gkeys (rm_hosts m) @ gkeys (rm_passthrough m))"
proof -
  have "\<not> ghas (rm_hosts m) h" if "ghas (rm_passthrough m) h" for h
    using assms that by (auto simp: model_inv_def passthrough_inv_def ghas_def [of "rm_passthrough m"])
  then have "set (gkeys (rm_hosts m)) \<inter> set (gkeys (rm_passthrough m)) = {}"
    unfolding ghas_iff by blast
  moreover have "distinct (gkeys (rm_hosts m))" "distinct (gkeys (rm_passthrough m))"
    using assms by (simp_all add: model_inv_defs gmap_ok_def)
  ultimately show ?thesis by (simp only: distinct_append)
qed

text \<open>
  The rendered document is a function of the model's contents: two well-formed
  models with equal registries render to the same bytes whatever the iteration order of their
  Go maps, so an unchanged configuration never looks changed.
\<close>

theorem renderDoc_contents_only:
  assumes inv: "model_inv prt m" "model_inv prt m'" and same: "same_model m m'"
  shows "renderDoc prt m = renderDoc prt m'"
proof -
  note paths = same_model_paths [OF inv same]
  note hosts = same_model_hosts [OF same]
  have cert: "certLine prt key m = certLine prt key m'" for key
    using same by (intro certLine_same) (simp add: same_model_def)
  have pt: "gget (rm_passthrough m) = gget (rm_passthrough m')"
    using same by (simp add: same_model_def same_map_def)
  have "hostBlockV1 prt m = hostBlockV1 prt m'" "hostBlockV2 prt m = hostBlockV2 prt m'"
    unfolding hostBlockV1_def hostBlockV2_def paths cert pt by (rule refl)+
  moreover have "sorted_keys (rm_hosts m) = sorted_keys (rm_hosts m')"
    unfolding sorted_keys_def
    by (rule sort_unique) (use inv hosts in \<open>auto simp: model_inv_defs gmap_ok_def\<close>)
  moreover have "hostKeysV2 m = hostKeysV2 m'"
    unfolding hostKeysV2_def
    by (rule sort_unique) (use inv hostKeysV2_distinct hosts in simp_all)
  moreover have "rm_passthrough m = [] \<longleftrightarrow> rm_passthrough m' = []"
    using hosts(2) by (metis empty_set list.map_disc_iff set_empty)
  moreover have "rm_acme m = rm_acme m'" "rm_sticky m = rm_sticky m'"
    using same by (simp_all add: same_model_def)
  ultimately show ?thesis
    by (simp add: renderDoc_def renderUpstreams_def renderUpstreamsV2_def)
qed

lemma renderDoc_contents_only_witness:
  "let ab = fst (addRoute (fst (addRoute newRenderModel ''a'' ''/'' [] no_settings [] []))
               ''b'' ''/'' [] no_settings [] []);
       ba = fst (addRoute (fst (addRoute newRenderModel ''b'' ''/'' [] no_settings [] []))
               ''a'' ''/'' [] no_settings [] [])
   in rm_hosts ab \<noteq> rm_hosts ba \<and> renderDoc (\<lambda>_. True) ab = renderDoc (\<lambda>_. True) ba"
proof -
  define r where "r h m = fst (addRoute m h ''/'' [] no_settings [] [])" for h m
  have inv: "model_inv prt (r h m)" if "model_inv prt m" for prt h m
    unfolding r_def by (rule model_inv_ops(1)) (rule that)
  have "same_model (r ''b'' (r ''a'' newRenderModel)) (r ''a'' (r ''b'' newRenderModel))"
    by (auto simp: r_def addRoute_def storeRoute_eq same_model_def same_map_def host_paths_def
      newRenderModel_def ghas_def setSticky_def no_settings_def fun_eq_iff)
  then have "renderDoc (\<lambda>_. True) (r ''b'' (r ''a'' newRenderModel)) =
      renderDoc (\<lambda>_. True) (r ''a'' (r ''b'' newRenderModel))"
    by (intro renderDoc_contents_only inv model_inv_new)
  moreover have "rm_hosts (r ''b'' (r ''a'' newRenderModel)) \<noteq> rm_hosts (r ''a'' (r ''b'' newRenderModel))"
    unfolding r_def by code_simp
  ultimately show ?thesis unfolding r_def by (simp add: Let_def)
qed

section \<open>Line structure\<close>

named_theorems lines_intros \<open>how many lines a piece of the document has\<close>

definition lines_in :: "nat \<Rightarrow> string \<Rightarrow> bool" where
  "lines_in n s \<longleftrightarrow> (\<exists>ls. length ls = n \<and> s = concat (map ln ls) \<and> list_all clean ls)"

lemma lines_in_Nil [lines_intros]: "lines_in 0 []"
  by (simp add: lines_in_def)

lemma lines_in_ln [lines_intros]: "clean s \<Longrightarrow> lines_in 1 (ln s)"
  by (auto simp: lines_in_def intro!: exI [of _ "[s]"])

lemma lines_in_append [lines_intros]:
  assumes "lines_in n s" "lines_in k t"
  shows "lines_in (n + k) (s @ t)"
proof -
  obtain ls ks where "length ls = n" "s = concat (map ln ls)" "list_all clean ls"
    and "length ks = k" "t = concat (map ln ks)" "list_all clean ks"
    using assms by (auto simp: lines_in_def)
  then show ?thesis by (auto simp: lines_in_def intro!: exI [of _ "ls @ ks"])
qed

lemma lines_in_if [lines_intros]:
  "(b \<Longrightarrow> lines_in n s) \<Longrightarrow> (\<not> b \<Longrightarrow> lines_in k t) \<Longrightarrow> lines_in (if b then n else k) (if b then s else t)"
  by simp

lemma lines_in_concat [lines_intros]:
  "(\<And>x. x \<in> set xs \<Longrightarrow> lines_in (f x) (g x)) \<Longrightarrow> lines_in (sum_list (map f xs)) (concat (map g xs))"
  by (induction xs) (auto intro: lines_intros)

definition opt_count :: "'a option \<Rightarrow> nat" where
  "opt_count v = (case v of None \<Rightarrow> 0 | Some _ \<Rightarrow> 1)"

lemma lines_in_opt [lines_intros]:
  "clean key \<Longrightarrow> (\<And>x. clean (show x)) \<Longrightarrow> lines_in (opt_count v) (opt_line key show v)"
  by (auto simp: opt_line_def opt_count_def list_all_append intro: lines_in_Nil lines_in_ln [unfolded One_nat_def]
      split: option.split)

lemma clean_show_uint: "0 \<le> n \<Longrightarrow> clean (show_uint n)"
  using show_uint_digits [of n] by (auto simp: list_all_iff clean_char_def is_digit_def)

lemma clean_show_word [simp]: "clean (show_word w)"
  by (simp add: show_word_def clean_show_uint)

lemma clean_show_bool [simp]: "clean (show_bool b)"
  by (simp add: show_bool_def clean_char_def)

lemma clean_literals [simp]: "clean dq" "clean acme_key"
  by (simp_all add: clean_char_def acme_key_def)

lemma lines_in_cong: "lines_in n s \<Longrightarrow> n = k \<Longrightarrow> lines_in k s"
  by simp

lemma clean_append3 [simp]:
  "clean (s @ t) \<longleftrightarrow> clean s \<and> clean t" by (rule list_all_append)

text \<open>The number of lines each block has: a function of its shape, not of any string in it.\<close>

definition header_lines :: "'a list \<Rightarrow> nat" where
  "header_lines hs = (if hs = [] then 0 else 1 + length hs)"

definition redirect_lines :: "route_cfg \<Rightarrow> nat" where
  "redirect_lines rc =
     (if rc_redirect_status rc \<noteq> None \<and> rc_redirect_location rc \<noteq> [] then 3 else 0)"

definition route_lines_v1 :: "route_cfg \<Rightarrow> nat" where
  "route_lines_v1 rc =
     3 + length (rc_servers rc) + (if rc_match_expr rc \<noteq> [] then 1 else 0) +
     opt_count (rc_http2 rc) + opt_count (rc_force_https rc) + opt_count (rc_healthcheck rc) +
     opt_count (rc_disable_access_log rc) + opt_count (rc_connect_timeout rc) +
     opt_count (rc_read_timeout rc) + opt_count (rc_write_timeout rc) +
     opt_count (rc_idle_timeout rc) + opt_count (rc_max_body_size rc) + redirect_lines rc +
     header_lines (rc_req_headers rc) + header_lines (rc_resp_headers rc)"

definition cert_lines :: "render_model \<Rightarrow> string \<Rightarrow> nat" where
  "cert_lines m h = (if gstr (rm_host_cert m) h \<noteq> [] then 1 else 0)"

definition entry_lines :: "('v \<Rightarrow> nat) \<Rightarrow> ('k, 'v) gmap \<Rightarrow> 'k \<Rightarrow> nat" where
  "entry_lines f m k = (case gget m k of None \<Rightarrow> 0 | Some v \<Rightarrow> f v)"

definition host_lines_v1 :: "render_model \<Rightarrow> string \<Rightarrow> nat" where
  "host_lines_v1 m h = 2 + cert_lines m h +
     sum_list (map (entry_lines route_lines_v1 (host_paths m h)) (sorted_keys (host_paths m h)))"

definition doc_lines_v1 :: "render_model \<Rightarrow> nat" where
  "doc_lines_v1 m = 2 + (if rm_acme m \<noteq> [] then 5 else 0) + (if rm_sticky m then 1 else 0) +
     sum_list (map (host_lines_v1 m) (sorted_keys (rm_hosts m)))"

definition server_lines_v2 :: "backend list \<Rightarrow> nat" where
  "server_lines_v2 sv = (if length sv = 1 \<and> b_weight (hd sv) = 0 then 1 else 1 + length sv)"

definition route_lines_v2 :: "route_cfg \<Rightarrow> nat" where
  "route_lines_v2 rc =
     1 + server_lines_v2 (rc_servers rc) + (if rc_match_expr rc \<noteq> [] then 1 else 0) +
     opt_count (rc_ssl rc) + opt_count (rc_http2 rc) +
     (if rc_force_https rc = Some True then 1 else 0) +
     (if rc_healthcheck rc = Some True then 2 else 0) + opt_count (rc_disable_access_log rc) +
     opt_count (rc_max_body_size rc) + redirect_lines rc +
     (let t = opt_count (rc_connect_timeout rc) + opt_count (rc_read_timeout rc) +
              opt_count (rc_write_timeout rc) + opt_count (rc_idle_timeout rc)
      in if t = 0 then 0 else 1 + t) +
     (let n = header_lines (rc_req_headers rc) + header_lines (rc_resp_headers rc)
      in if n = 0 then 0 else 1 + n)"

definition host_lines_v2 :: "render_model \<Rightarrow> string \<Rightarrow> nat" where
  "host_lines_v2 m h =
     (if ghas (rm_passthrough m) h then 4
      else 4 + cert_lines m h +
        sum_list (map (entry_lines route_lines_v2 (host_paths m h)) (sorted_keys (host_paths m h))))"

definition doc_lines_v2 :: "render_model \<Rightarrow> nat" where
  "doc_lines_v2 m = 2 + (if rm_sticky m then 3 else 0) + (if rm_acme m \<noteq> [] then 3 else 0) +
     (if hostKeysV2 m = [] then 0 else 1 + sum_list (map (host_lines_v2 m) (hostKeysV2 m)))"

lemma clean_texts [simp]: "clean (CHR ''x'' # [])"
  by (simp add: clean_char_def)

lemma lines_in_headerList [lines_intros]:
  "clean key \<Longrightarrow> lines_in (header_lines hs) (writeHeaderList prt key hs)"
  "clean key \<Longrightarrow> lines_in (header_lines hs) (headerListV2 prt key hs)"
  unfolding writeHeaderList_def headerListV2_def
  by (rule lines_in_cong, (rule lines_intros | simp add: clean_char_def)+, simp add: header_lines_def sum_list_triv)+

lemma lines_in_redirect [lines_intros]: "lines_in (redirect_lines rc) (redirectLines prt rc)"
  unfolding redirectLines_def
  by (cases "rc_redirect_status rc"; simp only: option.case)
    (rule lines_in_cong, (rule lines_intros | simp add: clean_char_def)+, simp add: redirect_lines_def)+

lemma lines_in_serverV1 [lines_intros]: "lines_in 1 (serverLineV1 prt sv)"
  unfolding serverLineV1_def
  by (rule lines_in_cong, (rule lines_intros | simp add: clean_char_def)+)

lemma lines_in_serverV2 [lines_intros]: "lines_in 1 (serverLineV2 prt sv)"
  unfolding serverLineV2_def
  by (rule lines_in_cong, (rule lines_intros | simp add: clean_char_def)+)

lemma lines_in_cert [lines_intros]: "clean key \<Longrightarrow> lines_in (cert_lines m h) (certLine prt key m h)"
  unfolding certLine_def Let_def cert_lines_def
  by (rule lines_in_cong, (rule lines_intros | simp)+)

lemma lines_in_entry [lines_intros]:
  "(\<And>v. lines_in (f v) (g k v)) \<Longrightarrow> lines_in (entry_lines f m k) (entryBlock g m k)"
  by (simp add: entry_lines_def entryBlock_def lines_in_Nil split: option.split)

lemma lines_in_routeV1 [lines_intros]: "lines_in (route_lines_v1 rc) (routeBlockV1 prt p rc)"
  unfolding routeBlockV1_def
  by (rule lines_in_cong, (rule lines_intros | simp add: clean_char_def)+,
      simp add: route_lines_v1_def sum_list_triv)

lemma lines_in_hostV1 [lines_intros]: "lines_in (host_lines_v1 m h) (hostBlockV1 prt m h)"
  unfolding hostBlockV1_def
  by (rule lines_in_cong, (rule lines_intros | simp add: clean_char_def)+, simp add: host_lines_v1_def)

lemma lines_in_acme [lines_intros]:
  "lines_in (if acme \<noteq> [] then 5 else 0) (acmeBlockV1 prt acme)"
  unfolding acmeBlockV1_def
  by (rule lines_in_cong, (rule lines_intros | simp add: clean_char_def)+)

lemma lines_in_docV1: "lines_in (doc_lines_v1 m) (renderUpstreams prt m)"
  unfolding renderUpstreams_def doc_header_def
  by (rule lines_in_cong, (rule lines_intros | simp add: clean_char_def)+, simp add: doc_lines_v1_def)

lemma lines_in_serversV2 [lines_intros]:
  "lines_in (server_lines_v2 sv) (serversV2 prt sv)"
proof -
  have many: "lines_in (1 + length sv) (ln ''        upstreams:'' @ concat (map (serverLineV2 prt) sv))"
    by (rule lines_in_cong, (rule lines_intros | simp add: clean_char_def)+, simp add: sum_list_triv)
  have one: "lines_in 1 (ln (''        upstream: '' @ quote prt a))" for a
    by (rule lines_intros) (simp add: clean_char_def)
  consider "sv = []" | b where "sv = [b]" | b c bs where "sv = b # c # bs"
    by (cases sv rule: remdups_adj.cases) auto
  then show ?thesis using many one by cases (auto simp: serversV2_def server_lines_v2_def)
qed

lemma lines_in_timeouts [lines_intros]:
  "lines_in (let t = opt_count (rc_connect_timeout rc) + opt_count (rc_read_timeout rc) +
                opt_count (rc_write_timeout rc) + opt_count (rc_idle_timeout rc)
             in if t = 0 then 0 else 1 + t) (timeoutsV2 rc)"
  unfolding timeoutsV2_def Let_def
  by (rule lines_in_cong, (rule lines_intros | simp add: clean_char_def)+)
    (auto simp: opt_count_def split: option.splits)

lemma lines_in_headers [lines_intros]:
  "lines_in (let n = header_lines (rc_req_headers rc) + header_lines (rc_resp_headers rc)
             in if n = 0 then 0 else 1 + n) (headersV2 prt rc)"
  unfolding headersV2_def Let_def
  by (rule lines_in_cong, (rule lines_intros | simp add: clean_char_def)+) (auto simp: header_lines_def)

lemma lines_in_routeV2 [lines_intros]: "lines_in (route_lines_v2 rc) (routeBlockV2 prt p rc)"
  unfolding routeBlockV2_def writeRouteV2_def
  by (rule lines_in_cong, (rule lines_intros | simp add: clean_char_def)+, simp add: route_lines_v2_def)

lemma lines_in_hostV2 [lines_intros]: "lines_in (host_lines_v2 m h) (hostBlockV2 prt m h)"
  unfolding hostBlockV2_def
  by (cases "gget (rm_passthrough m) h"; simp only: option.case)
    (rule lines_in_cong, (rule lines_intros | simp add: clean_char_def)+,
      simp add: host_lines_v2_def ghas_def)+

lemma lines_in_docV2: "lines_in (doc_lines_v2 m) (renderUpstreamsV2 prt m)"
  unfolding renderUpstreamsV2_def doc_header_def
  by (rule lines_in_cong, (rule lines_intros | simp add: clean_char_def)+, simp add: doc_lines_v2_def)

text \<open>
  Claim C29. No string that comes from a cluster object can add, split or remove a line of the
  document: the document is a sequence of lines without control characters, and how many lines
  there are is determined by the shape of the model alone (hosts, routes, servers, headers,
  which settings are present).
\<close>

theorem renderDoc_lines:
  "\<exists>ls. renderDoc prt m = concat (map ln ls) \<and> list_all clean ls \<and>
     length ls = (if rm_passthrough m \<noteq> [] then doc_lines_v2 m else doc_lines_v1 m)"
  using lines_in_docV1 [of m prt] lines_in_docV2 [of m prt]
  by (auto simp: renderDoc_def lines_in_def)

end
