(* ===== verification/Reconcile.thy ===== *)
theory Reconcile
  imports Claims RenderYaml
begin

text \<open>
  A whole pass of controllers/ingress_controller.go: \<open>render\<close> lists, builds the model, projects
  the certificates, writes the document, and reports. The state of the process between passes
  is the file system, the stores behind the API client, the observations, the ready flag and
  the number of reload requests handed to the signaler.
\<close>

section \<open>State and output\<close>

record ('s, 'c) world =
  wd_fs :: fsys
  wd_secrets :: 's
  wd_cms :: 'c
  wd_obs :: obs
  wd_ready :: bool
  wd_reloads :: nat

definition usesCertsSecretOutput :: "ing_cfg \<Rightarrow> bool" where
  "usesCertsSecretOutput cfg \<longleftrightarrow> snd (cf_certs_secret cfg) \<noteq> []"

definition usesConfigMapOutput :: "ing_cfg \<Rightarrow> bool" where
  "usesConfigMapOutput cfg \<longleftrightarrow> snd (cf_out_cm cfg) \<noteq> []"

definition UpstreamsKey :: string where
  "UpstreamsKey = ''upstreams.yaml''"

definition ingressUpstreamsManagedLabel :: string where
  "ingressUpstreamsManagedLabel = ''synapse.gen0sec.com/ingress-upstreams''"

definition mutateUpstreams :: "string \<times> string \<Rightarrow> string \<Rightarrow> configmap option \<Rightarrow> configmap \<times> bool" where
  "mutateUpstreams key content cur =
     (let cm = (case cur of Some x \<Rightarrow> x
                | None \<Rightarrow> \<lparr>cm_ns = fst key, cm_name = snd key, cm_labels = [], cm_annotations = [],
                           cm_data = [], cm_binary = []\<rparr>);
          cm1 = cm\<lparr>cm_labels := gput ingressUpstreamsManagedLabel ''true'' (cm_labels cm)\<rparr>
      in if gget (cm_data cm1) UpstreamsKey = Some content then (cm1, False)
         else (cm1\<lparr>cm_data := gput UpstreamsKey content (cm_data cm1)\<rparr>, True))"

definition writeConfigMapIfChanged ::
  "('c, configmap) cou \<Rightarrow> ing_cfg \<Rightarrow> 'c \<Rightarrow> string \<Rightarrow> (string + bool) \<times> 'c" where
  "writeConfigMapIfChanged cou cfg w content =
     (case cou w (cf_out_cm cfg) (mutateUpstreams (cf_out_cm cfg) content) of
        (Inl e, w1) \<Rightarrow> (Inl e, w1)
      | (Inr (op, flag), w1) \<Rightarrow> (Inr (flag \<or> op = OpCreated), w1))"

section \<open>The pass\<close>

text \<open>The model of a pass and how many objects matched.\<close>

definition passModel ::
  "(int \<Rightarrow> bool) \<Rightarrow> ing_cfg \<Rightarrow> api \<Rightarrow> int \<Rightarrow> ingress list \<Rightarrow> obs \<Rightarrow> int \<times> render_model \<times> obs" where
  "passModel prt cfg a now ings o1 =
     (let st = renderIngresses prt cfg a ings (newRenderModel, o1);
          n = int (length (matchedIngs cfg a ings))
      in if cf_gateway_api cfg then
           (case renderGateways prt cfg a now st of (k, st') \<Rightarrow> (n + k, st'))
         else (n, st))"

definition projectStage ::
  "('s, secret) cou \<Rightarrow> ing_cfg \<Rightarrow> api \<Rightarrow> render_model \<Rightarrow> ('s, 'c) world \<Rightarrow> string option \<times> ('s, 'c) world" where
  "projectStage cou cfg a m w =
     (if usesCertsSecretOutput cfg then
        (case projectCertsToSecret cou cfg a m (wd_secrets w) (wd_obs w) of
           (r, s, o1) \<Rightarrow>
             (case r of Inl e \<Rightarrow> Some (''project certs to secret: '' @ e) | Inr _ \<Rightarrow> None,
              w\<lparr>wd_secrets := s, wd_obs := o1\<rparr>))
      else
        (case projectCerts cfg a m (wd_fs w) (wd_obs w) of
           (r, fs, o1) \<Rightarrow>
             (case r of Inl e \<Rightarrow> Some (''project certs: '' @ e) | Inr _ \<Rightarrow> None,
              w\<lparr>wd_fs := fs, wd_obs := o1\<rparr>)))"

definition writeStage ::
  "('c, configmap) cou \<Rightarrow> ing_cfg \<Rightarrow> string \<Rightarrow> ('s, 'c) world \<Rightarrow> (string + bool) \<times> ('s, 'c) world" where
  "writeStage cou cfg doc w =
     (if usesConfigMapOutput cfg then
        (case writeConfigMapIfChanged cou cfg (wd_cms w) doc of (r, c) \<Rightarrow>
           (case r of Inl e \<Rightarrow> Inl (''write configmap '' @ fst (cf_out_cm cfg) @ ''/'' @ snd (cf_out_cm cfg) @ '': '' @ e) | Inr ch \<Rightarrow> Inr ch, w\<lparr>wd_cms := c\<rparr>))
      else
        (case writeIfChanged (wd_fs w) (cf_out_path cfg) doc of (r, fs) \<Rightarrow>
           (case r of Inl e \<Rightarrow> Inl (''write '' @ cf_out_path cfg @ '': '' @ e) | Inr ch \<Rightarrow> Inr ch,
            w\<lparr>wd_fs := fs\<rparr>)))"

definition hostCount :: "render_model \<Rightarrow> int" where
  "hostCount m = int (length (rm_hosts m)) + int (length (rm_passthrough m))"

definition routeCount :: "render_model \<Rightarrow> int" where
  "routeCount m = int (sum_list (map (\<lambda>(_, ps). length ps) (rm_hosts m)))"

definition programmed :: "ing_cfg \<Rightarrow> int \<Rightarrow> int \<Rightarrow> obs \<Rightarrow> ingress \<Rightarrow> obs" where
  "programmed cfg hosts routes o1 ing =
     emit cfg (ing_ns ing) (ing_name ing) EventNormal ''Programmed''
       (''programmed into synapse upstreams ('' @ show_int hosts @ '' hosts, '' @ show_int routes @ '' routes)'') o1"

text \<open>What follows a successful write.\<close>

definition finishPass ::
  "ing_cfg \<Rightarrow> int \<Rightarrow> render_model \<Rightarrow> ingress list \<Rightarrow> bool \<Rightarrow> ('s, 'c) world \<Rightarrow> ('s, 'c) world" where
  "finishPass cfg now m matched changed w =
     (let o1 = set_gauge MLastRenderTS now (set_gauge MRoutes (routeCount m) (set_gauge MHosts (hostCount m) (wd_obs w)));
          o2 = (if changed then foldl (programmed cfg (hostCount m) (routeCount m)) (inc MRenderChangedTotal o1) matched
                else o1);
          o3 = publishStatus cfg matched o2;
          o4 = (if wd_ready w then o3 else set_gauge MReady 1 o3)
      in w\<lparr>wd_obs := o4, wd_ready := True,
           wd_reloads := wd_reloads w +
             (if changed \<and> cf_signal_reload cfg \<and> \<not> usesConfigMapOutput cfg then 1 else 0)\<rparr>)"

definition failPass :: "('s, 'c) world \<Rightarrow> ('s, 'c) world" where
  "failPass w = w\<lparr>wd_obs := inc MRenderErrTotal (wd_obs w)\<rparr>"

definition render ::
  "(int \<Rightarrow> bool) \<Rightarrow> ('s, secret) cou \<Rightarrow> ('c, configmap) cou \<Rightarrow> ing_cfg \<Rightarrow> api \<Rightarrow> int \<Rightarrow> ('s, 'c) world
    \<Rightarrow> (string + bool \<times> int \<times> int) \<times> ('s, 'c) world" where
  "render prt cs cc cfg a now w =
     (let w0 = w\<lparr>wd_obs := inc MRenderTotal (wd_obs w)\<rparr> in
      case list_ingresses a of
        None \<Rightarrow> (Inl ''list ingresses'', failPass w0)
      | Some ings \<Rightarrow>
          (case passModel prt cfg a now ings (wd_obs w0) of
             (matched, m, o1) \<Rightarrow>
               (case projectStage cs cfg a m (w0\<lparr>wd_obs := o1\<rparr>) of
                  (Some e, w1) \<Rightarrow> (Inl e, failPass w1)
                | (None, w1) \<Rightarrow>
                    (case writeStage cc cfg (renderDoc prt m) w1 of
                       (Inl e, w2) \<Rightarrow> (Inl e, failPass w2)
                     | (Inr changed, w2) \<Rightarrow>
                         (Inr (changed, matched, hostCount m),
                          finishPass cfg now m (matchedIngs cfg a ings) changed w2)))))"

text \<open>
  The entry points: a reconcile or a primer ignores the counts, an init container runs one pass and
  prints them.
\<close>

definition reconcilePass ::
  "(int \<Rightarrow> bool) \<Rightarrow> ('s, secret) cou \<Rightarrow> ('c, configmap) cou \<Rightarrow> ing_cfg \<Rightarrow> api \<Rightarrow> int \<Rightarrow> ('s, 'c) world
    \<Rightarrow> string option \<times> ('s, 'c) world" where
  "reconcilePass prt cs cc cfg a now w =
     (case render prt cs cc cfg a now w of
        (Inl e, w1) \<Rightarrow> (Some e, w1)
      | (Inr _, w1) \<Rightarrow> (None, w1))"

text \<open>\<open>renderPrimer.Start\<close> logs the error and returns none, so the manager keeps running.\<close>

definition primerStart ::
  "(int \<Rightarrow> bool) \<Rightarrow> ('s, secret) cou \<Rightarrow> ('c, configmap) cou \<Rightarrow> ing_cfg \<Rightarrow> api \<Rightarrow> int \<Rightarrow> ('s, 'c) world
    \<Rightarrow> string option \<times> ('s, 'c) world" where
  "primerStart prt cs cc cfg a now w = (None, snd (render prt cs cc cfg a now w))"

definition RenderOnce ::
  "(int \<Rightarrow> bool) \<Rightarrow> ('s, secret) cou \<Rightarrow> ('c, configmap) cou \<Rightarrow> ing_cfg \<Rightarrow> api \<Rightarrow> int \<Rightarrow> ('s, 'c) world
    \<Rightarrow> (string + int \<times> int) \<times> ('s, 'c) world" where
  "RenderOnce prt cs cc cfg a now w =
     (case render prt cs cc cfg a now w of
        (Inl e, w1) \<Rightarrow> (Inl e, w1)
      | (Inr (_, n, h), w1) \<Rightarrow> (Inr (n, h), w1))"

definition ReadyCheck :: "('s, 'c) world \<Rightarrow> string option" where
  "ReadyCheck w = (if wd_ready w then None else Some ''initial upstreams render not complete'')"

section \<open>The model invariant of a pass\<close>

definition pass_inv :: "(int \<Rightarrow> bool) \<Rightarrow> render_model \<Rightarrow> bool" where
  "pass_inv prt m \<longleftrightarrow> model_inv prt m \<and> stems_safe m"

lemma foldl_keeps: "P s \<Longrightarrow> (\<And>s x. P s \<Longrightarrow> x \<in> set xs \<Longrightarrow> P (f s x)) \<Longrightarrow> P (foldl f s xs)"
  by (induction xs arbitrary: s) simp_all

lemma pass_inv_new: "pass_inv prt newRenderModel"
  using model_inv_new by (simp add: pass_inv_def stems_safe_def newRenderModel_def)

lemma pass_inv_certs_frame: "model_inv prt m' \<Longrightarrow> rm_certs m' = rm_certs m \<Longrightarrow> pass_inv prt m \<Longrightarrow> pass_inv prt m'"
  by (simp add: pass_inv_def stems_safe_def)

lemma pass_inv_bindCert:
  assumes "pass_inv prt m"
  shows "pass_inv prt (bindCert ns n m h)"
proof -
  obtain stem b where c: "certStem h ns n = (stem, b)" by fastforce
  then have safe: "safe_stem stem"
    using sanitizeStem_chars by (auto simp: certStem_def safe_stem_def split: if_splits)
  let ?m = "addCert m (if b then h else []) stem ns n"
  have inv: "model_inv prt ?m" using assms model_inv_ops(4) by (simp add: pass_inv_def)
  have sub: "set (gkeys (rm_certs ?m)) \<subseteq> insert stem (set (gkeys (rm_certs m)))"
    by (auto simp: addCert_def Let_def set_gkeys_gput simp del: set_map)
  have "\<forall>st \<in> set (gkeys (rm_certs m)). safe_stem st" using assms by (simp add: pass_inv_def stems_safe_def)
  then have "\<forall>st \<in> set (gkeys (rm_certs ?m)). safe_stem st" using sub safe by blast
  moreover have "gmap_ok (rm_certs ?m)" using inv by (simp add: model_inv_def certs_inv_def)
  ultimately have "stems_safe ?m" unfolding stems_safe_def by blast
  then show ?thesis using inv by (simp add: bindCert_def c pass_inv_def)
qed

lemma pass_inv_tls:
  assumes "pass_inv prt m"
  shows "pass_inv prt (foldl (tlsEntry ing) m ts)"
  by (rule foldl_keeps [where P = "pass_inv prt", OF assms])
    (auto simp: tlsEntry_def intro!: foldl_keeps [where P = "pass_inv prt"] pass_inv_bindCert)

lemma pass_inv_sticky: "pass_inv prt m \<Longrightarrow> pass_inv prt (setSticky an m)"
  by (rule pass_inv_certs_frame) (simp_all add: pass_inv_def model_inv_setSticky model_frame)

lemma pass_inv_acme: "pass_inv prt m \<Longrightarrow> pass_inv prt (m\<lparr>rm_acme := x\<rparr>)"
  by (rule pass_inv_certs_frame) (simp_all add: pass_inv_def model_inv_sticky_acme)

lemma add_frame:
  "rm_certs (fst (addRoute m h p sv an rq rs)) = rm_certs m"
  "rm_certs (fst (addRegexRoute prt m h p sv an rq rs)) = rm_certs m"
  "rm_certs (fst (addPassthroughHost m h up)) = rm_certs m"
  by (simp_all add: addRoute_fst addRegexRoute_fst addPassthroughHost_def model_frame Let_def)

lemma pass_inv_claimRoute:
  assumes "pass_inv prt (fst st)"
  shows "pass_inv prt (fst (claimRoute prt cfg obj regex words path sv an rq rs st h))"
proof -
  have inv: "model_inv prt (fst st)" using assms by (simp add: pass_inv_def)
  have "pass_inv prt (fst (addRoute (fst st) h path sv an rq rs))"
    "pass_inv prt (fst (addRegexRoute prt (fst st) h path sv an rq rs))"
    by (rule pass_inv_certs_frame [OF model_inv_addRoute [OF inv] add_frame(1) assms])
      (rule pass_inv_certs_frame [OF model_inv_addRegexRoute [OF inv] add_frame(2) assms])
  then show ?thesis
    by (cases st) (auto simp: claimRoute_def split: prod.split)
qed

lemma pass_inv_ingressPath:
  assumes "pass_inv prt (fst st)"
  shows "pass_inv prt (fst (ingressPath prt cfg a ing an host st p))"
proof -
  obtain m o1 where st: "st = (m, o1)" by fastforce
  have m: "pass_inv prt m" using assms st by simp
  have hosts: "pass_inv prt (fst (claimHosts prt cfg ing rx host path sv an (m, ob)))" for rx path sv ob
    unfolding claimHosts_def Let_def
    by (rule foldl_keeps [where P = "\<lambda>s. pass_inv prt (fst s)"]) (simp_all add: pass_inv_claimRoute m)
  show ?thesis
    using m hosts pass_inv_acme [OF m]
    by (auto simp: ingressPath_def st Let_def split: prod.split option.split)
qed

lemma pass_inv_ingressRule:
  assumes "pass_inv prt (fst st)"
  shows "pass_inv prt (fst (ingressRule prt cfg a ing an st rule))"
proof -
  have inv: "model_inv prt (fst st)" using assms by (simp add: pass_inv_def)
  have "pass_inv prt (fst (addPassthroughHost (fst st) h up))" for h up
    by (rule pass_inv_certs_frame [OF model_inv_addPassthroughHost [OF inv] add_frame(3) assms])
  then have pass: "pass_inv prt (fst (passthroughRule prt cfg a ing h ps st))" for h ps
    using assms by (cases st) (auto simp: passthroughRule_def Let_def split: prod.split, metis fst_conv)
  have "pass_inv prt (fst (foldl (ingressPath prt cfg a ing an h) st ps))" for h ps
    by (rule foldl_keeps [where P = "\<lambda>s. pass_inv prt (fst s)"]) (simp_all add: pass_inv_ingressPath assms)
  then show ?thesis using assms pass by (auto simp: ingressRule_def split: option.split)
qed

lemma pass_inv_renderIngresses:
  assumes "pass_inv prt (fst st)"
  shows "pass_inv prt (fst (renderIngresses prt cfg a ings st))"
  unfolding renderIngresses_def
proof (rule foldl_keeps [where P = "\<lambda>s. pass_inv prt (fst s)"])
  fix s :: "render_model \<times> obs" and ing
  assume s: "pass_inv prt (fst s)"
  show "pass_inv prt (fst (ingressOne prt cfg a s ing))"
    unfolding ingressOne_def Let_def
    by (rule foldl_keeps [where P = "\<lambda>s. pass_inv prt (fst s)"])
      (simp_all add: pass_inv_tls pass_inv_sticky pass_inv_ingressRule s)
qed (rule assms)

lemma pass_inv_gatewayOne:
  assumes "pass_inv prt (fst st)"
  shows "pass_inv prt (fst (gatewayOne cfg now st gw))"
proof -
  have "pass_inv prt (foldl (refOne g h) m crs)" if "pass_inv prt m" for g h m crs
    by (rule foldl_keeps [where P = "pass_inv prt", OF that]) (simp add: refOne_def pass_inv_bindCert)
  then have "pass_inv prt (foldl (listenerOne gw) (fst st) (gw_listeners gw))"
    by (intro foldl_keeps [where P = "pass_inv prt", OF assms]) (simp add: listenerOne_def split: option.split)
  then show ?thesis by (simp add: gatewayOne_def Let_def split: prod.split)
qed

lemma pass_inv_routeRule:
  assumes "pass_inv prt (fst st)"
  shows "pass_inv prt (fst (routeRule prt cfg rt an st rule))"
proof -
  let ?P = "\<lambda>s. pass_inv prt (fst s)"
  have one: "?P (routePathHost prt cfg rt an sv rq rs path s h)" if "?P s" for sv rq rs path s h
    using that pass_inv_claimRoute [OF that] pass_inv_acme [OF that] by (simp add: routePathHost_def)
  have inner: "?P (foldl (routePathHost prt cfg rt an sv rq rs path) s hs)" if "?P s" for sv rq rs path s hs
    by (rule foldl_keeps [where P = ?P, OF that]) (rule one)
  have rx: "?P (foldl (claimRoute prt cfg obj rg wd path sv an rq rs) s hs)" if "?P s" for obj rg wd path sv rq rs s hs
    by (rule foldl_keeps [where P = ?P, OF that]) (rule pass_inv_claimRoute)
  show ?thesis
    using assms
    by (auto simp: routeRule_def Let_def split: prod.split
        intro!: foldl_keeps [where P = ?P and f = "\<lambda>s path. foldl (F path) s hs" for F hs] inner rx)
qed

lemma pass_inv_renderGateways:
  assumes "pass_inv prt (fst st)"
  shows "pass_inv prt (fst (snd (renderGateways prt cfg a now st)))"
proof -
  let ?P = "\<lambda>s. pass_inv prt (fst s)"
  have gws: "?P (foldl (gatewayOne cfg now) s gws)" if "?P s" for s gws
    by (rule foldl_keeps [where P = ?P, OF that]) (rule pass_inv_gatewayOne)
  have one: "?P (routeOne prt cfg now s rp)" if "?P s" for s rp
  proof -
    have "?P (foldl (routeRule prt cfg rt an) (setSticky an (fst s), snd s) rules)" for rt an rules
      by (rule foldl_keeps [where P = ?P]) (simp_all add: pass_inv_sticky that pass_inv_routeRule)
    then show ?thesis by (simp add: routeOne_def Let_def split: prod.split)
  qed
  have rts: "?P (foldl (routeOne prt cfg now) s rps)" if "?P s" for s rps
    by (rule foldl_keeps [where P = ?P, OF that]) (rule one)
  have st1: "?P (foldl (gatewayOne cfg now) (fst st, ob) gs)" for ob gs
    by (rule gws) (simp add: assms)
  show ?thesis
    using assms rts st1 by (auto simp: renderGateways_def Let_def split: option.split)
qed

lemma pass_inv_passModel: "pass_inv prt (fst (snd (passModel prt cfg a now ings o1)))"
proof -
  have "pass_inv prt (fst (renderIngresses prt cfg a ings (newRenderModel, o1)))"
    by (rule pass_inv_renderIngresses) (simp add: pass_inv_new)
  then show ?thesis
    using pass_inv_renderGateways [of prt "renderIngresses prt cfg a ings (newRenderModel, o1)" cfg a now]
    by (auto simp: passModel_def Let_def split: prod.split)
qed

text \<open>
  Claim C37. The model every pass renders is well-formed, whatever the cluster holds: every map
  has unique keys, a host in the route table has at least one route, no host is both terminated
  and passed through, a regex key and its match expression belong together, every host bound to
  a certificate names a scheduled one, and every certificate file stem has only safe characters.
\<close>

theorem passModel_invariant:
  "model_inv prt (fst (snd (passModel prt cfg a now ings o1))) \<and>
   stems_safe (fst (snd (passModel prt cfg a now ings o1)))"
  using pass_inv_passModel by (simp add: pass_inv_def)

section \<open>A pass runs its claims\<close>

definition registry0 :: "int \<Rightarrow> registry" where
  "registry0 n = \<lparr>rg_routes = (\<lambda>_. None), rg_pass = (\<lambda>_. None), rg_hosts = (\<lambda>_. False), rg_refused = n\<rparr>"

definition passClaims :: "(int \<Rightarrow> bool) \<Rightarrow> ing_cfg \<Rightarrow> api \<Rightarrow> ingress list \<Rightarrow> claim list" where
  "passClaims prt cfg a ings =
     concat (map (ingressClaims prt cfg a) (matchedIngs cfg a ings)) @
     (if cf_gateway_api cfg then gatewayClaims prt cfg a else [])"

lemma registry_of_new: "registry_of f (newRenderModel, o1) = registry0 (f o1)"
  by (simp add: registry_of_def registry0_def newRenderModel_def route_at_def host_paths_def fun_eq_iff)

context conflict_meter
begin

lemma passModel_run:
  "registry_of f (snd (passModel prt cfg a now ings o1)) = run_claims (registry0 (f o1)) (passClaims prt cfg a ings)"
proof -
  let ?st = "renderIngresses prt cfg a ings (newRenderModel, o1)"
  have i: "registry_of f ?st = run_claims (registry0 (f o1)) (concat (map (ingressClaims prt cfg a) (matchedIngs cfg a ings)))"
    using renderIngresses_refines [of prt a ings "(newRenderModel, o1)"] by (simp add: registry_of_new)
  obtain k st' where g: "renderGateways prt cfg a now ?st = (k, st')" by (metis prod.collapse)
  show ?thesis
    using i g renderGateways_refines [of prt a now ?st] by (simp add: passModel_def passClaims_def Let_def)
qed

end

text \<open>
  Claim C1. A render pass refines its specification: the claims of all matched Ingresses in
  name order, then those of the attached HTTPRoutes in name order, run against a registry that
  grants a claim when its host and key are free. The route table and the passthrough table of
  the model are exactly the registry's, and the conflict metric goes up by exactly the number
  of refused claims, so no route is lost silently.
\<close>

theorem passModel_refines:
  "registry_of (\<lambda>ob. metrics ob MRouteConflicts) (snd (passModel prt cfg a now ings o1)) =
   run_claims (registry0 (metrics o1 MRouteConflicts)) (passClaims prt cfg a ings)"
  by (rule metric.passModel_run)

text \<open>
  With an event recorder, each refused claim is also reported to its owner: the number
  of RouteConflict events a pass emits is the number of claims the registry refuses.
\<close>

theorem conflict_events_complete:
  "conflict_events (snd (snd (passModel prt (cfg\<lparr>cf_recorder := True\<rparr>) a now ings o1))) =
   rg_refused (run_claims (registry0 (conflict_events o1)) (passClaims prt (cfg\<lparr>cf_recorder := True\<rparr>) a ings))"
  unfolding reported.passModel_run [of prt cfg a now ings o1, symmetric] by (simp add: registry_of_def)

text \<open>
  Ingress beats Gateway: whatever HTTPRoutes exist, every route and every passthrough
  host the Ingresses obtain is in the final model unchanged, and each route that the model has
  beyond those comes from an HTTPRoute claim.
\<close>

theorem ingress_beats_gateway:
  "let m1 = fst (renderIngresses prt cfg a ings (newRenderModel, o1));
       m2 = fst (snd (passModel prt cfg a now ings o1))
   in (route_at m1 (h, k) = Some rc \<longrightarrow> route_at m2 (h, k) = Some rc) \<and>
      (gget (rm_passthrough m1) h = Some up \<longrightarrow> gget (rm_passthrough m2) h = Some up) \<and>
      (route_at m2 (h, k) = Some rc \<longrightarrow>
         route_at m1 (h, k) = Some rc \<or> ClRoute h k rc \<in> set (gatewayClaims prt cfg a))"
proof -
  let ?f = "\<lambda>ob. metrics ob MRouteConflicts"
  let ?st1 = "renderIngresses prt cfg a ings (newRenderModel, o1)"
  let ?st2 = "snd (passModel prt cfg a now ings o1)"
  let ?gw = "if cf_gateway_api cfg then gatewayClaims prt cfg a else []"
  let ?r1 = "registry_of ?f ?st1"
  have run: "registry_of ?f ?st2 = run_claims ?r1 ?gw"
    unfolding metric.passModel_run metric.renderIngresses_refines
    by (simp add: passClaims_def registry_of_new)
  have r: "route_at (fst st) = rg_routes (registry_of ?f st)" "gget (rm_passthrough (fst st)) = rg_pass (registry_of ?f st)"
    for st by (simp_all add: registry_of_def)
  have sub: "set ?gw \<subseteq> set (gatewayClaims prt cfg a)" by auto
  show ?thesis
    unfolding Let_def r run using run_claims_keeps [of ?r1] run_claims_origin [of ?r1 ?gw h k rc] sub by blast
qed

end
