(* ===== verification/PassSafety.thy ===== *)
theory PassSafety
  imports Reconcile
begin

text \<open>
  Properties of whole passes: the result does not depend on the order the API lists objects in,
  an error leaves the last good document in place, a pass over unchanged inputs is quiet, only
  the leader writes shared status, and two consequences of how list errors and the Gateway
  order are handled.
\<close>

section \<open>Independence of list order\<close>

text \<open>Answers that differ only in the order of the listed objects.\<close>

definition same_listing :: "('a \<Rightarrow> 'b) \<Rightarrow> 'a list option \<Rightarrow> 'a list option \<Rightarrow> bool" where
  "same_listing key xs ys \<longleftrightarrow>
     (case (xs, ys) of
        (Some us, Some vs) \<Rightarrow> mset us = mset vs \<and> distinct (map key us)
      | (None, None) \<Rightarrow> True
      | _ \<Rightarrow> False)"

definition same_slices :: "ep_slice list option \<Rightarrow> ep_slice list option \<Rightarrow> bool" where
  "same_slices xs ys \<longleftrightarrow>
     (case (xs, ys) of
        (Some us, Some vs) \<Rightarrow> mset (map slice_key us) = mset (map slice_key vs)
      | (None, None) \<Rightarrow> True
      | _ \<Rightarrow> False)"

definition same_answers :: "api \<Rightarrow> api \<Rightarrow> bool" where
  "same_answers a b \<longleftrightarrow>
     get_service a = get_service b \<and> get_secret a = get_secret b \<and>
     (\<forall>ns n. same_slices (list_slices a ns n) (list_slices b ns n)) \<and>
     same_listing ing_key (list_ingresses a) (list_ingresses b) \<and>
     same_listing ic_name (list_ingress_classes a) (list_ingress_classes b) \<and>
     list_gateway_classes a = list_gateway_classes b \<and> list_gateways a = list_gateways b \<and>
     same_listing rt_key (list_http_routes a) (list_http_routes b)"

lemma same_endpoints:
  assumes "same_answers a b"
  shows "endpointAddrs a = endpointAddrs b"
proof (intro ext)
  fix ns and s :: ingress_service
  have "same_slices (list_slices a ns (is_name s)) (list_slices b ns (is_name s))"
    using assms by (simp add: same_answers_def)
  then consider "list_slices a ns (is_name s) = None" "list_slices b ns (is_name s) = None"
    | xs ys where "list_slices a ns (is_name s) = Some xs" "list_slices b ns (is_name s) = Some ys"
        "mset (map slice_key xs) = mset (map slice_key ys)"
    by (auto simp: same_slices_def split: option.splits)
  then have "(case list_slices a ns (is_name s) of None \<Rightarrow> None
      | Some slices \<Rightarrow> (let addrs = sliceEndpointAddrs slices pn sp in if addrs = [] then None else Some addrs)) =
     (case list_slices b ns (is_name s) of None \<Rightarrow> None
      | Some slices \<Rightarrow> (let addrs = sliceEndpointAddrs slices pn sp in if addrs = [] then None else Some addrs))"
    for pn sp
  proof cases
    case (2 xs ys)
    then show ?thesis using sliceEndpointAddrs_perm [OF 2(3), of pn sp] by simp
  qed simp
  note slices = this
  have svc: "get_service a = get_service b" using assms by (simp add: same_answers_def)
  show "endpointAddrs a ns s = endpointAddrs b ns s"
    unfolding endpointAddrs_def svc slices by (rule refl)
qed

lemma same_backends:
  assumes "same_answers a b"
  shows "backendAddr cfg a = backendAddr cfg b" "backendServers cfg a = backendServers cfg b"
proof -
  have svc: "get_service a = get_service b" using assms by (simp add: same_answers_def)
  show addr: "backendAddr cfg a = backendAddr cfg b"
    by (intro ext) (unfold backendAddr_def svc, rule refl)
  show "backendServers cfg a = backendServers cfg b"
    by (intro ext) (unfold backendServers_def addr same_endpoints [OF assms], rule refl)
qed

lemma ingressOne_cong:
  assumes eq: "backendAddr cfg a = backendAddr cfg b" "backendServers cfg a = backendServers cfg b"
  shows "ingressOne prt cfg a = ingressOne prt cfg b"
proof -
  have first: "firstBackend cfg a ns ps = firstBackend cfg b ns ps" for ns ps
    by (induction ps) (simp_all add: eq split: option.split)
  have path: "ingressPath prt cfg a ing an h = ingressPath prt cfg b ing an h" for ing an h
    by (intro ext) (unfold ingressPath_def eq, rule refl)
  have pass: "passthroughRule prt cfg a ing h ps = passthroughRule prt cfg b ing h ps" for ing h ps
    by (intro ext) (unfold passthroughRule_def first, rule refl)
  have rule: "ingressRule prt cfg a ing an = ingressRule prt cfg b ing an" for ing an
    by (intro ext) (unfold ingressRule_def path pass, rule refl)
  show ?thesis by (intro ext) (unfold ingressOne_def rule, rule refl)
qed

lemma same_ingressOne: "same_answers a b \<Longrightarrow> ingressOne prt cfg a = ingressOne prt cfg b"
  by (rule ingressOne_cong) (erule same_backends)+

lemma same_default:
  assumes "same_answers a b"
  shows "defaultClassIsOurs a = defaultClassIsOurs b"
proof -
  have "same_listing ic_name (list_ingress_classes a) (list_ingress_classes b)"
    using assms by (simp add: same_answers_def)
  then show ?thesis
    by (auto simp: same_listing_def defaultClassIsOurs_def list_ex_iff split: option.splits dest!: mset_eq_setD)
qed

lemma same_matched:
  assumes "same_answers a b" "list_ingresses a = Some xs" "list_ingresses b = Some ys"
  shows "matchedIngs cfg a xs = matchedIngs cfg b ys"
proof -
  have "mset xs = mset ys" "distinct (map ing_key xs)"
    using assms by (auto simp: same_answers_def same_listing_def)
  then show ?thesis by (simp add: matchedIngs_def same_default [OF assms(1)] sort_key_perm)
qed

lemma same_gateways:
  assumes "same_answers a b"
  shows "renderGateways prt cfg a = renderGateways prt cfg b"
proof -
  have l: "same_listing rt_key (list_http_routes a) (list_http_routes b)"
    and gw: "list_gateway_classes a = list_gateway_classes b" "list_gateways a = list_gateways b"
    using assms by (simp_all add: same_answers_def)
  show ?thesis
  proof (cases "list_http_routes a")
    case None
    then have none: "list_http_routes b = None" using l by (simp add: same_listing_def split: option.splits)
    show ?thesis unfolding renderGateways_def gw None none by (rule refl)
  next
    case (Some xs)
    then obtain ys where ys: "list_http_routes b = Some ys" "mset xs = mset ys" "distinct (map rt_key xs)"
      using l by (auto simp: same_listing_def split: option.splits)
    have perm: "boundRoutes gws xs = boundRoutes gws ys" for gws
      using sort_key_perm [OF ys(2,3)] by (simp add: boundRoutes_def)
    show ?thesis
      unfolding renderGateways_def gw Some ys(1) option.case perm by (rule refl)
  qed
qed

lemma same_pairs:
  assumes "get_secret a = get_secret b"
  shows "tlsPair a m = tlsPair b m"
  by (intro ext) (unfold tlsPair_def assms, rule refl)

lemma same_projection:
  assumes "get_secret a = get_secret b"
  shows "projectCerts cfg a m = projectCerts cfg b m" "projectCertsToSecret cou cfg a m = projectCertsToSecret cou cfg b m"
proof -
  have loop: "projectLoop a m dir stems ch want s o1 = projectLoop b m dir stems ch want s o1" for dir stems ch want s o1
    by (induction stems arbitrary: ch want s o1)
      (simp_all add: same_pairs [OF assms] split: option.split sum.split prod.split)
  show "projectCerts cfg a m = projectCerts cfg b m"
    by (intro ext) (unfold projectCerts_def loop, rule refl)
  have data: "certData a m = certData b m" by (intro ext) (unfold certData_def same_pairs [OF assms], rule refl)
  show "projectCertsToSecret cou cfg a m = projectCertsToSecret cou cfg b m"
    by (intro ext) (unfold projectCertsToSecret_def data, rule refl)
qed

text \<open>
  Claim C24. Rendering is reproducible: when the API returns the same Ingresses, IngressClasses,
  HTTPRoutes and EndpointSlices in any other order, the whole pass is the same, document, files,
  events, status writes and metrics included.
\<close>

theorem render_order_free:
  assumes same: "same_answers a b"
  shows "render prt cs cc cfg a now w = render prt cs cc cfg b now w"
proof (cases "list_ingresses a")
  case None
  then have "list_ingresses b = None"
    using same by (auto simp: same_answers_def same_listing_def split: option.splits)
  then show ?thesis using None by (simp add: render_def)
next
  case (Some xs)
  then obtain ys where ys: "list_ingresses b = Some ys"
    using same by (auto simp: same_answers_def same_listing_def split: option.splits)
  note m = same_matched [OF same Some ys, of cfg]
  have pm: "passModel prt cfg a now xs = passModel prt cfg b now ys"
    by (intro ext)
      (unfold passModel_def renderIngresses_def m same_ingressOne [OF same] same_gateways [OF same], rule refl)
  have "get_secret a = get_secret b" using same by (simp add: same_answers_def)
  then have ps: "projectStage cs cfg a = projectStage cs cfg b"
    by (intro ext) (unfold projectStage_def same_projection [OF \<open>get_secret a = get_secret b\<close>], rule refl)
  show ?thesis unfolding render_def Some ys m option.case pm ps by (rule refl)
qed

section \<open>What a pass leaves alone\<close>

text \<open>
  An observation that the building of the model does not change: it ignores the reports of a
  pass, and the status writes too when the instance may do any.
\<close>

locale pass_frame =
  fixes cfg :: ing_cfg and g :: "obs \<Rightarrow> 'b"
  assumes reports: "k \<in> {MRouteConflicts, MBackendUnresolved, MUnsupportedMatch} \<Longrightarrow>
      g (warn cfg k ns n r msg o1) = g o1"
    and fallback: "g (inc MEndpointsFallbackTotal o1) = g o1"
    and status: "leader cfg \<Longrightarrow> g (status_update x o1) = g o1"
begin

lemma foldl_frame:
  assumes "\<And>s x. g (snd (f s x)) = g (snd s)"
  shows "g (snd (foldl f s xs)) = g (snd s)"
  using assms by (induction xs arbitrary: s) simp_all

lemma foldl_obs_frame:
  assumes "\<And>s x. g (f s x) = g s"
  shows "g (foldl f s xs) = g s"
  using assms by (induction xs arbitrary: s) simp_all

lemma servers_frame: "g (snd (backendServers cfg a ns b o1)) = g o1"
  by (auto simp: backendServers_def fallback split: option.split)

lemma claimRoute_frame: "g (snd (claimRoute prt cfg obj rx words path sv an rq rs st h)) = g (snd st)"
  by (cases st) (simp add: claimRoute_def reports split: prod.split)

lemma claimHosts_frame: "g (snd (claimHosts prt cfg ing rx h path sv an st)) = g (snd st)"
  unfolding claimHosts_def Let_def by (subst foldl_frame) (rule claimRoute_frame)+

lemma ingressPath_frame: "g (snd (ingressPath prt cfg a ing an h st p)) = g (snd st)"
proof -
  obtain m o1 where st: "st = (m, o1)" by fastforce
  obtain r o2 where r: "backendServers cfg a (ing_ns ing) (ip_backend p) o1 = (r, o2)" by fastforce
  then have "g o2 = g o1" using servers_frame [of a "ing_ns ing" "ip_backend p" o1] by simp
  then show ?thesis
    by (simp add: ingressPath_def st r Let_def claimHosts_frame reports split: option.split)
qed

lemma ingressRule_frame: "g (snd (ingressRule prt cfg a ing an st rule)) = g (snd st)"
proof -
  have "g (snd (passthroughRule prt cfg a ing h ps st)) = g (snd st)" for h ps
    by (cases st) (simp add: passthroughRule_def Let_def reports split: prod.split)
  moreover have "g (snd (foldl (ingressPath prt cfg a ing an h) st ps)) = g (snd st)" for h ps
    by (rule foldl_frame) (rule ingressPath_frame)
  ultimately show ?thesis by (simp add: ingressRule_def split: option.split)
qed

lemma renderIngresses_frame: "g (snd (renderIngresses prt cfg a ings st)) = g (snd st)"
  unfolding renderIngresses_def
proof (rule foldl_frame)
  fix s :: "render_model \<times> obs" and ing
  show "g (snd (ingressOne prt cfg a s ing)) = g (snd s)"
    unfolding ingressOne_def Let_def by (subst foldl_frame) (rule ingressRule_frame, simp)
qed

lemma routeRule_frame: "g (snd (routeRule prt cfg rt an st rule)) = g (snd st)"
proof -
  have bk: "g (snd (foldl (backendOne prt cfg rt w) acc brs)) = g (snd acc)" for w acc brs
    by (rule foldl_frame) (auto simp: backendOne_def reports Let_def split: option.split prod.split)
  obtain sv o1 where sv: "ruleBackends prt cfg rt rule (snd st) = (sv, o1)" by fastforce
  then have o1: "g o1 = g (snd st)"
    using bk [of _ "([], snd st)" "rr_backends rule"] by (metis ruleBackends_def snd_conv)
  have warns: "g (foldl (\<lambda>ob w. warn cfg MUnsupportedMatch (hr_ns rt) (hr_name rt) ''UnsupportedMatch'' w ob) p ws) = g p"
    for p ws by (rule foldl_obs_frame) (simp add: reports)
  have paths: "g (snd (foldl (\<lambda>s path. foldl (routePathHost prt cfg rt an sv rq rs path) s hs) s ps)) = g (snd s)"
    for rq rs hs s ps
    by (rule foldl_frame, rule foldl_frame) (simp add: routePathHost_def claimRoute_frame)
  have rxs: "g (snd (foldl (\<lambda>s rx. foldl (claimRoute prt cfg obj True words rx sv an rq rs) s hs) s rs')) = g (snd s)"
    for obj words rq rs hs s rs'
    by (rule foldl_frame, rule foldl_frame) (rule claimRoute_frame)
  show ?thesis
    unfolding routeRule_def Let_def sv prod.case
    by (simp add: o1 paths rxs warns split: prod.split)
qed

lemma renderGateways_frame: "g (snd (snd (renderGateways prt cfg a now st))) = g (snd st)"
proof -
  have classes: "g (foldl (classOne cfg now) p gcs) = g p" for p gcs
    by (rule foldl_obs_frame) (simp add: classOne_def status split: prod.split)
  have gws: "g (snd (foldl (gatewayOne cfg now) s gs)) = g (snd s)" for s gs
    by (rule foldl_frame) (simp add: gatewayOne_def Let_def status split: prod.split)
  have one: "g (snd (routeOne prt cfg now s rp)) = g (snd s)" for s rp
  proof -
    have "g (acceptRoute cfg now rt p ob) = g ob" for rt p ob by (simp add: acceptRoute_def Let_def status)
    moreover have "g (snd (foldl (routeRule prt cfg rt an) s' rules)) = g (snd s')" for rt an s' rules
      by (rule foldl_frame) (rule routeRule_frame)
    ultimately show ?thesis by (simp add: routeOne_def Let_def split: prod.split)
  qed
  have rts: "g (snd (foldl (routeOne prt cfg now) s rps)) = g (snd s)" for s rps
    by (rule foldl_frame) (rule one)
  show ?thesis
    by (simp add: renderGateways_def Let_def classes gws rts split: option.split)
qed

lemma passModel_frame: "g (snd (snd (passModel prt cfg a now ings o1))) = g o1"
proof -
  let ?st = "renderIngresses prt cfg a ings (newRenderModel, o1)"
  have "g (snd ?st) = g o1" using renderIngresses_frame by simp
  moreover have "g (snd (snd (renderGateways prt cfg a now ?st))) = g (snd ?st)" by (rule renderGateways_frame)
  ultimately show ?thesis
    by (cases "renderGateways prt cfg a now ?st") (auto simp: passModel_def Let_def)
qed

end

interpretation errs: pass_frame cfg "\<lambda>o1. metrics o1 MRenderErrTotal" for cfg
  by unfold_locales (auto simp: warn_def emit_def)

interpretation follower: pass_frame "cfg\<lparr>cf_leader := Some False\<rparr>" status_writes for cfg
  by unfold_locales (auto simp: warn_def emit_def leader_def)

lemma projectLoop_writes: "status_writes (snd (snd (projectLoop a m dir stems ch want s o1))) = status_writes o1"
  by (induction a m dir stems ch want s o1 rule: projectLoop.induct)
    (auto split: option.split sum.split prod.split)

lemma projectStage_writes: "status_writes (wd_obs (snd (projectStage cs cfg a m w))) = status_writes (wd_obs w)"
proof -
  have "status_writes (snd (snd (projectCerts cfg a m s o1))) = status_writes o1" for s o1
    using projectLoop_writes [of a m "cf_certs_dir cfg" "sorted_keys (rm_certs m)" False "[]"]
    by (auto simp: projectCerts_def split: prod.split sum.split)
      (metis snd_conv)+
  moreover have "status_writes (snd (foldl (certData a m) acc stems)) = status_writes (snd acc)" for acc stems
    by (induction stems arbitrary: acc) (auto simp: certData_def split: option.split prod.split)
  then have "status_writes (snd (snd (projectCertsToSecret cs cfg a m ws o1))) = status_writes o1" for ws o1
    by (auto simp: projectCertsToSecret_def Let_def split: prod.split sum.split) (metis snd_conv)+
  ultimately show ?thesis
    by (auto simp: projectStage_def split: prod.split) (metis snd_conv)+
qed

text \<open>The stages of a pass whose list call succeeds.\<close>

lemma render_stages:
  assumes "list_ingresses a = Some ings"
  obtains k m o1 r w1 r2 w2 where
    "passModel prt cfg a now ings (inc MRenderTotal (wd_obs w)) = (k, m, o1)"
    "projectStage cs cfg a m (w\<lparr>wd_obs := o1\<rparr>) = (r, w1)"
    "writeStage cc cfg (renderDoc prt m) w1 = (r2, w2)"
    "render prt cs cc cfg a now w =
       (case r of Some e \<Rightarrow> (Inl e, failPass w1)
        | None \<Rightarrow> (case r2 of Inl e \<Rightarrow> (Inl e, failPass w2)
                  | Inr ch \<Rightarrow> (Inr (ch, k, hostCount m), finishPass cfg now m (matchedIngs cfg a ings) ch w2)))"
proof -
  obtain k m o1 where pm: "passModel prt cfg a now ings (inc MRenderTotal (wd_obs w)) = (k, m, o1)"
    by (metis prod_cases3)
  obtain r w1 where ps: "projectStage cs cfg a m (w\<lparr>wd_obs := o1\<rparr>) = (r, w1)" by fastforce
  obtain r2 w2 where ws: "writeStage cc cfg (renderDoc prt m) w1 = (r2, w2)" by fastforce
  show thesis
    by (rule that [OF pm ps ws])
      (simp add: render_def assms pm ps ws split: option.split sum.split)
qed

lemma writeStage_obs: "wd_obs (snd (writeStage cc cfg doc v)) = wd_obs v"
  by (simp add: writeStage_def split: prod.split)

text \<open>
  Claim C39. Only the leader writes shared status: a pass of an instance whose leader gate is
  closed changes no Ingress, GatewayClass, Gateway or HTTPRoute status, in any mode and
  whatever else fails.
\<close>

theorem follower_writes_no_status:
  "status_writes (wd_obs (snd (render prt cs cc (cfg\<lparr>cf_leader := Some False\<rparr>) a now w))) =
   status_writes (wd_obs w)"
proof -
  let ?cfg = "cfg\<lparr>cf_leader := Some False\<rparr>"
  have prog: "status_writes (foldl (programmed ?cfg h r) ob ings) = status_writes ob" for h r ob ings
    by (induction ings arbitrary: ob) (simp_all add: programmed_def emit_def)
  have fin: "status_writes (wd_obs (finishPass ?cfg now m ings ch v)) = status_writes (wd_obs v)" for m ings ch v
    by (simp add: finishPass_def Let_def publishStatus_def leader_def prog)
  show ?thesis
  proof (cases "list_ingresses a")
    case None
    then show ?thesis by (simp add: render_def failPass_def)
  next
    case (Some ings)
    obtain k m o1 r w1 r2 w2 where st:
        "passModel prt ?cfg a now ings (inc MRenderTotal (wd_obs w)) = (k, m, o1)"
        "projectStage cs ?cfg a m (w\<lparr>wd_obs := o1\<rparr>) = (r, w1)"
        "writeStage cc ?cfg (renderDoc prt m) w1 = (r2, w2)"
        "render prt cs cc ?cfg a now w =
           (case r of Some e \<Rightarrow> (Inl e, failPass w1)
            | None \<Rightarrow> (case r2 of Inl e \<Rightarrow> (Inl e, failPass w2)
                      | Inr ch \<Rightarrow> (Inr (ch, k, hostCount m), finishPass ?cfg now m (matchedIngs ?cfg a ings) ch w2)))"
      by (rule render_stages [OF Some])
    have o1: "status_writes o1 = status_writes (wd_obs w)"
      using follower.passModel_frame [of prt cfg a now ings "inc MRenderTotal (wd_obs w)"] st(1) by simp
    have w1: "status_writes (wd_obs w1) = status_writes (wd_obs w)"
      using projectStage_writes [of cs ?cfg a m "w\<lparr>wd_obs := o1\<rparr>"] st(2) o1 by simp
    have w2: "status_writes (wd_obs w2) = status_writes (wd_obs w)"
      using writeStage_obs [of cc ?cfg "renderDoc prt m" w1] st(3) w1 by simp
    show ?thesis
      unfolding st(4) using w1 w2 by (simp add: failPass_def fin split: option.split sum.split)
  qed
qed

text \<open>The stages of a pass in file mode, for the files and the flags.\<close>

lemma projectStage_frame:
  assumes "stems_safe m" "projectStage cs cfg a m w = (r, w1)"
  shows "touches (certFiles (cf_certs_dir cfg)) (wd_fs w) (wd_fs w1)" "wd_ready w1 = wd_ready w" "wd_reloads w1 = wd_reloads w"
  using assms(2) projectCerts_touches [OF assms(1), of cfg "wd_fs w" a "wd_obs w"]
  by (auto simp: projectStage_def split: prod.splits if_splits)

lemma writeStage_file:
  assumes "\<not> usesConfigMapOutput cfg" "writeIfChanged (wd_fs w) (cf_out_path cfg) doc = (r, f)"
  shows "writeStage cc cfg doc w =
    (case r of Inl e \<Rightarrow> Inl (''write '' @ cf_out_path cfg @ '': '' @ e) | Inr ch \<Rightarrow> Inr ch, w\<lparr>wd_fs := f\<rparr>)"
  using assms by (simp add: writeStage_def)

lemma finishPass_file:
  assumes "\<not> usesConfigMapOutput cfg"
  shows "wd_fs (finishPass cfg now m ins ch v) = wd_fs v" "wd_ready (finishPass cfg now m ins ch v)"
    "wd_reloads (finishPass cfg now m ins ch v) = wd_reloads v + (if ch \<and> cf_signal_reload cfg then 1 else 0)"
  using assms by (simp_all add: finishPass_def Let_def)

lemma failPass_file: "wd_fs (failPass v) = wd_fs v" "wd_ready (failPass v) = wd_ready v" "wd_reloads (failPass v) = wd_reloads v"
  by (simp_all add: failPass_def)

text \<open>The effect of a pass in file mode.\<close>

lemma render_effect:
  assumes fmode: "\<not> usesConfigMapOutput cfg" and out: "cf_out_path cfg \<notin> certFiles (cf_certs_dir cfg)"
    and ings: "list_ingresses a = Some ings"
  shows "let old = gget (fs_files (wd_fs w)) (cf_out_path cfg);
             doc = renderDoc prt (fst (snd (passModel prt cfg a now ings (inc MRenderTotal (wd_obs w)))))
         in case render prt cs cc cfg a now w of (res, w') \<Rightarrow>
           reader_sees (cf_out_path cfg) (wd_fs w) (wd_fs w') {old, Some doc} \<and>
           (case res of
              Inl _ \<Rightarrow> gget (fs_files (wd_fs w')) (cf_out_path cfg) = old \<and> wd_ready w' = wd_ready w \<and>
                wd_reloads w' = wd_reloads w
            | Inr (changed, _, _) \<Rightarrow> gget (fs_files (wd_fs w')) (cf_out_path cfg) = Some doc \<and> wd_ready w' \<and>
                changed = (old \<noteq> Some doc) \<and>
                wd_reloads w' = wd_reloads w + (if changed \<and> cf_signal_reload cfg then 1 else 0))"
proof -
  obtain k m o1 r w1 r2 w2 where st:
      "passModel prt cfg a now ings (inc MRenderTotal (wd_obs w)) = (k, m, o1)"
      "projectStage cs cfg a m (w\<lparr>wd_obs := o1\<rparr>) = (r, w1)"
      "writeStage cc cfg (renderDoc prt m) w1 = (r2, w2)"
      "render prt cs cc cfg a now w =
         (case r of Some e \<Rightarrow> (Inl e, failPass w1)
          | None \<Rightarrow> (case r2 of Inl e \<Rightarrow> (Inl e, failPass w2)
                    | Inr ch \<Rightarrow> (Inr (ch, k, hostCount m), finishPass cfg now m (matchedIngs cfg a ings) ch w2)))"
    by (rule render_stages [OF ings])
  let ?p = "cf_out_path cfg"
  let ?old = "gget (fs_files (wd_fs w)) ?p" and ?doc = "renderDoc prt m"
  have safe: "stems_safe m" using pass_inv_passModel [of prt cfg a now ings] st(1) by (metis fst_conv pass_inv_def snd_conv)
  have t: "touches (certFiles (cf_certs_dir cfg)) (wd_fs w) (wd_fs w1)" and flags1: "wd_ready w1 = wd_ready w" "wd_reloads w1 = wd_reloads w"
    using projectStage_frame [OF safe st(2)] by simp_all
  have s1: "reader_sees ?p (wd_fs w) (wd_fs w1) {?old}" by (rule touches_reader [OF t out])
  then have old1: "gget (fs_files (wd_fs w1)) ?p = ?old" by (simp add: reader_sees_def)
  obtain r3 f where wr: "writeIfChanged (wd_fs w1) ?p ?doc = (r3, f)" by fastforce
  have w2: "w2 = w1\<lparr>wd_fs := f\<rparr>"
    and r2: "r2 = (case r3 of Inl e \<Rightarrow> Inl (''write '' @ ?p @ '': '' @ e) | Inr ch \<Rightarrow> Inr ch)"
    using st(3) writeStage_file [OF fmode wr] by auto
  note eff = writeIfChanged_effects [where s = "wd_fs w1" and path = ?p and content = ?doc, unfolded wr prod.case old1]
  have s2: "reader_sees ?p (wd_fs w) f {?old, Some ?doc}"
    using reader_sees_trans [OF s1] eff by fastforce
  have s1': "reader_sees ?p (wd_fs w) (wd_fs w1) {?old, Some ?doc}"
    using reader_sees_mono [OF s1] by blast
  note fin = finishPass_file [OF fmode] and fail = failPass_file
  show ?thesis
  proof (cases r)
    case (Some e)
    then show ?thesis unfolding st Let_def using s1' old1 flags1 by (simp add: fail)
  next
    case None
    show ?thesis
    proof (cases r3)
      case (Inl e)
      then show ?thesis
        unfolding st Let_def using None eff s2 flags1 r2 w2 by (simp add: fail)
    next
      case (Inr ch)
      then show ?thesis
        unfolding st Let_def using None eff s2 flags1 r2 w2 by (simp add: fin)
    qed
  qed
qed

text \<open>A pass that cannot list the Ingresses fails before it touches anything.\<close>

lemma render_unlisted:
  assumes "list_ingresses a = None" "render prt cs cc cfg a now w = (res, w')"
  shows "isl res" "wd_fs w' = wd_fs w" "wd_ready w' = wd_ready w" "wd_reloads w' = wd_reloads w"
  using assms by (auto simp: render_def failPass_def Let_def)

lemma reader_sees_refl: "reader_sees p s s {gget (fs_files s) p}"
  by (simp add: reader_sees_def)

text \<open>
  Claim C9. The outcome of a pass in file mode, the output apart from the certificate files, for
  every pattern of failures of the operations that change files, and whether or not the
  Ingresses can be listed: a concurrent reader of the upstreams file only ever meets the old
  content or the complete new document, the one of the model of the Ingresses that were
  listed. After an error, a failing listing of the Ingresses is one, the old content is in
  place, the ready flag is as it was and no reload is requested. A success means that the
  Ingresses were listed: the document of the pass's model is in place, the instance is ready,
  "changed" means the content differed, and a reload is requested exactly then (when reloads
  are enabled).
\<close>

theorem render_outcome:
  assumes fmode: "\<not> usesConfigMapOutput cfg" and out: "cf_out_path cfg \<notin> certFiles (cf_certs_dir cfg)"
  shows "let old = gget (fs_files (wd_fs w)) (cf_out_path cfg);
             doc = (\<lambda>ings. renderDoc prt (fst (snd (passModel prt cfg a now ings (inc MRenderTotal (wd_obs w))))))
         in case render prt cs cc cfg a now w of (res, w') \<Rightarrow>
           reader_sees (cf_out_path cfg) (wd_fs w) (wd_fs w')
             (insert old {Some (doc ings) |ings. list_ingresses a = Some ings}) \<and>
           (case res of
              Inl _ \<Rightarrow> gget (fs_files (wd_fs w')) (cf_out_path cfg) = old \<and> wd_ready w' = wd_ready w \<and>
                wd_reloads w' = wd_reloads w
            | Inr (changed, _, _) \<Rightarrow> (\<exists>ings. list_ingresses a = Some ings \<and>
                gget (fs_files (wd_fs w')) (cf_out_path cfg) = Some (doc ings) \<and> wd_ready w' \<and>
                changed = (old \<noteq> Some (doc ings)) \<and>
                wd_reloads w' = wd_reloads w + (if changed \<and> cf_signal_reload cfg then 1 else 0)))"
proof -
  obtain res w' where r: "render prt cs cc cfg a now w = (res, w')" by fastforce
  show ?thesis
  proof (cases "list_ingresses a")
    case None
    note u = render_unlisted [OF None r]
    then obtain e where "res = Inl e" by (cases res) auto
    then show ?thesis unfolding Let_def r by (simp add: u None reader_sees_refl)
  next
    case (Some ings)
    then show ?thesis
      using render_effect [OF fmode out Some, of w prt now cs cc] unfolding Let_def r
      by (cases res) (auto simp: insert_commute)
  qed
qed

section \<open>The model does not depend on the observations\<close>

definition agree ::
  "(render_model \<times> obs \<Rightarrow> render_model \<times> obs) \<Rightarrow> (render_model \<times> obs \<Rightarrow> render_model \<times> obs) \<Rightarrow> bool" where
  "agree f g \<longleftrightarrow> (\<forall>m p q. fst (f (m, p)) = fst (g (m, q)))"

abbreviation model_only :: "(render_model \<times> obs \<Rightarrow> render_model \<times> obs) \<Rightarrow> bool" where
  "model_only f \<equiv> agree f f"

lemma model_onlyD: "agree f g \<Longrightarrow> fst s = fst t \<Longrightarrow> fst (f s) = fst (g t)"
  by (cases s; cases t) (auto simp: agree_def)

lemma model_only_foldl:
  assumes "\<And>x. agree (\<lambda>s. f s x) (\<lambda>s. g s x)"
  shows "agree (\<lambda>s. foldl f s xs) (\<lambda>s. foldl g s xs)"
proof -
  have "fst (foldl f s xs) = fst (foldl g t xs)" if "fst s = fst t" for s t
    using that
  proof (induction xs arbitrary: s t)
    case (Cons x xs)
    have "fst (f s x) = fst (g t x)" using model_onlyD [OF assms Cons.prems] .
    from Cons.IH [OF this] show ?case by simp
  qed simp
  then show ?thesis by (simp add: agree_def)
qed

lemma claimRoute_only: "model_only (\<lambda>s. claimRoute prt cfg obj rx words path sv an rq rs s h)"
  by (simp add: agree_def claimRoute_def split: prod.split)

lemma claimHosts_only: "fst (claimHosts prt cfg ing rx h path sv an (m, p)) = fst (claimHosts prt cfg ing rx h path sv an (m, q))"
  unfolding claimHosts_def Let_def
  by (rule model_onlyD [OF model_only_foldl [OF claimRoute_only]]) (rule model_onlyD [OF claimRoute_only], simp)

lemma ingressPath_only: "model_only (\<lambda>s. ingressPath prt cfg a ing an h s x)"
  unfolding agree_def
proof (intro allI)
  fix m and p q :: obs
  obtain p' q' where b: "backendServers cfg a (ing_ns ing) (ip_backend x) p = (serversOf cfg a (ing_ns ing) (ip_backend x), p')"
      "backendServers cfg a (ing_ns ing) (ip_backend x) q = (serversOf cfg a (ing_ns ing) (ip_backend x), q')"
    using metric.servers_meter(1) by metis
  show "fst (ingressPath prt cfg a ing an h (m, p) x) = fst (ingressPath prt cfg a ing an h (m, q) x)"
    by (simp add: ingressPath_def b Let_def split: option.split) (intro allI impI conjI claimHosts_only)
qed

lemma ingressRule_only: "model_only (\<lambda>s. ingressRule prt cfg a ing an s rule)"
proof -
  have "model_only (\<lambda>s. foldl (ingressPath prt cfg a ing an h) s ps)" for h ps
    by (rule model_only_foldl) (rule ingressPath_only)
  moreover have "model_only (passthroughRule prt cfg a ing h ps)" for h ps
    by (simp add: agree_def passthroughRule_def Let_def split: prod.split)
  ultimately show ?thesis by (auto simp: agree_def ingressRule_def split: option.split)
qed

lemma ingressOne_only: "model_only (\<lambda>s. ingressOne prt cfg a s ing)"
  unfolding agree_def ingressOne_def Let_def
  by (intro allI model_onlyD [OF model_only_foldl [OF ingressRule_only]]) simp_all

lemma routeRule_only: "model_only (\<lambda>s. routeRule prt cfg rt an s rule)"
  unfolding agree_def
proof (intro allI)
  fix m and p q :: obs
  obtain sv p' where p: "ruleBackends prt cfg rt rule p = (sv, p')" by fastforce
  then obtain q' where q: "ruleBackends prt cfg rt rule q = (sv, q')"
    using metric.ruleBackends_meter(1) [of prt cfg rt rule p q] by (metis fst_conv prod.collapse)
  have host: "model_only (\<lambda>s. routePathHost prt cfg rt an sv' rq rs path s h)" for sv' rq rs path h
    using claimRoute_only [of prt cfg] by (simp add: agree_def routePathHost_def)
  have paths: "model_only (\<lambda>s. foldl (\<lambda>s path. foldl (routePathHost prt cfg rt an sv rq rs path) s hs) s ps)" for rq rs hs ps
    by (rule model_only_foldl, rule model_only_foldl) (rule host)
  have rxs: "model_only (\<lambda>s. foldl (\<lambda>s rx. foldl (claimRoute prt cfg obj True words rx sv an rq rs) s hs) s rxs)"
    for obj words rq rs hs rxs
    by (rule model_only_foldl, rule model_only_foldl) (rule claimRoute_only)
  show "fst (routeRule prt cfg rt an (m, p) rule) = fst (routeRule prt cfg rt an (m, q) rule)"
    unfolding routeRule_def snd_conv fst_conv p q prod.case Let_def
    by (simp split: prod.split) (intro allI impI model_onlyD [OF rxs] model_onlyD [OF paths], simp)
qed

lemma renderGateways_only:
  "fst (renderGateways prt cfg a now (m, p)) = fst (renderGateways prt cfg a now' (m, q)) \<and>
   fst (snd (renderGateways prt cfg a now (m, p))) = fst (snd (renderGateways prt cfg a now' (m, q)))"
proof -
  have gws: "agree (\<lambda>s. foldl (gatewayOne cfg now) s gs) (\<lambda>s. foldl (gatewayOne cfg now') s gs)" for gs
    by (rule model_only_foldl) (simp add: agree_def gatewayOne_def Let_def split: prod.split)
  have "agree (\<lambda>s. routeOne prt cfg now s rp) (\<lambda>s. routeOne prt cfg now' s rp)" for rp
  proof -
    have "model_only (\<lambda>s. foldl (routeRule prt cfg rt an) s rules)" for rt an rules
      by (rule model_only_foldl) (rule routeRule_only)
    then show ?thesis by (cases rp) (auto simp: agree_def routeOne_def Let_def)
  qed
  then have rts: "agree (\<lambda>s. foldl (routeOne prt cfg now) s rps) (\<lambda>s. foldl (routeOne prt cfg now') s rps)" for rps
    by (rule model_only_foldl)
  have g1: "fst (foldl (gatewayOne cfg now) (m, x) gs) = fst (foldl (gatewayOne cfg now') (m, y) gs)" for x y gs
    using gws by (simp add: agree_def)
  show ?thesis
    by (simp add: renderGateways_def Let_def split: option.split)
      (intro allI impI conjI g1 model_onlyD [OF rts])
qed

lemma passModel_only:
  "fst (passModel prt cfg a now ings p) = fst (passModel prt cfg a now' ings q)"
  "fst (snd (passModel prt cfg a now ings p)) = fst (snd (passModel prt cfg a now' ings q))"
proof -
  have "model_only (\<lambda>s. renderIngresses prt cfg a ings s)"
    unfolding renderIngresses_def by (rule model_only_foldl) (rule ingressOne_only)
  then obtain m p' q' where r: "renderIngresses prt cfg a ings (newRenderModel, p) = (m, p')"
      "renderIngresses prt cfg a ings (newRenderModel, q) = (m, q')"
    unfolding agree_def by (metis prod.collapse)
  show "fst (passModel prt cfg a now ings p) = fst (passModel prt cfg a now' ings q)"
    "fst (snd (passModel prt cfg a now ings p)) = fst (snd (passModel prt cfg a now' ings q))"
    using renderGateways_only [of prt cfg a now m p' now' q'] by (auto simp: passModel_def r Let_def split: prod.split)
qed

section \<open>A pass over unchanged inputs\<close>

definition out_apart :: "ing_cfg \<Rightarrow> bool" where
  "out_apart cfg \<longleftrightarrow> cf_out_path cfg \<notin> certFiles (cf_certs_dir cfg) \<and>
     cf_out_path cfg @ ''.tmp'' \<notin> certFiles (cf_certs_dir cfg)"

lemma settled_frame:
  assumes "touches P s s'" "P \<inter> certFiles (cf_certs_dir cfg) = {}" "settled cfg a m s"
  shows "settled cfg a m s'"
proof -
  have "dir_prefix (cf_certs_dir cfg) @ f \<notin> P" if "CHR ''/'' \<notin> set f" "cert_name f" for f
  proof -
    have "dir_prefix (cf_certs_dir cfg) @ f \<in> certFiles (cf_certs_dir cfg)"
      using cert_name_plain that by (auto simp: certFiles_def)
    then show ?thesis using assms(2) by blast
  qed
  then show ?thesis using assms(1,3) by (simp add: settled_def touches_def)
qed

text \<open>A pass that finds its document and its certificates in place.\<close>

lemma pass_settled:
  assumes fmode: "\<not> usesConfigMapOutput cfg" "\<not> usesCertsSecretOutput cfg" and ings: "list_ingresses a = Some ings"
    and m: "fst (snd (passModel prt cfg a later ings (inc MRenderTotal (wd_obs w')))) = m" and safe: "stems_safe m"
    and io: "fs_fates (wd_fs w') = []" and doc: "ReadFile (wd_fs w') (cf_out_path cfg) = Some (renderDoc prt m)"
    and certs: "cf_certs_dir cfg \<noteq> [] \<Longrightarrow> settled cfg a m (wd_fs w')"
  shows "\<exists>k h w''. render prt cs cc cfg a later w' = (Inr (False, k, h), w'') \<and> wd_fs w'' = wd_fs w' \<and>
    wd_reloads w'' = wd_reloads w'"
proof -
  obtain k' m' p1 q v1 q2 v2 where tt:
      "passModel prt cfg a later ings (inc MRenderTotal (wd_obs w')) = (k', m', p1)"
      "projectStage cs cfg a m' (w'\<lparr>wd_obs := p1\<rparr>) = (q, v1)"
      "writeStage cc cfg (renderDoc prt m') v1 = (q2, v2)"
      "render prt cs cc cfg a later w' =
         (case q of Some e \<Rightarrow> (Inl e, failPass v1)
          | None \<Rightarrow> (case q2 of Inl e \<Rightarrow> (Inl e, failPass v2)
                    | Inr ch \<Rightarrow> (Inr (ch, k', hostCount m'), finishPass cfg later m' (matchedIngs cfg a ings) ch v2)))"
    by (rule render_stages [OF ings])
  have same: "m' = m" using m tt(1) by simp
  have "\<exists>n p2. projectCerts cfg a m (wd_fs w') p1 = (Inr (False, n), wd_fs w', p2)"
    using projectCerts_settled [OF _ safe io certs] by (cases "cf_certs_dir cfg = []") (simp_all add: projectCerts_def)
  then have v1: "q = None" "wd_fs v1 = wd_fs w'" "wd_reloads v1 = wd_reloads w'"
    using tt(2) fmode by (auto simp: same projectStage_def)
  have "q2 = Inr False" "wd_fs v2 = wd_fs w'" "wd_reloads v2 = wd_reloads w'"
    using tt(3) fmode doc v1 by (auto simp: same writeStage_def writeIfChanged_def)
  then show ?thesis using tt(4) v1 by (simp add: finishPass_def Let_def)
qed

text \<open>
  Claim C21. The operator does not wake the proxy for nothing: after a successful pass in file
  mode in which no file operation failed, another pass, at any later time, over the same
  answers of the API writes no file at all, reports no change and requests no reload.
\<close>

theorem render_quiet:
  assumes fmode: "\<not> usesConfigMapOutput cfg" "\<not> usesCertsSecretOutput cfg" and out: "out_apart cfg"
    and ings: "list_ingresses a = Some ings" and io: "fs_fates (wd_fs w) = []"
    and run: "render prt cs cc cfg a now w = (Inr res, w')"
  shows "\<exists>k h w''. render prt cs cc cfg a later w' = (Inr (False, k, h), w'') \<and> wd_fs w'' = wd_fs w' \<and>
    wd_reloads w'' = wd_reloads w'"
proof -
  obtain k m o1 r w1 r2 w2 where st:
      "passModel prt cfg a now ings (inc MRenderTotal (wd_obs w)) = (k, m, o1)"
      "projectStage cs cfg a m (w\<lparr>wd_obs := o1\<rparr>) = (r, w1)"
      "writeStage cc cfg (renderDoc prt m) w1 = (r2, w2)"
      "render prt cs cc cfg a now w =
         (case r of Some e \<Rightarrow> (Inl e, failPass w1)
          | None \<Rightarrow> (case r2 of Inl e \<Rightarrow> (Inl e, failPass w2)
                    | Inr ch \<Rightarrow> (Inr (ch, k, hostCount m), finishPass cfg now m (matchedIngs cfg a ings) ch w2)))"
    by (rule render_stages [OF ings])
  obtain ch where r: "r = None" "r2 = Inr ch" and w': "wd_fs w' = wd_fs w2"
    using run unfolding st(4) by (auto simp: finishPass_def Let_def split: option.splits sum.splits)
  have same: "fst (snd (passModel prt cfg a later ings (inc MRenderTotal (wd_obs w')))) = m"
    using passModel_only(2) [of prt cfg a now ings] st(1) by (metis fst_conv snd_conv)
  have safe: "stems_safe m" using pass_inv_passModel [of prt cfg a now ings] st(1) by (metis fst_conv pass_inv_def snd_conv)
  let ?p = "cf_out_path cfg" and ?dir = "cf_certs_dir cfg"
  obtain pr where p1: "projectCerts cfg a m (wd_fs w) o1 = (pr, wd_fs w1, wd_obs w1)"
    using st(2) fmode by (auto simp: projectStage_def split: prod.splits)
  obtain r3 where wr: "writeIfChanged (wd_fs w1) ?p (renderDoc prt m) = (r3, wd_fs w2)" "r3 = Inr ch"
    using st(3) fmode r by (auto simp: writeStage_def split: prod.splits sum.splits)
  note eff = writeIfChanged_effects [where s = "wd_fs w1" and path = ?p and content = "renderDoc prt m",
      unfolded wr prod.case sum.case]
  have there: "ReadFile (wd_fs w') ?p = Some (renderDoc prt m)" using eff by (simp add: ReadFile_def w')
  have t1: "touches (certFiles ?dir) (wd_fs w) (wd_fs w1)"
    using projectCerts_touches [OF safe, of cfg "wd_fs w" a o1] p1 by simp
  then have f: "fs_fates (wd_fs w1) = []" "fs_fates (wd_fs w') = []"
    using io eff by (auto simp: touches_def w')
  have "settled cfg a m (wd_fs w')" if d: "?dir \<noteq> []"
    using settled_frame [of "{?p, ?p @ ''.tmp''}" "wd_fs w1" "wd_fs w'" cfg a m] projectCerts_settles [OF d safe io p1] eff out
    by (auto simp: out_apart_def w')
  then show ?thesis by (rule pass_settled [OF fmode ings same safe f(2) there])
qed

section \<open>Status conditions\<close>

lemma replaceFirst_None: "replaceFirst P y xs = None \<longleftrightarrow> \<not> list_ex P xs"
  by (induction xs) auto

lemma replaceFirst_Some:
  "replaceFirst P y xs = Some ys \<Longrightarrow> P y \<Longrightarrow> y \<in> set ys \<and> filter (\<lambda>x. \<not> P x) ys = filter (\<lambda>x. \<not> P x) xs"
  by (induction xs arbitrary: ys) (auto split: if_splits)

definition cond_holds :: "condition list \<Rightarrow> string \<Rightarrow> int \<Rightarrow> bool" where
  "cond_holds cs t gen \<longleftrightarrow>
     (\<exists>c \<in> set cs. cond_type c = t \<and> cond_status c = ''True'' \<and> cond_generation c = gen)"

text \<open>
  \<open>ensureCond\<close> converges: afterwards the condition is True at the wanted generation,
  conditions of other types are as they were, it reports a change exactly when the condition
  did not hold, and asking again, at any later time, changes nothing, so an unchanged object is
  not updated again.
\<close>

theorem ensureCond_converges:
  "case ensureCond now conds gen t reason msg of (cs, changed) \<Rightarrow>
     cond_holds cs t gen \<and> changed = (\<not> cond_holds conds t gen) \<and>
     filter (\<lambda>c. cond_type c \<noteq> t) cs = filter (\<lambda>c. cond_type c \<noteq> t) conds \<and>
     ensureCond later cs gen t reason' msg' = (cs, False)"
proof -
  have ex: "list_ex (\<lambda>c. cond_type c = t \<and> cond_status c = ''True'' \<and> cond_generation c = gen) cs = cond_holds cs t gen" for cs
    by (simp add: list_ex_iff cond_holds_def)
  let ?c = "\<lparr>cond_type = t, cond_status = ''True'', cond_reason = reason, cond_message = msg,
      cond_generation = gen, cond_time = now\<rparr>"
  show ?thesis
  proof (cases "cond_holds conds t gen")
    case True
    then show ?thesis by (simp add: ensureCond_def ex)
  next
    case no: False
    show ?thesis
    proof (cases "replaceFirst (\<lambda>x. cond_type x = t) ?c conds")
      case None
      have "cond_holds (conds @ [?c]) t gen" by (simp add: cond_holds_def)
      then show ?thesis using no None by (simp add: ensureCond_def ex Let_def)
    next
      case (Some cs)
      then have r: "?c \<in> set cs" "filter (\<lambda>c. cond_type c \<noteq> t) cs = filter (\<lambda>c. cond_type c \<noteq> t) conds"
        using replaceFirst_Some [of "\<lambda>x. cond_type x = t" ?c conds cs] by simp_all
      have "cond_holds cs t gen"
        unfolding cond_holds_def by (rule bexI [OF _ r(1)]) simp
      then show ?thesis using no Some r by (simp add: ensureCond_def ex Let_def)
    qed
  qed
qed

section \<open>Consequences worth knowing\<close>

text \<open>
  A failing list call of the Gateway API is not an error of the pass: the model is
  built from the Ingresses alone, every route of every HTTPRoute is dropped from the document,
  and the error counter does not move.
\<close>

theorem gateway_list_error_drops_routes:
  assumes "list_http_routes a = None \<or> list_gateways a = None \<or> list_gateway_classes a = None"
  shows "route_at (fst (snd (passModel prt cfg a now ings o1))) =
      route_at (fst (renderIngresses prt cfg a ings (newRenderModel, o1))) \<and>
    metrics (snd (snd (passModel prt cfg a now ings o1))) MRenderErrTotal = metrics o1 MRenderErrTotal"
proof -
  let ?f = "\<lambda>ob. metrics ob MRouteConflicts"
  have "gatewayClaims prt cfg a = []"
    using assms by (auto simp: gatewayClaims_def passRoutes_def split: option.split)
  then have "registry_of ?f (snd (passModel prt cfg a now ings o1)) =
      registry_of ?f (renderIngresses prt cfg a ings (newRenderModel, o1))"
    unfolding metric.passModel_run metric.renderIngresses_refines
    by (simp add: passClaims_def registry_of_new)
  moreover have "route_at (fst st) = rg_routes (registry_of ?f st)" for st by (simp add: registry_of_def)
  ultimately show ?thesis using errs.passModel_frame by metis
qed

end
