(* ===== verification/Scenario.thy ===== *)
theory Scenario
  imports PassSafety
begin

text \<open>
  A concrete cluster on which the properties of whole passes are exercised: one Ingress, one
  Gateway of our class and one HTTPRoute, both claiming the same host.
\<close>

definition webBackend :: ingress_backend where
  "webBackend = \<lparr>ib_service = Some \<lparr>is_name = ''web'', is_port_name = [], is_port_number = 80\<rparr>\<rparr>"

definition webIngress :: ingress where
  "webIngress = \<lparr>ing_ns = ''ns'', ing_name = ''web'', ing_annotations = [], ing_class = Some ''synapse'',
     ing_default_backend = None, ing_tls = [],
     ing_rules = [\<lparr>ir_host = ''a.io'',
       ir_http = Some [\<lparr>ip_path = ''/'', ip_type = Some ''Prefix'', ip_backend = webBackend\<rparr>]\<rparr>],
     ing_lb = []\<rparr>"

definition ourClass :: gateway_class where
  "ourClass = \<lparr>gc_name = ''synapse'', gc_controller = ControllerName, gc_generation = 1, gc_conditions = []\<rparr>"

definition gatewayWith :: "string \<Rightarrow> string \<Rightarrow> gateway" where
  "gatewayWith name secret = \<lparr>gw_ns = ''ns'', gw_name = name, gw_class = ''synapse'', gw_generation = 1,
     gw_listeners = [\<lparr>li_hostname = Some ''a.io'', li_tls = Some \<lparr>lt_mode = None,
       lt_refs = [\<lparr>cr_kind = None, cr_namespace = None, cr_name = secret\<rparr>]\<rparr>\<rparr>],
     gw_conditions = []\<rparr>"

definition webRoute :: http_route where
  "webRoute = \<lparr>hr_ns = ''ns'', hr_name = ''r'', hr_annotations = [], hr_generation = 1,
     hr_parents = [\<lparr>pr_kind = None, pr_namespace = None, pr_name = ''gw''\<rparr>], hr_hostnames = [''a.io''],
     hr_rules = [\<lparr>rr_matches = [], rr_filters = [],
       rr_backends = [\<lparr>br_kind = None, br_namespace = None, br_name = ''other'', br_port = Some 80, br_weight = None\<rparr>]\<rparr>],
     hr_status = []\<rparr>"

definition webApi :: api where
  "webApi = no_api\<lparr>list_ingresses := Some [webIngress], list_gateway_classes := Some [ourClass],
     list_gateways := Some [gatewayWith ''gw'' ''tls''], list_http_routes := Some [webRoute]\<rparr>"

definition webCfg :: ing_cfg where
  "webCfg = cfg0\<lparr>cf_gateway_api := True\<rparr>"

definition ipr :: "int \<Rightarrow> bool" where
  "ipr r = True"

lemma webRoute_taken:
  "map_option (map b_addr \<circ> rc_servers)
     (route_at (fst (renderIngresses ipr webCfg webApi [webIngress] (newRenderModel, obs0))) (''a.io'', ''/'')) =
   Some [''web.ns.svc.cluster.local:80'']"
  by code_simp

lemma ingress_beats_gateway_witness:
  "map_option (map b_addr \<circ> rc_servers)
     (route_at (fst (snd (passModel ipr webCfg webApi 5 [webIngress] obs0))) (''a.io'', ''/'')) =
   Some [''web.ns.svc.cluster.local:80'']"
proof -
  obtain rc where rc: "route_at (fst (renderIngresses ipr webCfg webApi [webIngress] (newRenderModel, obs0)))
      (''a.io'', ''/'') = Some rc" "map b_addr (rc_servers rc) = [''web.ns.svc.cluster.local:80'']"
    using webRoute_taken by (auto simp: comp_def)
  then show ?thesis
    using ingress_beats_gateway [of ipr webCfg webApi "[webIngress]" obs0 5 "''a.io''" "''/''" rc] by (simp add: Let_def)
qed

definition webIngress2 :: ingress where
  "webIngress2 = webIngress\<lparr>ing_name := ''web2''\<rparr>"

definition worldOf :: "fsys \<Rightarrow> (string \<times> string \<Rightarrow> secret option, string \<times> string \<Rightarrow> configmap option) world" where
  "worldOf fs = \<lparr>wd_fs = fs, wd_secrets = (\<lambda>_. None), wd_cms = (\<lambda>_. None), wd_obs = obs0,
     wd_ready = False, wd_reloads = 0\<rparr>"

lemma render_order_free_witness:
  "render ipr mem_cou mem_cou webCfg (webApi\<lparr>list_ingresses := Some [webIngress, webIngress2]\<rparr>) 5 (worldOf dirState) =
   render ipr mem_cou mem_cou webCfg (webApi\<lparr>list_ingresses := Some [webIngress2, webIngress]\<rparr>) 5 (worldOf dirState)"
  by (rule render_order_free)
    (simp add: same_answers_def same_slices_def same_listing_def webApi_def no_api_def ing_key_def webIngress2_def
      webIngress_def)

lemma webCfg_facts:
  "\<not> usesConfigMapOutput webCfg" "\<not> usesCertsSecretOutput webCfg" "out_apart webCfg"
  "list_ingresses webApi = Some [webIngress]" "cf_out_path webCfg = ''/out/upstreams.yaml''" "cf_certs_dir webCfg = []"
proof -
  have "cf_out_path webCfg = ''/out/upstreams.yaml''" "cf_certs_dir webCfg = []" "dir_prefix [] = []"
    by (simp_all add: webCfg_def cfg0_def dir_prefix_def Clean_def path_comps_def path_rooted_def path_push_def)
  then show "out_apart webCfg" by (auto simp: out_apart_def certFiles_def plain_name_def)
qed (simp_all add: usesConfigMapOutput_def usesCertsSecretOutput_def webCfg_def cfg0_def webApi_def)

definition failing :: "fate list \<Rightarrow> (string \<times> string \<Rightarrow> secret option, string \<times> string \<Rightarrow> configmap option) world" where
  "failing fates = worldOf (dirState\<lparr>fs_fates := fates\<rparr>)"

text \<open>Without a certificate directory the outcome of a pass does not depend on its model.\<close>

lemma put_prefixes_files:
  "fs_fates (put_prefixes n p c s) = fs_fates s"
  "gget (fs_files (put_prefixes n p c s)) = (gget (fs_files s))(p \<mapsto> take n c)"
  using put_prefixes_eq by blast+

lemmas opaque_pass = render_def projectStage_def projectCerts_def writeStage_def writeIfChanged_def ReadFile_def
  MkdirAll_def WriteFile_def Rename_def next_fate_def failing_def worldOf_def dirState_def Let_def webCfg_facts
  put_prefixes_files set_files_def

lemma render_outcome_witness:
  "fst (render ipr mem_cou mem_cou webCfg webApi 5 (failing [Succeeds, Fails None])) =
     Inl ''write /out/upstreams.yaml: write'' \<and>
   gget (fs_files (wd_fs (snd (render ipr mem_cou mem_cou webCfg webApi 5 (failing [Succeeds, Fails None])))))
     ''/out/upstreams.yaml'' = None"
proof -
  let ?r = "render ipr mem_cou mem_cou webCfg webApi 5 (failing [Succeeds, Fails None])"
  have e: "fst ?r = Inl ''write /out/upstreams.yaml: write''"
    by (simp add: opaque_pass split: prod.splits)
  have old: "gget (fs_files (wd_fs (failing [Succeeds, Fails None]))) ''/out/upstreams.yaml'' = None"
    by (simp add: failing_def worldOf_def dirState_def)
  have out: "cf_out_path webCfg \<notin> certFiles (cf_certs_dir webCfg)"
    using webCfg_facts(3) by (simp add: out_apart_def)
  show ?thesis
    using e old render_outcome [OF webCfg_facts(1) out, of "failing [Succeeds, Fails None]" ipr webApi 5 mem_cou mem_cou]
    by (cases ?r) (simp add: webCfg_facts Let_def)
qed

lemma render_quiet_witness:
  "\<exists>k h w. render ipr mem_cou mem_cou webCfg webApi 6 (snd (render ipr mem_cou mem_cou webCfg webApi 5 (worldOf dirState))) =
     (Inr (False, k, h), w)"
proof -
  let ?r = "render ipr mem_cou mem_cou webCfg webApi 5 (worldOf dirState)"
  have "\<not> isl (fst ?r)" by (simp add: opaque_pass split: prod.splits)
  then obtain res where "?r = (Inr res, snd ?r)" by (cases ?r; cases "fst ?r") auto
  moreover have "fs_fates (wd_fs (worldOf dirState)) = []" by (simp add: worldOf_def dirState_def)
  ultimately show ?thesis
    using render_quiet [OF webCfg_facts(1-4), of "worldOf dirState" ipr mem_cou mem_cou 5 res "snd ?r" 6] by blast
qed

lemma gateway_list_error_drops_routes_witness:
  "route_at (fst (snd (passModel ipr webCfg (webApi\<lparr>list_http_routes := None\<rparr>) 5 [] obs0))) = (\<lambda>_. None)"
  using gateway_list_error_drops_routes [of "webApi\<lparr>list_http_routes := None\<rparr>" ipr webCfg 5 "[]" obs0]
  by (simp add: renderIngresses_def matchedIngs_def newRenderModel_def route_at_def host_paths_def fun_eq_iff)

text \<open>
  Certificate references of Gateways are applied in the order the API lists the
  Gateways in, unlike every other source: with two Gateways that reference different Secrets
  for one host, the order of the listing decides which certificate the host serves.
\<close>

theorem gateway_certs_order_dependent:
  "let gws = [gatewayWith ''gw'' ''tls1'', gatewayWith ''gx'' ''tls2''];
       cert = (\<lambda>gs. map_option cp_name (gget (rm_certs (fst (snd (passModel ipr webCfg
                 (webApi\<lparr>list_gateways := Some gs\<rparr>) 5 [] obs0)))) ''a.io''))
   in cert gws = Some ''tls1'' \<and> cert (rev gws) = Some ''tls2''"
  unfolding Let_def by code_simp

end
