(* ===== verification/Signal.thy ===== *)
theory Signal
  imports FileSys
begin

text \<open>
  controllers/signal.go: finding the co-located proxy process, the reload debouncer as a step
  relation over its critical sections, and the delivery of SIGHUP. Time is an \<open>int\<close>
  (nanoseconds of the monotonic clock); the zero \<^verbatim>\<open>time.Time\<close> of a fresh debouncer, from which
  every instant is further away than any window, is \<open>None\<close>.
\<close>

section \<open>Finding the processes\<close>

text \<open>\<^verbatim>\<open>filepath.Base\<close>.\<close>

definition Base :: "string \<Rightarrow> string" where
  "Base p =
     (if p = [] then ''.''
      else let s = trim_right_byte (CHR ''/'') p
           in if s = [] then ''/'' else last (split_on (CHR ''/'') s))"

text \<open>
  The proc directory: its entries in name order, each with the content of its
  \<^verbatim>\<open>cmdline\<close> file, \<open>None\<close> when that cannot be read; the whole is \<open>None\<close> when the directory
  cannot be listed.
\<close>

type_synonym procfs = "(string \<times> string option) list option"

definition argv0 :: "string \<Rightarrow> string" where
  "argv0 raw = (case split_first (CHR 0x00) raw of None \<Rightarrow> raw | Some (a, _) \<Rightarrow> a)"

definition reloadTarget :: "int \<Rightarrow> string \<Rightarrow> string \<times> string option \<Rightarrow> int option" where
  "reloadTarget self name e =
     (case Atoi (fst e) of
        None \<Rightarrow> None
      | Some pid \<Rightarrow>
          if pid = self then None
          else case snd e of
            None \<Rightarrow> None
          | Some raw \<Rightarrow>
              if raw = [] \<or> argv0 raw = [] then None
              else if Base (argv0 raw) = name then Some pid else None)"

definition findReloadTargets :: "procfs \<Rightarrow> int \<Rightarrow> string \<Rightarrow> int list" where
  "findReloadTargets proc self name =
     (case proc of None \<Rightarrow> [] | Some es \<Rightarrow> List.map_filter (reloadTarget self name) es)"

text \<open>\<open>kill\<close> answers whether the signal could be delivered; the result is whom it was sent to.\<close>

definition doReload :: "procfs \<Rightarrow> (int \<Rightarrow> bool) \<Rightarrow> int \<Rightarrow> string \<Rightarrow> obs \<Rightarrow> int list \<times> obs" where
  "doReload proc kill self pname o1 =
     (let name = (if pname = [] then ''synapse'' else pname);
          pids = findReloadTargets proc self name
      in (pids, foldl (\<lambda>ob pid. if kill pid then inc MReloadTotal ob else ob) o1 pids))"

lemma argv0_spec: "argv0 raw = a \<longleftrightarrow> CHR 0x00 \<notin> set a \<and> (raw = a \<or> (\<exists>rest. raw = a @ CHR 0x00 # rest))"
proof -
  have "CHR 0x00 \<notin> set (argv0 raw) \<and> (raw = argv0 raw \<or> (\<exists>rest. raw = argv0 raw @ CHR 0x00 # rest))" for raw
  proof (induction raw)
    case (Cons x s)
    then show ?case by (auto simp: argv0_def split: option.splits)
  qed (simp add: argv0_def)
  moreover have "argv0 a = a" "argv0 (a @ CHR 0x00 # rest) = a" if "CHR 0x00 \<notin> set a" for a rest
    using that by (induction a) (auto simp: argv0_def split: option.splits)
  ultimately show ?thesis by metis
qed

lemma trim_right_slash: "trim_right_byte c (p @ [x]) = (if x = c then trim_right_byte c p else p @ [x])"
  by (simp add: trim_right_byte_def)

lemma split_on_last: "c \<notin> set b \<Longrightarrow> last (split_on c (a @ c # b)) = b"
  by (simp add: split_on_append_sep split_on_single)

lemma trim_right_byte_replicate: "trim_right_byte c (p @ replicate k c) = trim_right_byte c p"
  by (simp add: trim_right_byte_def dropWhile_append)

text \<open>For a plain name, \<open>Base p\<close> is the name when \<open>p\<close> ends in it, but for slashes.\<close>

lemma Base_iff:
  assumes "name \<noteq> []" "CHR ''/'' \<notin> set name" "name \<noteq> ''.''"
  shows "Base p = name \<longleftrightarrow>
    (\<exists>dir k. p = dir @ name @ replicate k (CHR ''/'') \<and> (dir = [] \<or> last dir = CHR ''/''))"
proof
  assume b: "Base p = name"
  let ?s = "trim_right_byte (CHR ''/'') p"
  have s: "?s \<noteq> []" "last (split_on (CHR ''/'') ?s) = name"
    using b assms by (auto simp: Base_def Let_def split: if_splits)
  have "\<exists>dir. ?s = dir @ name \<and> (dir = [] \<or> last dir = CHR ''/'')"
  proof (cases "split_last (CHR ''/'') ?s")
    case None
    then show ?thesis using s by (auto simp: split_last_None split_on_single)
  next
    case (Some ab)
    then obtain a c where ab: "?s = a @ CHR ''/'' # c" "CHR ''/'' \<notin> set c" by (cases ab) (auto simp: split_last_Some)
    then have "c = name" using s split_on_last by metis
    then show ?thesis using ab by (intro exI [of _ "a @ ''/''"]) simp
  qed
  then show "\<exists>dir k. p = dir @ name @ replicate k (CHR ''/'') \<and> (dir = [] \<or> last dir = CHR ''/'')"
    using trim_right_byte_split [of p "CHR ''/''"] by (metis append.assoc)
next
  assume "\<exists>dir k. p = dir @ name @ replicate k (CHR ''/'') \<and> (dir = [] \<or> last dir = CHR ''/'')"
  then obtain dir k where p: "p = dir @ name @ replicate k (CHR ''/'')" "dir = [] \<or> last dir = CHR ''/''" by blast
  have t: "trim_right_byte (CHR ''/'') p = dir @ name"
  proof -
    have "last (dir @ name) \<noteq> CHR ''/''" using assms by (metis last_appendR last_in_set)
    then show ?thesis
      using trim_right_byte_replicate [of _ "dir @ name" k] p(1) by (simp add: trim_right_byte_id)
  qed
  have "last (split_on (CHR ''/'') (dir @ name)) = name"
  proof (cases dir rule: rev_cases)
    case Nil
    then show ?thesis using assms by (simp add: split_on_single)
  next
    case (snoc d x)
    then show ?thesis using p(2) split_on_last [OF assms(2), of d] by simp
  qed
  then show "Base p = name" using t p(1) assms by (simp add: Base_def Let_def)
qed

lemma reloadTarget_Some: "reloadTarget self name e = Some pid \<longleftrightarrow>
    Atoi (fst e) = Some pid \<and> pid \<noteq> self \<and>
    (\<exists>raw. snd e = Some raw \<and> (raw \<noteq> [] \<and> argv0 raw \<noteq> [] \<and> Base (argv0 raw) = name))"
  by (auto simp: reloadTarget_def split: option.splits)

lemma mem_targets: "pid \<in> set (findReloadTargets (Some es) self name) \<longleftrightarrow>
    (\<exists>e \<in> set es. reloadTarget self name e = Some pid)"
  by (induction es) (auto simp: findReloadTargets_def List.map_filter_simps split: option.split)

text \<open>
  A reload signals exactly the processes that run the proxy: those, other than the
  operator itself, with a readable command line whose first word is the process name, bare or
  at the end of a path (trailing slashes aside); every other process is left alone.
\<close>

theorem findReloadTargets_exact:
  assumes "name \<noteq> []" "CHR ''/'' \<notin> set name" "name \<noteq> ''.''"
  shows "pid \<in> set (findReloadTargets (Some es) self name) \<longleftrightarrow>
    pid \<noteq> self \<and> (\<exists>e dir k rest. Atoi e = Some pid \<and> (dir = [] \<or> last dir = CHR ''/'') \<and> CHR 0x00 \<notin> set (dir @ name) \<and>
      (rest = [] \<or> hd rest = CHR 0x00) \<and> (e, Some (dir @ name @ replicate k (CHR ''/'') @ rest)) \<in> set es)"
proof -
  have word: "raw \<noteq> [] \<and> argv0 raw \<noteq> [] \<and> Base (argv0 raw) = name \<longleftrightarrow>
      (\<exists>dir k rest. raw = dir @ name @ replicate k (CHR ''/'') @ rest \<and> (dir = [] \<or> last dir = CHR ''/'') \<and>
        CHR 0x00 \<notin> set (dir @ name) \<and> (rest = [] \<or> hd rest = CHR 0x00))" (is "?l = ?r") for raw
  proof
    assume l: ?l
    then obtain dir k where a: "argv0 raw = dir @ name @ replicate k (CHR ''/'')" "dir = [] \<or> last dir = CHR ''/''"
      using Base_iff [OF assms] by blast
    have "CHR 0x00 \<notin> set (argv0 raw)" and "\<exists>rest. raw = argv0 raw @ rest \<and> (rest = [] \<or> hd rest = CHR 0x00)"
      using argv0_spec [of raw "argv0 raw"] by force+
    then show ?r using a by auto
  next
    assume ?r
    then obtain dir k rest where r: "raw = dir @ name @ replicate k (CHR ''/'') @ rest" "dir = [] \<or> last dir = CHR ''/''"
        "CHR 0x00 \<notin> set (dir @ name)" "rest = [] \<or> hd rest = CHR 0x00" by blast
    let ?a = "dir @ name @ replicate k (CHR ''/'')"
    have "CHR 0x00 \<notin> set ?a" using r(3) by auto
    moreover have "raw = ?a \<or> (\<exists>t. raw = ?a @ CHR 0x00 # t)" using r(1,4) by (cases rest) auto
    ultimately have a: "argv0 raw = ?a" by (simp only: argv0_spec) simp
    have "Base ?a = name" using Base_iff [OF assms, of ?a] r(2) by blast
    then show ?l using a r(1) assms(1) by auto
  qed
  have "pid \<in> set (findReloadTargets (Some es) self name) \<longleftrightarrow>
      pid \<noteq> self \<and> (\<exists>e raw. (e, Some raw) \<in> set es \<and> Atoi e = Some pid \<and>
        (raw \<noteq> [] \<and> argv0 raw \<noteq> [] \<and> Base (argv0 raw) = name))"
    unfolding mem_targets reloadTarget_Some Bex_def split_paired_Ex fst_conv snd_conv by blast
  then show ?thesis unfolding word by blast
qed

lemma findReloadTargets_exact_witness:
  "42 \<in> set (findReloadTargets (Some [(''42'', Some (''/usr/bin/synapse'' @ CHR 0x00 # ''-c''))]) 7 ''synapse'')"
proof -
  let ?es = "[(''42'', Some (''/usr/bin/'' @ ''synapse'' @ replicate 0 (CHR ''/'') @ CHR 0x00 # ''-c''))]"
  have at: "Atoi ''42'' = Some 42" by code_simp
  have "42 \<in> set (findReloadTargets (Some ?es) 7 ''synapse'')"
  proof (rule findReloadTargets_exact [THEN iffD2])
    show "42 \<noteq> (7::int) \<and> (\<exists>e dir k rest. Atoi e = Some 42 \<and> (dir = [] \<or> last dir = CHR ''/'') \<and>
        CHR 0x00 \<notin> set (dir @ ''synapse'') \<and> (rest = [] \<or> hd rest = CHR 0x00) \<and>
        (e, Some (dir @ ''synapse'' @ replicate k (CHR ''/'') @ rest)) \<in> set ?es)"
      by (intro conjI exI [of _ "''42''"] exI [of _ "''/usr/bin/''"] exI [of _ 0]
          exI [of _ "CHR 0x00 # ''-c''"] at list.set_intros(1)) simp_all
  qed simp_all
  then show ?thesis by simp
qed

section \<open>The debouncer\<close>

text \<open>
  \<open>db_last\<close> and \<open>db_pending\<close> are the fields of the Go struct; \<open>db_timer\<close> is the deadline of the
  armed \<^verbatim>\<open>AfterFunc\<close>, \<open>db_calls\<close> the number of calls of \<open>do\<close> that were decided on and have not
  begun. Two fields only record the past: \<open>db_log\<close>, the instants at which a call was decided
  on, newest first and with whether it was a leading edge, and \<open>db_owed\<close>, whether some
  trigger has not been followed by the beginning of a call.
\<close>

record debouncer =
  db_now :: int
  db_last :: "int option"
  db_pending :: bool
  db_timer :: "int option"
  db_calls :: nat
  db_log :: "(int \<times> bool) list"
  db_owed :: bool

definition newReloadDebouncer :: "int \<Rightarrow> debouncer" where
  "newReloadDebouncer now = \<lparr>db_now = now, db_last = None, db_pending = False, db_timer = None,
     db_calls = 0, db_log = [], db_owed = False\<rparr>"

text \<open>
  The critical section of \<^verbatim>\<open>trigger\<close>. The code sets the pending flag and computes the wait under
  the lock and calls \<^verbatim>\<open>AfterFunc\<close> right after releasing it; the model arms the timer in the same
  step. No other trigger arms one in between, because the flag is set, and the time until the
  call of \<^verbatim>\<open>AfterFunc\<close> only makes the timer's function come later, which a step after the
  deadline is free to do.
\<close>

definition trigger :: "int \<Rightarrow> debouncer \<Rightarrow> debouncer" where
  "trigger window d =
     (let d1 = d\<lparr>db_owed := True\<rparr> in
      case (if window \<le> 0 then None else db_last d) of
        Some l \<Rightarrow>
          if db_now d - l \<ge> window
          then d1\<lparr>db_last := Some (db_now d), db_calls := db_calls d + 1, db_log := (db_now d, True) # db_log d\<rparr>
          else if db_pending d then d1
          else d1\<lparr>db_pending := True, db_timer := Some (db_now d + (window - (db_now d - l)))\<rparr>
      | None \<Rightarrow>
          d1\<lparr>db_last := Some (db_now d), db_calls := db_calls d + 1, db_log := (db_now d, True) # db_log d\<rparr>)"

text \<open>The critical section of the timer's function.\<close>

definition expire :: "debouncer \<Rightarrow> debouncer" where
  "expire d = d\<lparr>db_pending := False, db_timer := None, db_last := Some (db_now d),
     db_calls := db_calls d + 1, db_log := (db_now d, False) # db_log d\<rparr>"

text \<open>A call begins: it re-reads the process table, so it serves every trigger before it.\<close>

definition begin_call :: "debouncer \<Rightarrow> debouncer" where
  "begin_call d = d\<lparr>db_calls := db_calls d - 1, db_owed := False\<rparr>"

text \<open>The debouncer is made at the first request.\<close>

definition Signal :: "int \<Rightarrow> int \<Rightarrow> debouncer option \<Rightarrow> debouncer option" where
  "Signal window now sg =
     Some (trigger window (case sg of None \<Rightarrow> newReloadDebouncer now | Some d \<Rightarrow> d\<lparr>db_now := max (db_now d) now\<rparr>))"

text \<open>
  The internal steps: time passes, an expired timer's function gets the lock (any time after
  the deadline), a decided call begins. A full step may also be a trigger.
\<close>

inductive deb_internal :: "debouncer \<Rightarrow> debouncer \<Rightarrow> bool" where
  Pass: "0 \<le> dt \<Longrightarrow> deb_internal d (d\<lparr>db_now := db_now d + dt\<rparr>)"
| Expire: "db_timer d = Some t \<Longrightarrow> t \<le> db_now d \<Longrightarrow> deb_internal d (expire d)"
| Call: "0 < db_calls d \<Longrightarrow> deb_internal d (begin_call d)"

inductive deb_step :: "int \<Rightarrow> debouncer \<Rightarrow> debouncer \<Rightarrow> bool" for window :: int where
  Trigger: "deb_step window d (trigger window d)"
| Internal: "deb_internal d d' \<Longrightarrow> deb_step window d d'"

inductive deb_reach :: "int \<Rightarrow> debouncer \<Rightarrow> bool" for window :: int where
  Start: "deb_reach window (newReloadDebouncer now)"
| Step: "deb_reach window d \<Longrightarrow> deb_step window d d' \<Longrightarrow> deb_reach window d'"

inductive_cases deb_internalE: "deb_internal d d'"
inductive_cases deb_stepE: "deb_step window d d'"

declare deb_internal.intros [intro] deb_step.intros [intro]

text \<open>\<open>spaced\<close>: a leading edge comes a window after every earlier call, a trailing edge a window
  after every earlier trailing edge.\<close>

definition spaced :: "int \<Rightarrow> int \<times> bool \<Rightarrow> int \<times> bool \<Rightarrow> bool" where
  "spaced window x y \<longleftrightarrow> fst y \<le> fst x \<and> (snd x \<or> \<not> snd y \<longrightarrow> fst y + window \<le> fst x)"

definition deb_inv :: "int \<Rightarrow> debouncer \<Rightarrow> bool" where
  "deb_inv window d \<longleftrightarrow>
     (db_pending d \<longleftrightarrow> db_timer d \<noteq> None) \<and>
     (db_owed d \<longrightarrow> db_timer d \<noteq> None \<or> 0 < db_calls d) \<and>
     (db_last d = None \<longleftrightarrow> db_log d = []) \<and>
     (\<forall>l. db_last d = Some l \<longrightarrow> l \<le> db_now d \<and> (\<forall>x \<in> set (db_log d). fst x \<le> l)) \<and>
     (\<forall>t. db_timer d = Some t \<longrightarrow> 0 < window \<and> t \<le> db_now d + window \<and>
        (\<forall>x \<in> set (db_log d). \<not> snd x \<longrightarrow> fst x + window \<le> t)) \<and>
     sorted_wrt (spaced window) (db_log d)"

lemma deb_inv_new: "deb_inv window (newReloadDebouncer now)"
  by (simp add: deb_inv_def newReloadDebouncer_def)

lemma deb_inv_trigger:
  assumes "deb_inv window d"
  shows "deb_inv window (trigger window d)"
proof (cases "db_last d")
  case None
  then show ?thesis using assms by (auto simp: deb_inv_def trigger_def Let_def spaced_def)
next
  case (Some l)
  have now: "fst x \<le> l" "l \<le> db_now d" if "x \<in> set (db_log d)" for x
    using assms Some that by (auto simp: deb_inv_def)
  consider "window \<le> 0" | "0 < window" "db_now d - l \<ge> window" | "0 < window" "db_now d - l < window" by linarith
  then show ?thesis
  proof cases
    case 1
    then show ?thesis using assms Some now by (fastforce simp: deb_inv_def trigger_def Let_def spaced_def)
  next
    case 2
    then show ?thesis using assms Some now by (fastforce simp: deb_inv_def trigger_def Let_def spaced_def)
  next
    case 3
    then show ?thesis using assms Some now by (fastforce simp: deb_inv_def trigger_def Let_def)
  qed
qed

lemma deb_inv_internal:
  assumes "deb_internal d d'" "deb_inv window d"
  shows "deb_inv window d'"
  using assms
proof cases
  case (Pass dt)
  then show ?thesis using assms(2) by (auto simp: deb_inv_def)
next
  case (Expire t)
  have "sorted_wrt (spaced window) ((db_now d, False) # db_log d)"
  proof -
    have "spaced window (db_now d, False) x" if x: "x \<in> set (db_log d)" for x
    proof -
      obtain l where l: "db_last d = Some l" "l \<le> db_now d" "fst x \<le> l" using assms(2) x by (auto simp: deb_inv_def)
      have "\<not> snd x \<Longrightarrow> fst x + window \<le> t" using assms(2) Expire x by (auto simp: deb_inv_def)
      then show ?thesis using l Expire by (auto simp: spaced_def)
    qed
    then show ?thesis using assms(2) by (auto simp: deb_inv_def)
  qed
  moreover have "fst x \<le> db_now d" if "x \<in> set (db_log d)" for x
    using assms(2) that by (fastforce simp: deb_inv_def)
  ultimately show ?thesis using Expire by (auto simp: deb_inv_def expire_def)
next
  case Call
  then show ?thesis using assms(2) by (auto simp: deb_inv_def begin_call_def)
qed

lemma deb_reach_inv: "deb_reach window d \<Longrightarrow> deb_inv window d"
proof (induction rule: deb_reach.induct)
  case (Step d d')
  then show ?case by (auto elim!: deb_stepE intro: deb_inv_trigger deb_inv_internal)
qed (rule deb_inv_new)

text \<open>
  Claim C28. The debouncer bounds the signal rate: under every interleaving of triggers, timer
  functions and calls, three consecutive reload decisions span at least one window. (Two may
  coincide: a leading edge taken while an expired timer still waits for the lock.)
\<close>

theorem debouncer_rate:
  assumes "deb_reach window d" "db_log d = later @ [(t3, e3), (t2, e2), (t1, e1)] @ earlier"
  shows "t1 + window \<le> t3 \<and> t1 \<le> t2 \<and> t2 \<le> t3"
proof -
  have "spaced window (t3, e3) (t2, e2)" "spaced window (t3, e3) (t1, e1)" "spaced window (t2, e2) (t1, e1)"
    using deb_reach_inv [OF assms(1)] by (simp_all add: deb_inv_def assms(2) sorted_wrt_append)
  then show ?thesis by (cases e3; cases e2; cases e1) (auto simp: spaced_def)
qed

definition internal_run :: "debouncer \<Rightarrow> debouncer \<Rightarrow> bool" where
  "internal_run = deb_internal\<^sup>*\<^sup>*"

text \<open>\<open>idle\<close>: no call waits to begin and no timer has expired.\<close>

definition idle :: "debouncer \<Rightarrow> bool" where
  "idle d \<longleftrightarrow> db_calls d = 0 \<and> (\<forall>t. db_timer d = Some t \<longrightarrow> db_now d < t)"

text \<open>A run without triggers arms no timer: a timer that is armed at its end was armed all along.\<close>

lemma internal_timer:
  "internal_run d d' \<Longrightarrow> db_timer d' = Some t \<Longrightarrow> db_timer d = Some t"
  unfolding internal_run_def
  by (induction rule: rtranclp_induct) (auto elim!: deb_internalE simp: expire_def begin_call_def)

lemma internal_inv: "internal_run d d' \<Longrightarrow> deb_inv window d \<Longrightarrow> deb_inv window d'"
  unfolding internal_run_def by (induction rule: rtranclp_induct) (auto intro: deb_inv_internal)

lemma run_one: "deb_internal d d' \<Longrightarrow> internal_run d d'"
  by (simp add: internal_run_def)

lemma run_trans: "internal_run d d' \<Longrightarrow> internal_run d' d'' \<Longrightarrow> internal_run d d''"
  unfolding internal_run_def by (rule rtranclp_trans)

text \<open>The calls that are decided on begin, one after the other.\<close>

lemma run_calls: "\<exists>d'. internal_run d d' \<and> db_calls d' = 0 \<and> db_now d' = db_now d \<and> db_timer d' = db_timer d"
proof (induction "db_calls d" arbitrary: d)
  case 0
  then show ?case by (intro exI [of _ d]) (simp add: internal_run_def)
next
  case (Suc n)
  have c: "internal_run d (begin_call d)" using Suc(2) by (intro run_one) (auto intro: Call)
  have "n = db_calls (begin_call d)" using Suc(2) by (simp add: begin_call_def)
  from Suc(1) [OF this] c show ?case by (auto simp: begin_call_def intro: run_trans)
qed

text \<open>
  Claim C10. No reload is lost: after a trigger, every run that brings no further triggers, lasts
  a window and leaves nothing enabled contains the beginning of a call after the trigger, and
  from every reachable state such a run exists. So the state of the last trigger is always
  applied, at most a window (and the scheduling of one timer function) later.
\<close>

theorem debouncer_serves:
  assumes "deb_reach window d"
  shows "(\<forall>d'. internal_run d d' \<and> db_now d + window \<le> db_now d' \<and> idle d' \<longrightarrow> \<not> db_owed d') \<and>
    (\<exists>d'. internal_run d d' \<and> db_now d' = db_now d + max 0 window \<and> idle d')"
proof (intro conjI allI impI)
  fix d' assume r: "internal_run d d' \<and> db_now d + window \<le> db_now d' \<and> idle d'"
  note inv = deb_reach_inv [OF assms]
  have "db_timer d' = None"
  proof (cases "db_timer d'")
    case (Some t)
    then have "db_timer d = Some t" using r internal_timer by blast
    then have "t \<le> db_now d + window" using inv by (simp add: deb_inv_def)
    then show ?thesis using r Some by (simp add: idle_def)
  qed
  then show "\<not> db_owed d'" using internal_inv [of d d' window] inv r by (auto simp: deb_inv_def idle_def)
next
  note inv = deb_reach_inv [OF assms]
  let ?p = "d\<lparr>db_now := db_now d + max 0 window\<rparr>"
  have p: "internal_run d ?p" by (intro run_one Pass) simp
  show "\<exists>d'. internal_run d d' \<and> db_now d' = db_now d + max 0 window \<and> idle d'"
  proof (cases "db_timer d")
    case None
    then show ?thesis using run_calls [of ?p] p by (auto simp: idle_def intro: run_trans)
  next
    case (Some t)
    have "internal_run ?p (expire ?p)"
      using Some inv by (intro run_one Expire [of _ t]) (auto simp: deb_inv_def)
    then have "internal_run d (expire ?p)" using p run_trans by blast
    then show ?thesis using run_calls [of "expire ?p"] by (auto simp: idle_def expire_def intro: run_trans)
  qed
qed

text \<open>Two triggers in a window: the first runs at once, the second arms the timer.\<close>

definition burst :: debouncer where
  "burst = trigger 10 (begin_call (trigger 10 (newReloadDebouncer 100)))"

lemma burst_reach: "deb_reach 10 burst"
proof -
  have "deb_reach 10 (trigger 10 (newReloadDebouncer 100))" by (rule Step [OF Start Trigger])
  then have "deb_reach 10 (begin_call (trigger 10 (newReloadDebouncer 100)))"
    by (rule Step) (intro Internal Call, simp add: trigger_def newReloadDebouncer_def Let_def)
  then show ?thesis unfolding burst_def by (rule Step) (rule Trigger)
qed

lemma debouncer_serves_witness:
  "db_owed burst \<and> (\<exists>d'. internal_run burst d' \<and> db_now d' = 110 \<and> \<not> db_owed d')"
proof -
  have "db_now burst = 100" "db_owed burst"
    by (simp_all add: burst_def trigger_def begin_call_def newReloadDebouncer_def Let_def)
  then show ?thesis using debouncer_serves [OF burst_reach] by auto
qed

text \<open>A leading edge overtakes an expired timer, which then fires at the same instant.\<close>

definition overtaken :: debouncer where
  "overtaken = expire (trigger 10 (burst\<lparr>db_now := 110\<rparr>))"

lemma overtaken_facts: "deb_reach 10 overtaken" "db_log overtaken = [] @ [(110, False), (110, True), (100, True)] @ []"
proof -
  have p: "deb_internal burst (burst\<lparr>db_now := 110\<rparr>)"
    using Pass [of 10 burst] by (simp add: burst_def trigger_def begin_call_def newReloadDebouncer_def Let_def)
  have "deb_reach 10 (trigger 10 (burst\<lparr>db_now := 110\<rparr>))"
    by (rule Step [OF Step [OF burst_reach Internal [OF p]] Trigger])
  then show "deb_reach 10 overtaken"
    unfolding overtaken_def
    by (rule Step) (intro Internal Expire [of _ 110],
      simp_all add: burst_def trigger_def begin_call_def newReloadDebouncer_def Let_def)
qed (simp add: overtaken_def burst_def trigger_def expire_def begin_call_def newReloadDebouncer_def Let_def)

lemma debouncer_rate_witness: "(100::int) + 10 \<le> 110 \<and> length (db_log overtaken) = 3"
  using debouncer_rate [OF overtaken_facts] overtaken_facts(2) by simp

end
