(* ===== verification/ConfigSync.thy ===== *)
theory ConfigSync
  imports RenderYaml FileSys
begin

text \<open>
  controllers/configsync_controller.go, the reload sidecar: it projects the keys of watched
  ConfigMaps to files beside the proxy and requests a reload when a file changed. The answer of
  the API for a ConfigMap is found, missing or an error; the files are those of theory
  FileSys, so every statement covers every pattern of failing file operations.
\<close>

section \<open>Configuration and state\<close>

type_synonym cm_key = "string \<times> string"

record sync_cfg =
  sy_sources :: "cm_key list"
  sy_dir :: string
  sy_keys :: "string list"
  sy_signaler :: bool

record sync_state =
  ss_fs :: fsys
  ss_obs :: obs
  ss_ready :: bool
  ss_signals :: nat

definition wants :: "sync_cfg \<Rightarrow> cm_key \<Rightarrow> bool" where
  "wants cfg key = List.member (sy_sources cfg) key"

definition safeKey :: "string \<Rightarrow> bool" where
  "safeKey k \<longleftrightarrow> k \<noteq> [] \<and> k \<noteq> ''.'' \<and> k \<noteq> ''..'' \<and>
     list_all (\<lambda>c. c \<noteq> CHR ''/'' \<and> c \<noteq> CHR 0x5C) k \<and> \<not> contains k ''..''"

definition selects :: "sync_cfg \<Rightarrow> string \<Rightarrow> bool" where
  "selects cfg k \<longleftrightarrow> (sy_keys cfg = [] \<or> List.member (sy_keys cfg) k) \<and> safeKey k"

section \<open>Operations\<close>

text \<open>The loop over the sorted keys: the number of files changed, and the error that ended it.\<close>

fun syncKeys ::
  "sync_cfg \<Rightarrow> (string, string) gmap \<Rightarrow> string list \<Rightarrow> int \<Rightarrow> fsys \<Rightarrow> (int \<times> string option) \<times> fsys" where
  "syncKeys cfg data [] changed s = ((changed, None), s)"
| "syncKeys cfg data (k # ks) changed s =
     (if \<not> selects cfg k then syncKeys cfg data ks changed s
      else case writeIfChanged s (Join (sy_dir cfg) k) (gstr data k) of
        (Inl e, s1) \<Rightarrow> ((changed, Some e), s1)
      | (Inr wrote, s1) \<Rightarrow> syncKeys cfg data ks (if wrote then changed + 1 else changed) s1)"

definition syncOne ::
  "sync_cfg \<Rightarrow> (cm_key \<Rightarrow> configmap got) \<Rightarrow> cm_key \<Rightarrow> fsys \<Rightarrow> obs \<Rightarrow> (int \<times> string option) \<times> fsys \<times> obs" where
  "syncOne cfg get key s o1 =
     (case get key of
        Missing \<Rightarrow> ((0, None), s, inc MSyncSourceMissing o1)
      | GetFailed e \<Rightarrow> ((0, Some e), s, o1)
      | Found cm \<Rightarrow>
          (case syncKeys cfg (cm_data cm) (sorted_keys (cm_data cm)) 0 s of (r, s1) \<Rightarrow> (r, s1, o1)))"

definition syncReconcile ::
  "sync_cfg \<Rightarrow> (cm_key \<Rightarrow> configmap got) \<Rightarrow> int \<Rightarrow> cm_key \<Rightarrow> sync_state \<Rightarrow> string option \<times> sync_state" where
  "syncReconcile cfg get now key st =
     (case syncOne cfg get key (ss_fs st) (inc MSyncTotal (ss_obs st)) of
        ((_, Some e), s1, o1) \<Rightarrow> (Some e, st\<lparr>ss_fs := s1, ss_obs := inc MSyncErrTotal o1\<rparr>)
      | ((changed, None), s1, o1) \<Rightarrow>
          (let o2 = (if changed > 0
                     then set_gauge MSyncChangedTotal (metrics o1 MSyncChangedTotal + changed) o1 else o1);
               n = (if changed > 0 \<and> sy_signaler cfg then ss_signals st + 1 else ss_signals st)
           in (None, st\<lparr>ss_fs := s1, ss_obs := set_gauge MSyncLastTS now o2, ss_ready := True, ss_signals := n\<rparr>)))"

fun syncSources ::
  "sync_cfg \<Rightarrow> (cm_key \<Rightarrow> configmap got) \<Rightarrow> cm_key list \<Rightarrow> int \<Rightarrow> sync_state \<Rightarrow> (int \<times> string option) \<times> sync_state" where
  "syncSources cfg get [] n st = ((n, None), st\<lparr>ss_ready := True\<rparr>)"
| "syncSources cfg get (k # ks) n st =
     (case syncOne cfg get k (ss_fs st) (ss_obs st) of
        ((changed, err), s1, o1) \<Rightarrow>
          (let st1 = st\<lparr>ss_fs := s1, ss_obs := o1\<rparr> in
           case err of
             Some e \<Rightarrow> ((n + changed, Some e), st1)
           | None \<Rightarrow> syncSources cfg get ks (n + changed) st1))"

definition SyncAll ::
  "sync_cfg \<Rightarrow> (cm_key \<Rightarrow> configmap got) \<Rightarrow> sync_state \<Rightarrow> (int \<times> string option) \<times> sync_state" where
  "SyncAll cfg get st = syncSources cfg get (sy_sources cfg) 0 st"

text \<open>The primer logs an error and returns none.\<close>

definition syncPrimerStart ::
  "sync_cfg \<Rightarrow> (cm_key \<Rightarrow> configmap got) \<Rightarrow> sync_state \<Rightarrow> string option \<times> sync_state" where
  "syncPrimerStart cfg get st = (None, snd (SyncAll cfg get st))"

fun ensureNames ::
  "(int \<Rightarrow> bool) \<Rightarrow> string \<Rightarrow> string \<Rightarrow> string list \<Rightarrow> fsys \<Rightarrow> string option \<times> fsys" where
  "ensureNames prt dir floor [] s = (None, s)"
| "ensureNames prt dir floor (x # xs) s =
     (let n = trim_space x in
      if n = [] then ensureNames prt dir floor xs s
      else if \<not> safeKey n then (Some (''unsafe --ensure-files entry '' @ quote prt n), s)
      else let path = Join dir n in
        if ghas (fs_files s) path then ensureNames prt dir floor xs s
        else case writeIfChanged s path floor of
          (Inl e, s1) \<Rightarrow> (Some (''ensure '' @ path @ '': '' @ e), s1)
        | (Inr _, s1) \<Rightarrow> ensureNames prt dir floor xs s1)"

definition EnsureFiles :: "(int \<Rightarrow> bool) \<Rightarrow> sync_cfg \<Rightarrow> string list \<Rightarrow> fsys \<Rightarrow> string option \<times> fsys" where
  "EnsureFiles prt cfg names s = ensureNames prt (sy_dir cfg) (renderUpstreams prt newRenderModel) names s"

definition syncReadyCheck :: "sync_state \<Rightarrow> string option" where
  "syncReadyCheck st =
     (if ss_ready st then None else Some ''config-sync has not completed an initial projection'')"

section \<open>Keys are names in the directory\<close>

lemma safeKey_plain: "safeKey k \<Longrightarrow> plain_name k"
  by (auto simp: safeKey_def plain_name_def list_all_iff)

definition keyFile :: "sync_cfg \<Rightarrow> string \<Rightarrow> string" where
  "keyFile cfg k = dir_prefix (sy_dir cfg) @ k"

lemma Join_key: "sy_dir cfg \<noteq> [] \<Longrightarrow> selects cfg k \<Longrightarrow> Join (sy_dir cfg) k = keyFile cfg k"
  by (simp add: keyFile_def Join_child safeKey_plain selects_def)

lemma keyFile_eq: "keyFile cfg k = keyFile cfg k' \<longleftrightarrow> k = k'" "keyFile cfg k @ ''.tmp'' = keyFile cfg (k @ ''.tmp'')"
  by (simp_all add: keyFile_def)

text \<open>The files a run over the keys \<open>ks\<close> may touch.\<close>

definition keyFiles :: "sync_cfg \<Rightarrow> string list \<Rightarrow> string set" where
  "keyFiles cfg ks = keyFile cfg ` ({k \<in> set ks. selects cfg k} \<union> (\<lambda>k. k @ ''.tmp'') ` {k \<in> set ks. selects cfg k})"

lemma keyFiles_mono: "set ks \<subseteq> set ks' \<Longrightarrow> keyFiles cfg ks \<subseteq> keyFiles cfg ks'"
  by (auto simp: keyFiles_def)

text \<open>One key: what \<open>writeIfChanged\<close> promises, over the name of the key.\<close>

lemma key_write:
  assumes "sy_dir cfg \<noteq> []" "selects cfg k" "writeIfChanged s (Join (sy_dir cfg) k) c = (r, s1)"
  shows "touches (keyFiles cfg [k]) s s1"
    "reader_sees (keyFile cfg k) s s1 {gget (fs_files s) (keyFile cfg k), Some c}"
    "r = Inr b \<Longrightarrow> gget (fs_files s1) (keyFile cfg k) = Some c"
    "r = Inr b \<Longrightarrow> b = (gget (fs_files s) (keyFile cfg k) \<noteq> Some c)"
    "r = Inr False \<Longrightarrow> s1 = s"
proof -
  have one: "keyFiles cfg [k] = {keyFile cfg k, keyFile cfg k @ ''.tmp''}"
    using assms(2) by (auto simp: keyFiles_def keyFile_eq)
  note e = writeIfChanged_effects [where s = s and path = "keyFile cfg k" and content = c]
  show "touches (keyFiles cfg [k]) s s1"
    "reader_sees (keyFile cfg k) s s1 {gget (fs_files s) (keyFile cfg k), Some c}"
    "r = Inr b \<Longrightarrow> gget (fs_files s1) (keyFile cfg k) = Some c"
    "r = Inr b \<Longrightarrow> b = (gget (fs_files s) (keyFile cfg k) \<noteq> Some c)"
    "r = Inr False \<Longrightarrow> s1 = s"
    using e assms(3) Join_key [OF assms(1,2)] by (simp_all add: one)
qed

section \<open>What a run over the keys does\<close>

lemma syncKeys_touches:
  assumes "sy_dir cfg \<noteq> []"
  shows "touches (keyFiles cfg ks) s (snd (syncKeys cfg data ks n s))"
proof (induction ks arbitrary: n s)
  case (Cons k ks)
  have mono: "touches (keyFiles cfg ks) u v \<Longrightarrow> touches (keyFiles cfg (k # ks)) u v" for u v
    by (erule touches_mono) (rule keyFiles_mono, auto)
  show ?case
  proof (cases "selects cfg k")
    case False
    then show ?thesis using mono [OF Cons.IH] by simp
  next
    case True
    obtain r s1 where w: "writeIfChanged s (Join (sy_dir cfg) k) (gstr data k) = (r, s1)" by fastforce
    have t: "touches (keyFiles cfg (k # ks)) s s1"
      by (rule touches_mono [OF key_write(1) [OF assms True w] keyFiles_mono]) simp
    show ?thesis
      using w t True mono [OF Cons.IH] touches_trans [OF t] by (cases r) auto
  qed
qed simp

text \<open>A reader of a key's file, as long as no other projected key's temporary file has its name.\<close>

definition untorn :: "sync_cfg \<Rightarrow> string list \<Rightarrow> string \<Rightarrow> bool" where
  "untorn cfg ks k \<longleftrightarrow> (\<forall>k' \<in> set ks. selects cfg k' \<longrightarrow> k' @ ''.tmp'' \<noteq> k)"

lemma keyFiles_one: "keyFile cfg k \<in> keyFiles cfg [j] \<longleftrightarrow> selects cfg j \<and> (k = j \<or> k = j @ ''.tmp'')"
  by (auto simp: keyFiles_def keyFile_eq)

lemma syncKeys_reader:
  assumes "sy_dir cfg \<noteq> []" "untorn cfg ks k"
  shows "reader_sees (keyFile cfg k) s (snd (syncKeys cfg data ks n s))
    {gget (fs_files s) (keyFile cfg k), Some (gstr data k)}"
  using assms(2)
proof (induction ks arbitrary: n s)
  case Nil
  then show ?case by (simp add: reader_sees_def)
next
  case (Cons j ks)
  let ?p = "keyFile cfg k" and ?new = "Some (gstr data k)"
  have u: "untorn cfg ks k" "selects cfg j \<Longrightarrow> k \<noteq> j @ ''.tmp''" using Cons.prems by (auto simp: untorn_def)
  show ?case
  proof (cases "selects cfg j")
    case False
    then show ?thesis using Cons.IH [OF u(1)] by simp
  next
    case True
    obtain r s1 where w: "writeIfChanged s (Join (sy_dir cfg) j) (gstr data j) = (r, s1)" by fastforce
    have one: "reader_sees ?p s s1 {gget (fs_files s) ?p, ?new}"
    proof (cases "k = j")
      case True
      then show ?thesis using key_write(2) [OF assms(1) \<open>selects cfg j\<close> w] by simp
    next
      case False
      have "reader_sees ?p s s1 {gget (fs_files s) ?p}"
        by (rule touches_reader [OF key_write(1) [OF assms(1) True w]]) (use False u(2) True in \<open>simp add: keyFiles_one\<close>)
      then show ?thesis by (rule reader_sees_mono) auto
    qed
    then have mid: "gget (fs_files s1) ?p \<in> {gget (fs_files s) ?p, ?new}" by (simp add: reader_sees_def)
    have "reader_sees ?p s (snd (syncKeys cfg data ks m s1)) {gget (fs_files s) ?p, ?new}" for m
      by (rule reader_sees_mono [OF reader_sees_trans [OF one Cons.IH [OF u(1)]]]) (use mid in auto)
    then show ?thesis using True w one by (cases r) auto
  qed
qed

lemma syncKeys_done:
  assumes "sy_dir cfg \<noteq> []" "syncKeys cfg data ks n s = ((m, None), s')" "sorted_wrt (<) ks"
  shows "(\<forall>k \<in> set ks. selects cfg k \<longrightarrow> gget (fs_files s') (keyFile cfg k) = Some (gstr data k)) \<and>
    n \<le> m \<and> (m = n \<longrightarrow> s' = s)"
  using assms(2,3)
proof (induction ks arbitrary: n s)
  case (Cons j ks)
  show ?case
  proof (cases "selects cfg j")
    case False
    then show ?thesis using Cons.IH [of n s] Cons.prems by simp
  next
    case True
    obtain r s1 where w: "writeIfChanged s (Join (sy_dir cfg) j) (gstr data j) = (r, s1)" by fastforce
    obtain b where r: "r = Inr b" using Cons.prems(1) True w by (cases r) auto
    have rest: "syncKeys cfg data ks (if b then n + 1 else n) s1 = ((m, None), s')"
      using Cons.prems(1) True w r by simp
    have lt: "j < k" if "k \<in> set ks" for k using Cons.prems(2) that by simp
    have "keyFile cfg j \<notin> keyFiles cfg ks"
    proof
      assume "keyFile cfg j \<in> keyFiles cfg ks"
      then obtain k where "k \<in> set ks" "j = k \<or> j = k @ ''.tmp''" by (auto simp: keyFiles_def keyFile_eq)
      moreover have "k < k @ ''.tmp''" by (simp add: list_less_def lexord_append_rightI)
      ultimately show False using lt [of k] by auto
    qed
    moreover have "touches (keyFiles cfg ks) s1 s'"
      using syncKeys_touches [OF assms(1), of ks s1 data] rest by (metis snd_conv)
    moreover have "gget (fs_files s1) (keyFile cfg j) = Some (gstr data j)"
      using key_write(3) [OF assms(1) True w r] .
    ultimately have j: "gget (fs_files s') (keyFile cfg j) = Some (gstr data j)" by (simp add: touches_def)
    have "s1 = s" if "\<not> b" using key_write(5) [OF assms(1) True w] r that by simp
    moreover note Cons.IH [OF rest] Cons.prems(2)
    ultimately show ?thesis using j by (auto split: if_splits)
  qed
qed simp

lemma syncKeys_same:
  assumes "sy_dir cfg \<noteq> []"
    "\<forall>k \<in> set ks. selects cfg k \<longrightarrow> gget (fs_files s) (keyFile cfg k) = Some (gstr data k)"
  shows "syncKeys cfg data ks n s = ((n, None), s)"
  using assms(2) by (induction ks) (simp_all add: writeIfChanged_def ReadFile_def Join_key [OF assms(1)])

section \<open>Properties of a projection\<close>

definition isFound :: "(cm_key \<Rightarrow> configmap got) \<Rightarrow> cm_key \<Rightarrow> bool" where
  "isFound get key \<longleftrightarrow> (case get key of Found _ \<Rightarrow> True | _ \<Rightarrow> False)"

lemma sorted_keys_strict: "gmap_ok m \<Longrightarrow> sorted_wrt (<) (sorted_keys m)"
  by (simp add: sorted_keys_def gmap_ok_def strict_sorted_iff)

text \<open>What a projection touches, whatever fails.\<close>

lemma syncOne_effect:
  assumes dir: "sy_dir cfg \<noteq> []"
  shows "case syncOne cfg get key s o1 of (r, s', o') \<Rightarrow>
    (\<not> isFound get key \<longrightarrow> s' = s) \<and>
    (\<forall>cm. get key = Found cm \<longrightarrow>
       touches {dir_prefix (sy_dir cfg) @ n | n. plain_name n} s s' \<and>
       touches (keyFiles cfg (gkeys (cm_data cm))) s s' \<and>
       (\<forall>k. untorn cfg (gkeys (cm_data cm)) k \<longrightarrow>
          reader_sees (keyFile cfg k) s s'
            {gget (fs_files s) (keyFile cfg k), Some (gstr (cm_data cm) k)}))"
proof (cases "get key")
  case (Found cm)
  let ?d = "cm_data cm"
  have set: "set (sorted_keys ?d) = set (gkeys ?d)" by simp
  have files: "keyFiles cfg (sorted_keys ?d) = keyFiles cfg (gkeys ?d)"
    "untorn cfg (sorted_keys ?d) = untorn cfg (gkeys ?d)"
    by (simp_all only: keyFiles_def set) (rule ext, simp add: untorn_def)
  have "plain_name (k @ ''.tmp'')" if "plain_name k" for k
    using that by (auto simp: plain_name_def append_eq_Cons_conv)
  then have "keyFiles cfg (gkeys ?d) \<subseteq> {dir_prefix (sy_dir cfg) @ n | n. plain_name n}"
    using safeKey_plain by (fastforce simp: keyFiles_def keyFile_def selects_def)
  then show ?thesis
    using syncKeys_touches [OF dir, of "sorted_keys ?d" s ?d 0] syncKeys_reader [OF dir, of "sorted_keys ?d" _ s ?d 0]
    by (auto simp: syncOne_def Found isFound_def files intro: touches_mono split: prod.split)
qed (auto simp: syncOne_def isFound_def)

text \<open>
  Claim C15. A projection only touches files of the output directory itself that are named by a
  selected, safe key of the ConfigMap (and their temporary files), so no key escapes the
  directory; when the ConfigMap is missing or cannot be read nothing is touched at all. Whatever
  file operations fail, a reader of a key's file finds the old content or the complete new
  one, unless the key is another selected key followed by \<^verbatim>\<open>.tmp\<close>.
\<close>

theorem syncOne_safe:
  assumes dir: "sy_dir cfg \<noteq> []"
  shows "case syncOne cfg get key s o1 of (r, s', o') \<Rightarrow>
    (\<not> isFound get key \<longrightarrow> s' = s) \<and>
    (\<forall>cm. get key = Found cm \<longrightarrow>
       touches {dir_prefix (sy_dir cfg) @ n | n. plain_name n} s s' \<and>
       touches (keyFiles cfg (gkeys (cm_data cm))) s s' \<and>
       (\<forall>k. untorn cfg (gkeys (cm_data cm)) k \<longrightarrow>
          reader_sees (keyFile cfg k) s s'
            {gget (fs_files s) (keyFile cfg k), Some (gstr (cm_data cm) k)}))"
  using assms by (rule syncOne_effect)

text \<open>What a projection without an error leaves behind.\<close>

lemma syncOne_done:
  assumes dir: "sy_dir cfg \<noteq> []" and found: "get key = Found cm" "gmap_ok (cm_data cm)"
    and run: "syncOne cfg get key s o1 = ((n, None), s', o')"
  shows "(\<forall>k v. gget (cm_data cm) k = Some v \<and> selects cfg k \<longrightarrow> gget (fs_files s') (keyFile cfg k) = Some v) \<and>
    0 \<le> n \<and> (n = 0 \<longrightarrow> s' = s) \<and>
    syncOne cfg get key s' o2 = ((0, None), s', o2) \<and>
    (ss_fs st = s' \<longrightarrow> ss_signals (snd (syncReconcile cfg get now key st)) = ss_signals st)"
proof -
  let ?d = "cm_data cm"
  have r: "syncKeys cfg ?d (sorted_keys ?d) 0 s = ((n, None), s')"
    using run by (auto simp: syncOne_def found split: prod.splits)
  note fin = syncKeys_done [OF dir r sorted_keys_strict [OF found(2)]]
  have all: "gget (fs_files s') (keyFile cfg k) = Some v" if "gget ?d k = Some v" "selects cfg k" for k v
  proof -
    have "k \<in> set (sorted_keys ?d)" using that(1) by (simp add: image_iff map_of_SomeD bexI [of _ "(k, v)"])
    then show ?thesis using fin that by (auto simp: gstr_def)
  qed
  have again: "syncOne cfg get key s' o2 = ((0, None), s', o2)" for o2
    using syncKeys_same [OF dir, of "sorted_keys ?d" s' ?d 0] fin by (simp add: syncOne_def found)
  then show ?thesis using all fin by (simp add: syncReconcile_def)
qed

text \<open>
  A projection that reports no error has converged: every selected key of the
  ConfigMap is on disk with its content, zero changed files means that nothing was touched, and
  a second projection of the same ConfigMap changes nothing. In particular the reconcile that
  follows a successful priming requests no reload, whatever the priming wrote.
\<close>

theorem syncOne_converges:
  assumes dir: "sy_dir cfg \<noteq> []" and found: "get key = Found cm" "gmap_ok (cm_data cm)"
    and run: "syncOne cfg get key s o1 = ((n, None), s', o')"
  shows "(\<forall>k v. gget (cm_data cm) k = Some v \<and> selects cfg k \<longrightarrow> gget (fs_files s') (keyFile cfg k) = Some v) \<and>
    0 \<le> n \<and> (n = 0 \<longrightarrow> s' = s) \<and>
    syncOne cfg get key s' o2 = ((0, None), s', o2) \<and>
    (ss_fs st = s' \<longrightarrow> ss_signals (snd (syncReconcile cfg get now key st)) = ss_signals st)"
  using assms by (rule syncOne_done)

text \<open>Old content stays, and what was absent is absent or the floor.\<close>

definition floored :: "string \<Rightarrow> string option \<Rightarrow> string option \<Rightarrow> bool" where
  "floored fl old new \<longleftrightarrow> new = old \<or> old = None \<and> new = Some fl"

lemma floored_trans: "floored fl a b \<Longrightarrow> floored fl b c \<Longrightarrow> floored fl a c"
  by (auto simp: floored_def)

definition ensured :: "string list \<Rightarrow> string set" where
  "ensured names = {n \<in> trim_space ` set names. n \<noteq> []}"

lemma ensured_Cons: "ensured (x # xs) = (if trim_space x = [] then ensured xs else insert (trim_space x) (ensured xs))"
  by (auto simp: ensured_def)

lemma ensureNames_effect:
  assumes dir: "dir \<noteq> []"
  shows "case ensureNames prt dir fl names s of (err, s') \<Rightarrow>
    (\<forall>p. p \<notin> (\<lambda>n. dir_prefix dir @ n @ ''.tmp'') ` ensured names \<longrightarrow>
       floored fl (gget (fs_files s) p) (gget (fs_files s') p)) \<and>
    (err = None \<longrightarrow> (\<forall>n \<in> ensured names. safeKey n \<and>
       (n \<notin> (\<lambda>m. m @ ''.tmp'') ` ensured names \<longrightarrow> gget (fs_files s') (dir_prefix dir @ n) \<noteq> None)))"
proof (induction names arbitrary: s)
  case Nil
  then show ?case by (simp add: floored_def ensured_def)
next
  case (Cons x xs)
  let ?n = "trim_space x"
  let ?p = "dir_prefix dir @ ?n"
  let ?tmps = "\<lambda>xs. (\<lambda>n. dir_prefix dir @ n @ ''.tmp'') ` ensured xs"
  note ih = Cons.IH [unfolded case_prod_beta]
  consider (empty) "?n = []" | (unsafe) "?n \<noteq> []" "\<not> safeKey ?n" | (safe) "?n \<noteq> []" "safeKey ?n" by blast
  then show ?case
  proof cases
    case empty
    then show ?thesis using Cons.IH [of s] by (simp add: ensured_Cons)
  next
    case unsafe
    then show ?thesis by (simp add: floored_def)
  next
    case safe
    have j: "Join dir ?n = ?p" using Join_child [OF dir safeKey_plain] safe by blast
    obtain err1 s1 where w: "(if ghas (fs_files s) ?p then (Inr False, s) else writeIfChanged s ?p fl) = (err1, s1)"
      by fastforce
    have step: "floored fl (gget (fs_files s) p) (gget (fs_files s1) p)" if "p \<noteq> ?p @ ''.tmp''" for p
      using w that writeIfChanged_effects [where s = s and path = ?p and content = fl]
      by (cases "p = ?p") (auto simp: floored_def ghas_def touches_def split: if_splits sum.splits)
    have got: "gget (fs_files s1) ?p \<noteq> None" if "err1 = Inr b" for b
      using w that writeIfChanged_effects [where s = s and path = ?p and content = fl]
      by (auto simp: ghas_def split: if_splits)
    have e: "ensureNames prt dir fl (x # xs) s = (case err1 of
        Inl e \<Rightarrow> (Some (''ensure '' @ ?p @ '': '' @ e), s1) | Inr _ \<Rightarrow> ensureNames prt dir fl xs s1)"
      using w safe by (auto simp: j Let_def split: prod.splits)
    show ?thesis
    proof (cases err1)
      case (Inl e')
      then show ?thesis unfolding e using step safe by (auto simp: ensured_Cons)
    next
      case (Inr b)
      let ?r = "ensureNames prt dir fl xs s1"
      have r: "ensureNames prt dir fl (x # xs) s = ?r" using e Inr by simp
      note eff = conjunct1 [OF ih [of s1], rule_format] and ex = conjunct2 [OF ih [of s1], rule_format]
      have tmps: "p \<noteq> ?p @ ''.tmp'' \<and> p \<notin> ?tmps xs" if "p \<notin> ?tmps (x # xs)" for p
        using that safe by (simp add: ensured_Cons)
      have sub: "n \<notin> (\<lambda>m. m @ ''.tmp'') ` ensured xs" if "n \<notin> (\<lambda>m. m @ ''.tmp'') ` ensured (x # xs)" for n
        using that safe by (simp add: ensured_Cons)
      show ?thesis
        unfolding r case_prod_beta
      proof (intro conjI allI impI ballI)
        fix p assume "p \<notin> ?tmps (x # xs)"
        then show "floored fl (gget (fs_files s) p) (gget (fs_files (snd ?r)) p)"
          using floored_trans [OF step [of p] eff [of p]] tmps [of p] by simp
      next
        fix n assume none: "fst ?r = None" and n: "n \<in> ensured (x # xs)"
        then show "safeKey n" using ex [of n] safe by (auto simp: ensured_Cons)
        assume nt: "n \<notin> (\<lambda>m. m @ ''.tmp'') ` ensured (x # xs)"
        show "gget (fs_files (snd ?r)) (dir_prefix dir @ n) \<noteq> None"
        proof (cases "n = ?n")
          case True
          have "?p \<notin> ?tmps xs" using sub [OF nt] True by auto
          from eff [OF this] got [OF Inr] show ?thesis unfolding True by (auto simp: floored_def)
        next
          case False
          then show ?thesis using ex [of n] none n sub [OF nt] safe by (auto simp: ensured_Cons)
        qed
      qed
    qed
  qed
qed

text \<open>
  \<open>EnsureFiles\<close> damages nothing and, when it reports no error, lets the proxy start: a
  path keeps its content or, if it was absent, may hold the valid empty document (the temporary
  files of the ensured names aside), and after success every listed name is safe and its file
  exists (unless the name is another listed name followed by \<^verbatim>\<open>.tmp\<close>).
\<close>

theorem EnsureFiles_floor:
  assumes "sy_dir cfg \<noteq> []"
  shows "case EnsureFiles prt cfg names s of (err, s') \<Rightarrow>
    (\<forall>p. p \<notin> (\<lambda>n. keyFile cfg n @ ''.tmp'') ` ensured names \<longrightarrow>
       floored (renderUpstreams prt newRenderModel) (gget (fs_files s) p) (gget (fs_files s') p)) \<and>
    (err = None \<longrightarrow> (\<forall>n \<in> ensured names. safeKey n \<and>
       (n \<notin> (\<lambda>m. m @ ''.tmp'') ` ensured names \<longrightarrow> gget (fs_files s') (keyFile cfg n) \<noteq> None)))"
  using ensureNames_effect [OF assms] by (simp add: EnsureFiles_def keyFile_def)

section \<open>A sidecar\<close>

definition sideCfg :: sync_cfg where
  "sideCfg = \<lparr>sy_sources = [(''ns'', ''cm'')], sy_dir = ''/shared'', sy_keys = [], sy_signaler = True\<rparr>"

definition sideMap :: configmap where
  "sideMap = \<lparr>cm_ns = ''ns'', cm_name = ''cm'', cm_labels = [], cm_annotations = [],
     cm_data = [(''upstreams.yaml'', ''new''), (''../evil'', ''x'')], cm_binary = []\<rparr>"

definition sideGet :: "cm_key \<Rightarrow> configmap got" where
  "sideGet key = (if key = (''ns'', ''cm'') then Found sideMap else Missing)"

definition sideFs :: "fate list \<Rightarrow> fsys" where
  "sideFs fates = \<lparr>fs_files = [(''/shared/upstreams.yaml'', ''old'')], fs_fates = fates, fs_seen = []\<rparr>"

lemma side_facts:
  "sy_dir sideCfg \<noteq> []" "keyFile sideCfg ''upstreams.yaml'' = ''/shared/upstreams.yaml''"
  "selects sideCfg ''upstreams.yaml''" "\<not> selects sideCfg ''../evil''"
  "sideGet (''ns'', ''cm'') = Found sideMap" "gmap_ok (cm_data sideMap)"
  by (simp add: sideCfg_def, code_simp, code_simp, code_simp, simp add: sideGet_def, simp add: sideMap_def gmap_ok_def)

lemma syncOne_safe_witness:
  "reader_sees ''/shared/upstreams.yaml'' (sideFs [Succeeds, Fails (Some 1)])
     (fst (snd (syncOne sideCfg sideGet (''ns'', ''cm'') (sideFs [Succeeds, Fails (Some 1)]) obs0)))
     {Some ''old'', Some ''new''}"
proof -
  have "untorn sideCfg (gkeys (cm_data sideMap)) ''upstreams.yaml''"
    "gget (fs_files (sideFs f)) ''/shared/upstreams.yaml'' = Some ''old''"
    "gstr (cm_data sideMap) ''upstreams.yaml'' = ''new''" for f
    by (simp_all add: untorn_def sideMap_def sideFs_def gstr_def)
  then show ?thesis
    using syncOne_safe [OF side_facts(1), of sideGet "(''ns'', ''cm'')" "sideFs [Succeeds, Fails (Some 1)]" obs0]
      side_facts(2,5) by (fastforce split: prod.splits)
qed

lemma syncOne_converges_witness:
  "\<exists>s'. syncOne sideCfg sideGet (''ns'', ''cm'') (sideFs []) obs0 = ((1, None), s', obs0) \<and>
     gget (fs_files s') ''/shared/upstreams.yaml'' = Some ''new'' \<and>
     ss_signals (snd (syncReconcile sideCfg sideGet 7 (''ns'', ''cm'')
       \<lparr>ss_fs = s', ss_obs = obs0, ss_ready = True, ss_signals = 3\<rparr>)) = 3"
proof -
  have "fst (syncOne sideCfg sideGet (''ns'', ''cm'') (sideFs []) obs0) = (1, None)" by code_simp
  moreover have "snd (snd (syncOne sideCfg sideGet (''ns'', ''cm'') (sideFs []) obs0)) = obs0"
    by (simp add: syncOne_def side_facts split: prod.split)
  ultimately obtain s' where r: "syncOne sideCfg sideGet (''ns'', ''cm'') (sideFs []) obs0 = ((1, None), s', obs0)"
    by (metis prod.collapse)
  have "gget (cm_data sideMap) ''upstreams.yaml'' = Some ''new''" by (simp add: sideMap_def)
  moreover note conv = syncOne_converges [OF side_facts(1,5,6) r, of obs0
      "\<lparr>ss_fs = s', ss_obs = obs0, ss_ready = True, ss_signals = 3\<rparr>" 7]
  ultimately have "gget (fs_files s') (keyFile sideCfg ''upstreams.yaml'') = Some ''new''"
    using side_facts(3) by blast
  then show ?thesis using conv r side_facts(2) by auto
qed

lemma EnsureFiles_floor_witness:
  "gget (fs_files (snd (EnsureFiles prt sideCfg [''upstreams.yaml''] (sideFs [])))) ''/shared/upstreams.yaml'' = Some ''old''"
proof -
  let ?r = "EnsureFiles prt sideCfg [''upstreams.yaml''] (sideFs [])" and ?p = "''/shared/upstreams.yaml''"
  have t: "trim_space ''upstreams.yaml'' = ''upstreams.yaml''"
    by (rule trim_space_id) (simp_all add: visible_byte_def)
  have e: "ensured [''upstreams.yaml''] = {''upstreams.yaml''}"
    unfolding ensured_def list.set image_insert image_empty t by auto
  have "?p \<noteq> keyFile sideCfg ''upstreams.yaml'' @ ''.tmp''" unfolding side_facts(2) by simp
  then have "?p \<notin> (\<lambda>n. keyFile sideCfg n @ ''.tmp'') ` {''upstreams.yaml''}" by simp
  then have "floored (renderUpstreams prt newRenderModel) (gget (fs_files (sideFs [])) ?p) (gget (fs_files (snd ?r)) ?p)"
    using EnsureFiles_floor [OF side_facts(1), where names = "[''upstreams.yaml'']" and s = "sideFs []" and prt = prt]
    unfolding e case_prod_beta by blast
  moreover have "gget (fs_files (sideFs [])) ?p = Some ''old''" by (simp add: sideFs_def)
  ultimately show ?thesis by (simp add: floored_def)
qed

end
