(* ===== verification/Yaml.thy ===== *)
theory Yaml
  imports Objects "HOL-Library.Finite_Map"
begin

text \<open>
  YAML documents as the program sees them: what \<^verbatim>\<open>sigs.k8s.io/yaml\<close> decodes into
  \<^verbatim>\<open>map[string]any\<close>. The library is outside the repository and a parameter: \<open>um\<close> decodes a
  text (an error, a nil map or a map), \<open>ma\<close> encodes a map. What the code relies on, that an
  encoded document is read back, is a hypothesis about the document that was written.
\<close>

datatype yval = YNull | YBool bool | YNum string | YStr string | YList "yval list" | YMap "(string, yval) fmap"

type_synonym ydoc = "(string, yval) fmap"
type_synonym yreader = "string \<Rightarrow> string + ydoc option"
type_synonym ywriter = "ydoc \<Rightarrow> string + string"

text \<open>The key of a ConfigMap that holds the agent's configuration.\<close>

definition SynapseConfigKey :: string where "SynapseConfigKey = ''config.yaml''"

text \<open>Type assertions: \<^verbatim>\<open>v, ok := x.(T)\<close>; an absent key is the nil interface.\<close>

fun as_map :: "yval option \<Rightarrow> ydoc option" where
  "as_map (Some (YMap m)) = Some m"
| "as_map _ = None"

fun as_str :: "yval option \<Rightarrow> string option" where
  "as_str (Some (YStr s)) = Some s"
| "as_str _ = None"

fun as_list :: "yval option \<Rightarrow> yval list option" where
  "as_list (Some (YList l)) = Some l"
| "as_list _ = None"

text \<open>A nil map reads like an empty one.\<close>

definition doc_of :: "ydoc option \<Rightarrow> ydoc" where
  "doc_of d = (case d of None \<Rightarrow> fmempty | Some m \<Rightarrow> m)"

text \<open>The value at a path of keys below a document.\<close>

fun at_path :: "ydoc \<Rightarrow> string list \<Rightarrow> yval option" where
  "at_path d [] = Some (YMap d)"
| "at_path d [k] = fmlookup d k"
| "at_path d (k # ks) = (case as_map (fmlookup d k) of None \<Rightarrow> None | Some m \<Rightarrow> at_path m ks)"

definition reads_back :: "yreader \<Rightarrow> ywriter \<Rightarrow> ydoc \<Rightarrow> bool" where
  "reads_back um ma d \<longleftrightarrow> (\<exists>t. ma d = Inr t \<and> um t = Inr (Some d))"

lemma as_map_Some [simp]: "as_map v = Some m \<longleftrightarrow> v = Some (YMap m)"
  by (cases v rule: as_map.cases) auto

lemma as_str_Some [simp]: "as_str v = Some s \<longleftrightarrow> v = Some (YStr s)"
  by (cases v rule: as_str.cases) auto

lemma as_list_Some [simp]: "as_list v = Some l \<longleftrightarrow> v = Some (YList l)"
  by (cases v rule: as_list.cases) auto

lemma doc_of_Some [simp]: "doc_of (Some m) = m" "doc_of None = fmempty"
  by (simp_all add: doc_of_def)

lemma fmupd_same: "fmlookup m k = Some v \<Longrightarrow> fmupd k v m = m"
  by (rule fmap_ext) auto

end
