(* ===== verification/NetVars.thy ===== *)
theory NetVars
  imports Yaml NetAddr
begin

text \<open>
  controllers/netvars_resolver.go: HOME_NET and EXTERNAL_NET in the IDS section of a labelled
  ConfigMap. The nodes and services are the answers of the API for the reconcile; \<open>upd\<close> says
  whether the update of the object is accepted.
\<close>

section \<open>Constants and cluster objects\<close>

definition NetVarsSourceLabel :: string where "NetVarsSourceLabel = ''synapse.gen0sec.com/resolve-netvars''"
definition HomeNetOverrideAnnotation :: string where "HomeNetOverrideAnnotation = ''synapse.gen0sec.com/home-net''"
definition NetVarsManagedAnnotation :: string where "NetVarsManagedAnnotation = ''synapse.gen0sec.com/netvars-managed''"

definition internalSupernets :: "string list" where
  "internalSupernets = [''10.0.0.0/8'', ''172.16.0.0/12'', ''192.168.0.0/16'', ''100.64.0.0/10'', ''fc00::/7'', ''fe80::/10'']"

record node =
  nd_addresses :: "(string \<times> string) list"
  nd_pod_cidr :: string
  nd_pod_cidrs :: "string list"

record net_api =
  net_nodes :: "node list option"
  net_services :: "service list option"

section \<open>The automatic list\<close>

definition hostCIDR :: "string \<Rightarrow> string" where
  "hostCIDR ip =
     (case ParseIP ip of
        None \<Rightarrow> []
      | Some b \<Rightarrow> if To4 b \<noteq> None then ip @ ''/32'' else ip @ ''/128'')"

text \<open>A set is a list without repetitions; a text that is empty is not added.\<close>

definition addNonEmpty :: "string list \<Rightarrow> string \<Rightarrow> string list" where
  "addNonEmpty st c = (if c = [] then st else List.insert c st)"

definition nodeAddr :: "string list \<Rightarrow> string \<times> string \<Rightarrow> string list" where
  "nodeAddr st x =
     (if fst x \<noteq> ''InternalIP'' \<and> fst x \<noteq> ''ExternalIP'' then st else addNonEmpty st (hostCIDR (snd x)))"

definition podNet :: "string list \<Rightarrow> string \<Rightarrow> string list" where
  "podNet st c = (if ParseCIDR c then List.insert c st else st)"

definition nodeNets :: "string list \<Rightarrow> node \<Rightarrow> string list" where
  "nodeNets st n =
     (let st1 = foldl nodeAddr st (nd_addresses n);
          st2 = (if nd_pod_cidr n \<noteq> [] then podNet st1 (nd_pod_cidr n) else st1)
      in foldl podNet st2 (nd_pod_cidrs n))"

definition serviceAddr :: "string list \<Rightarrow> string \<Rightarrow> string list" where
  "serviceAddr st ip = addNonEmpty st (hostCIDR (trim_space ip))"

definition serviceNets :: "string list \<Rightarrow> service \<Rightarrow> string list" where
  "serviceNets st s =
     (let st1 = foldl serviceAddr (foldl serviceAddr st (svc_lb_ingress_ips s)) (svc_external_ips s)
      in if svc_lb_ip s \<noteq> [] then serviceAddr st1 (svc_lb_ip s) else st1)"

definition addLoadBalancerIPs :: "net_api \<Rightarrow> string list \<Rightarrow> string + string list" where
  "addLoadBalancerIPs a st =
     (case net_services a of
        None \<Rightarrow> Inl ''list services''
      | Some svcs \<Rightarrow> Inr (foldl serviceNets st svcs))"

definition autoHomeNet :: "net_api \<Rightarrow> string + string" where
  "autoHomeNet a =
     (case net_nodes a of
        None \<Rightarrow> Inl ''list nodes''
      | Some nodes \<Rightarrow>
          (case addLoadBalancerIPs a (foldl nodeNets (foldl (\<lambda>s c. List.insert c s) [] internalSupernets) nodes) of
             Inl e \<Rightarrow> Inl e
           | Inr st \<Rightarrow> Inr (''['' @ join '','' (sort st) @ '']'')))"

section \<open>The configuration document\<close>

fun nestedMap :: "ydoc \<Rightarrow> string list \<Rightarrow> ydoc option" where
  "nestedMap cur [] = Some cur"
| "nestedMap cur (k # ks) = (case as_map (fmlookup cur k) of None \<Rightarrow> None | Some next \<Rightarrow> nestedMap next ks)"

definition currentHomeNet :: "yreader \<Rightarrow> string \<Rightarrow> string" where
  "currentHomeNet um raw =
     (case um raw of
        Inl _ \<Rightarrow> []
      | Inr d \<Rightarrow>
          (case nestedMap (doc_of d) [''ids'', ''address_vars''] of
             None \<Rightarrow> []
           | Some av \<Rightarrow> (case as_str (fmlookup av ''HOME_NET'') of None \<Rightarrow> [] | Some v \<Rightarrow> trim_space v)))"

text \<open>The document with the two variables set, absent or ill-typed maps on the way created.\<close>

definition withAddressVars :: "string \<Rightarrow> string \<Rightarrow> ydoc \<Rightarrow> ydoc" where
  "withAddressVars homeNet externalNet root =
     (let ids = doc_of (as_map (fmlookup root ''ids''));
          av = doc_of (as_map (fmlookup ids ''address_vars''))
      in fmupd ''ids'' (YMap (fmupd ''address_vars''
           (YMap (fmupd ''EXTERNAL_NET'' (YStr externalNet) (fmupd ''HOME_NET'' (YStr homeNet) av))) ids)) root)"

definition setIdsAddressVars ::
  "yreader \<Rightarrow> ywriter \<Rightarrow> string \<Rightarrow> string \<Rightarrow> string \<Rightarrow> string + string \<times> bool" where
  "setIdsAddressVars um ma raw homeNet externalNet =
     (case um raw of
        Inl e \<Rightarrow> Inl (''unmarshal config.yaml: '' @ e)
      | Inr d \<Rightarrow>
          (let root = doc_of d;
               av = doc_of (as_map (fmlookup (doc_of (as_map (fmlookup root ''ids''))) ''address_vars''));
               cur = (\<lambda>k. case as_str (fmlookup av k) of None \<Rightarrow> [] | Some v \<Rightarrow> v)
           in if cur ''HOME_NET'' = homeNet \<and> cur ''EXTERNAL_NET'' = externalNet then Inr (raw, False)
              else case ma (withAddressVars homeNet externalNet root) of
                Inl e \<Rightarrow> Inl (''marshal config.yaml: '' @ e)
              | Inr t \<Rightarrow> Inr (t, True)))"

section \<open>Reconcile\<close>

definition isNetVarsSource :: "configmap \<Rightarrow> bool" where
  "isNetVarsSource cm \<longleftrightarrow> gstr (cm_labels cm) NetVarsSourceLabel = ''true''"

definition desiredHomeNet :: "yreader \<Rightarrow> net_api \<Rightarrow> configmap \<Rightarrow> string \<Rightarrow> string + string \<times> bool" where
  "desiredHomeNet um a cm raw =
     (let ov = trim_space (gstr (cm_annotations cm) HomeNetOverrideAnnotation) in
      if ghas (cm_annotations cm) HomeNetOverrideAnnotation \<and> ov \<noteq> [] then Inr (ov, True)
      else
        let cur = currentHomeNet um raw;
            operatorManagedAuto = (gstr (cm_annotations cm) NetVarsManagedAnnotation = ''auto'')
        in if cur \<noteq> [] \<and> \<not> equal_fold cur ''any'' \<and> \<not> operatorManagedAuto then Inr (cur, True)
           else case autoHomeNet a of Inl e \<Rightarrow> Inl e | Inr v \<Rightarrow> Inr (v, False))"

text \<open>One source: an error, or the object that was written (\<open>None\<close>: nothing to do).\<close>

definition netvarsSource ::
  "yreader \<Rightarrow> ywriter \<Rightarrow> (configmap \<Rightarrow> bool) \<Rightarrow> net_api \<Rightarrow> configmap \<Rightarrow> string \<Rightarrow> string + configmap option" where
  "netvarsSource um ma upd a cm raw =
     (case desiredHomeNet um a cm raw of
        Inl e \<Rightarrow> Inl e
      | Inr (homeNet, manual) \<Rightarrow>
          if homeNet = [] then Inr None
          else case setIdsAddressVars um ma raw homeNet ''!$HOME_NET'' of
            Inl e \<Rightarrow> Inl e
          | Inr (newRaw, configChanged) \<Rightarrow>
              (let managed = (if manual then ''manual'' else ''auto'');
                   annotationChanged = (gstr (cm_annotations cm) NetVarsManagedAnnotation \<noteq> managed);
                   cm' = cm\<lparr>cm_data := gput SynapseConfigKey newRaw (cm_data cm),
                            cm_annotations := gput NetVarsManagedAnnotation managed (cm_annotations cm)\<rparr>
               in if \<not> configChanged \<and> \<not> annotationChanged then Inr None
                  else if upd cm' then Inr (Some cm') else Inl ''update''))"

definition netvarsReconcile ::
  "yreader \<Rightarrow> ywriter \<Rightarrow> (configmap \<Rightarrow> bool) \<Rightarrow> net_api \<Rightarrow> configmap got \<Rightarrow> string + configmap option" where
  "netvarsReconcile um ma upd a got =
     (case got of
        Missing \<Rightarrow> Inr None
      | GetFailed e \<Rightarrow> Inl e
      | Found cm \<Rightarrow>
          if \<not> isNetVarsSource cm then Inr None
          else case gget (cm_data cm) SynapseConfigKey of
            None \<Rightarrow> Inr None
          | Some raw \<Rightarrow> netvarsSource um ma upd a cm raw)"

section \<open>What the automatic list holds\<close>

lemma set_foldl_insert: "set (foldl (\<lambda>s c. List.insert c s) st cs) = set st \<union> set cs"
  by (induction cs arbitrary: st) auto

text \<open>A loop that inserts optional texts, in the form all the loops of the list share.\<close>

lemma foldl_union: "(\<And>st x. set (f st x) = set st \<union> g x) \<Longrightarrow> set (foldl f st xs) = set st \<union> (\<Union>x \<in> set xs. g x)"
  by (induction xs arbitrary: st) auto

lemma foldl_distinct: "(\<And>st x. distinct st \<Longrightarrow> distinct (f st x)) \<Longrightarrow> distinct st \<Longrightarrow> distinct (foldl f st xs)"
  by (induction xs arbitrary: st) auto

definition some_text :: "string \<Rightarrow> string set" where
  "some_text c = (if c = [] then {} else {c})"

lemma addNonEmpty_set: "set (addNonEmpty st c) = set st \<union> some_text c" "distinct st \<Longrightarrow> distinct (addNonEmpty st c)"
  by (auto simp: addNonEmpty_def some_text_def)

text \<open>
  The host network of a text, stated on what the text denotes: a dotted quad is one IPv4
  address, of 32 bits; any other address is one IPv6 address, of 128 bits, unless it is in
  the range \<^verbatim>\<open>::ffff:0:0/96\<close> of mapped IPv4 addresses, which the code counts as IPv4; a text that is
  no address has no network.
\<close>

definition host_net :: "string \<Rightarrow> string set" where
  "host_net ip =
     (case ParseAddr ip of
        None \<Rightarrow> {}
      | Some (dotted, b) \<Rightarrow> {ip @ (if dotted \<or> take 12 b = v4_in_v6 then ''/32'' else ''/128'')})"

lemma hostCIDR_text: "some_text (hostCIDR ip) = host_net ip"
proof (cases "ParseAddr ip")
  case None
  then show ?thesis by (simp add: some_text_def hostCIDR_def host_net_def ParseIP_def)
next
  case (Some r)
  obtain dotted b where r: "r = (dotted, b)" by fastforce
  have "ip \<noteq> []" using Some by (auto simp: ParseAddr_def)
  show ?thesis
  proof (cases dotted)
    case True
    then show ?thesis
      using ParseIP_v4 [of ip b] Some r \<open>ip \<noteq> []\<close> by (simp add: some_text_def hostCIDR_def host_net_def)
  next
    case False
    then have "ParseIP ip = Some b" "length b = 16"
      using Some r ParseAddr_v6_length [of ip b] by (simp_all add: ParseIP_def)
    then show ?thesis
      using Some r False \<open>ip \<noteq> []\<close>
      by (auto simp: some_text_def hostCIDR_def host_net_def To4_def)
  qed
qed

text \<open>
  A mapped address written as IPv6 gets the mask of IPv4: read as an IPv6 network it is not
  a host network.
\<close>

lemma mapped_host_net: "hostCIDR ''::ffff:10.0.0.1'' = ''::ffff:10.0.0.1/32''"
  by code_simp

definition node_nets :: "node \<Rightarrow> string set" where
  "node_nets n =
     (\<Union>(t, ip) \<in> set (nd_addresses n). if t = ''InternalIP'' \<or> t = ''ExternalIP'' then host_net ip else {}) \<union>
     {c. (c = nd_pod_cidr n \<and> c \<noteq> [] \<or> c \<in> set (nd_pod_cidrs n)) \<and> ParseCIDR c}"

definition service_nets :: "service \<Rightarrow> string set" where
  "service_nets s =
     (\<Union>ip \<in> set (svc_lb_ingress_ips s @ svc_external_ips s) \<union> some_text (svc_lb_ip s). host_net (trim_space ip))"

lemma loops_set:
  "set (foldl nodeAddr st xs) = set st \<union> (\<Union>x \<in> set xs. if fst x = ''InternalIP'' \<or> fst x = ''ExternalIP'' then host_net (snd x) else {})"
  "distinct st \<Longrightarrow> distinct (foldl nodeAddr st xs)"
  "set (foldl podNet st cs) = set st \<union> (\<Union>c \<in> set cs. if ParseCIDR c then {c} else {})"
  "distinct st \<Longrightarrow> distinct (foldl podNet st cs)"
  "set (foldl serviceAddr st cs) = set st \<union> (\<Union>ip \<in> set cs. host_net (trim_space ip))"
  "distinct st \<Longrightarrow> distinct (foldl serviceAddr st cs)"
  by (rule foldl_union foldl_distinct; simp add: nodeAddr_def podNet_def serviceAddr_def addNonEmpty_set hostCIDR_text)+

lemma nodeNets_set: "set (nodeNets st n) = set st \<union> node_nets n" "distinct st \<Longrightarrow> distinct (nodeNets st n)"
proof -
  show "set (nodeNets st n) = set st \<union> node_nets n"
    by (auto simp: nodeNets_def Let_def node_nets_def loops_set podNet_def case_prod_beta split: if_splits)
  show "distinct st \<Longrightarrow> distinct (nodeNets st n)"
    by (simp add: nodeNets_def Let_def loops_set podNet_def)
qed

lemma serviceNets_set:
  "set (serviceNets st s) = set st \<union> service_nets s" "distinct st \<Longrightarrow> distinct (serviceNets st s)"
proof -
  show "set (serviceNets st s) = set st \<union> service_nets s"
    by (auto simp: serviceNets_def Let_def service_nets_def loops_set serviceAddr_def addNonEmpty_set
        hostCIDR_text some_text_def [of "svc_lb_ip s"])
  show "distinct st \<Longrightarrow> distinct (serviceNets st s)"
    by (simp add: serviceNets_def Let_def loops_set serviceAddr_def addNonEmpty_set)
qed

lemma internal_nets: "{''10.0.0.0/8'', ''172.16.0.0/12'', ''192.168.0.0/16'', ''100.64.0.0/10'', ''fc00::/7'',
    ''fe80::/10''} = set internalSupernets"
  unfolding internalSupernets_def by (simp only: list.set)

text \<open>
  Claim C38. When nodes and services can be listed, the automatic HOME_NET is the sorted list,
  without repetitions, of exactly: the fixed internal networks, the host network of every
  internal or external address of a node, every well-formed pod network, and the host network
  of every load-balancer, external and requested address of a service. The host network of an
  address is its text with /32 for IPv4, a mapped IPv4 address written as IPv6 included, and with
  /128 for any other IPv6 address; a text that is no address adds nothing. So the value does
  not depend on the order of the API's lists.
\<close>

theorem autoHomeNet_exact:
  assumes "net_nodes a = Some nodes" "net_services a = Some svcs"
  shows "\<exists>cs. autoHomeNet a = Inr (''['' @ join '','' cs @ '']'') \<and> sorted cs \<and> distinct cs \<and>
    set cs = {''10.0.0.0/8'', ''172.16.0.0/12'', ''192.168.0.0/16'', ''100.64.0.0/10'', ''fc00::/7'',
      ''fe80::/10''} \<union>
      (\<Union>n \<in> set nodes. node_nets n) \<union> (\<Union>s \<in> set svcs. service_nets s)"
proof -
  let ?s0 = "foldl (\<lambda>s c. List.insert c s) [] internalSupernets"
  let ?st = "foldl serviceNets (foldl nodeNets ?s0 nodes) svcs"
  have "distinct ?st"
    by (intro foldl_distinct nodeNets_set(2) serviceNets_set(2)) simp_all
  moreover have "set ?st = set internalSupernets \<union> (\<Union>n \<in> set nodes. node_nets n) \<union> (\<Union>s \<in> set svcs. service_nets s)"
    using foldl_union [of nodeNets node_nets ?s0 nodes, OF nodeNets_set(1)]
      foldl_union [of serviceNets service_nets "foldl nodeNets ?s0 nodes" svcs, OF serviceNets_set(1)]
      set_foldl_insert [of "[]" internalSupernets] by simp
  ultimately show ?thesis
    using assms unfolding internal_nets
    by (intro exI [of _ "sort ?st"]) (simp add: autoHomeNet_def addLoadBalancerIPs_def)
qed

definition sample_net :: net_api where
  "sample_net =
     \<lparr>net_nodes = Some [\<lparr>nd_addresses = [(''InternalIP'', ''192.0.2.7''), (''Hostname'', ''192.0.2.8'')],
        nd_pod_cidr = ''198.51.100.0/24'', nd_pod_cidrs = []\<rparr>],
      net_services = Some []\<rparr>"

lemma autoHomeNet_exact_witness:
  "\<exists>cs. autoHomeNet sample_net = Inr (''['' @ join '','' cs @ '']'') \<and>
     ''192.0.2.7/32'' \<in> set cs \<and> ''198.51.100.0/24'' \<in> set cs"
proof -
  let ?n = "\<lparr>nd_addresses = [(''InternalIP'', ''192.0.2.7''), (''Hostname'', ''192.0.2.8'')],
    nd_pod_cidr = ''198.51.100.0/24'', nd_pod_cidrs = []\<rparr>"
  have "host_net ''192.0.2.7'' = {''192.0.2.7/32''}" "ParseCIDR ''198.51.100.0/24''" by code_simp+
  then have "''192.0.2.7/32'' \<in> node_nets ?n" "''198.51.100.0/24'' \<in> node_nets ?n"
    unfolding node_nets_def by auto
  moreover have "net_nodes sample_net = Some [?n]" "net_services sample_net = Some []"
    by (simp_all only: sample_net_def net_api.simps)
  ultimately show ?thesis
    using autoHomeNet_exact [of sample_net "[?n]" "[]"] by fastforce
qed

section \<open>Effect of a reconcile\<close>

abbreviation external :: string where
  "external \<equiv> ''!$HOME_NET''"

text \<open>What is at a key of \<^verbatim>\<open>ids.address_vars\<close>.\<close>

definition addressVars :: "ydoc \<Rightarrow> ydoc" where
  "addressVars root = doc_of (as_map (fmlookup (doc_of (as_map (fmlookup root ''ids''))) ''address_vars''))"

lemma addressVars_with:
  "addressVars (withAddressVars h e root) =
     fmupd ''EXTERNAL_NET'' (YStr e) (fmupd ''HOME_NET'' (YStr h) (addressVars root))"
  by (simp add: addressVars_def withAddressVars_def Let_def)

lemma nestedMap_vars:
  "nestedMap root [''ids'', ''address_vars''] = None \<Longrightarrow> addressVars root = fmempty"
  "nestedMap root [''ids'', ''address_vars''] = Some av \<Longrightarrow> addressVars root = av"
  by (auto simp: addressVars_def split: option.splits)

lemma currentHomeNet_vars:
  assumes "um raw = Inr d"
  shows "currentHomeNet um raw = (case as_str (fmlookup (addressVars (doc_of d)) ''HOME_NET'') of None \<Rightarrow> [] | Some v \<Rightarrow> trim_space v)"
  using nestedMap_vars [of "doc_of d"] by (auto simp: currentHomeNet_def assms split: option.split)

lemma currentHomeNet_with:
  "um t = Inr (Some (withAddressVars h e root)) \<Longrightarrow> currentHomeNet um t = trim_space h"
  by (simp add: currentHomeNet_vars addressVars_with)

text \<open>When both variables are there already, setting them changes nothing.\<close>

lemma with_same:
  assumes "fmlookup (addressVars root) ''HOME_NET'' = Some (YStr h)" "fmlookup (addressVars root) ''EXTERNAL_NET'' = Some (YStr e)"
  shows "withAddressVars h e root = root"
proof -
  obtain ids where i: "as_map (fmlookup root ''ids'') = Some ids"
    using assms(1) by (cases "as_map (fmlookup root ''ids'')") (auto simp: addressVars_def)
  obtain av where a: "as_map (fmlookup ids ''address_vars'') = Some av"
    using assms(1) i by (cases "as_map (fmlookup ids ''address_vars'')") (auto simp: addressVars_def)
  have "addressVars root = av" using i a by (simp add: addressVars_def)
  then show ?thesis using assms i a by (simp add: withAddressVars_def fmupd_same)
qed

lemma setIds_result:
  assumes "um raw = Inr d" "h \<noteq> []" "setIdsAddressVars um ma raw h external = Inr (t, ch)"
    and "reads_back um ma (withAddressVars h external (doc_of d))"
  shows "um t = Inr (Some (withAddressVars h external (doc_of d)))" "\<not> ch \<Longrightarrow> t = raw"
proof -
  let ?av = "addressVars (doc_of d)"
  let ?same = "(case as_str (fmlookup ?av ''HOME_NET'') of None \<Rightarrow> [] | Some v \<Rightarrow> v) = h \<and>
    (case as_str (fmlookup ?av ''EXTERNAL_NET'') of None \<Rightarrow> [] | Some v \<Rightarrow> v) = external"
  have r: "setIdsAddressVars um ma raw h external = (if ?same then Inr (raw, False)
      else case ma (withAddressVars h external (doc_of d)) of
        Inl e \<Rightarrow> Inl (''marshal config.yaml: '' @ e) | Inr t \<Rightarrow> Inr (t, True))"
    by (simp add: setIdsAddressVars_def assms(1) Let_def addressVars_def)
  have "um t = Inr (Some (withAddressVars h external (doc_of d))) \<and> (\<not> ch \<longrightarrow> t = raw)"
  proof (cases ?same)
    case True
    then have v: "fmlookup ?av ''HOME_NET'' = Some (YStr h)" "fmlookup ?av ''EXTERNAL_NET'' = Some (YStr external)"
      using assms(2) by (auto split: option.splits)
    obtain root where d: "d = Some root" using v(1) by (cases d) (auto simp: addressVars_def)
    then have "withAddressVars h external root = root" using v by (intro with_same) simp_all
    moreover have "t = raw" using r True assms(3) by simp
    ultimately show ?thesis using assms(1) d by simp
  next
    case False
    then show ?thesis using r assms(3,4) by (auto simp: reads_back_def split: sum.splits)
  qed
  then show "um t = Inr (Some (withAddressVars h external (doc_of d)))" "\<not> ch \<Longrightarrow> t = raw" by blast+
qed

lemma setIds_same:
  assumes "um t = Inr (Some (withAddressVars h external root))"
  shows "setIdsAddressVars um ma t h external = Inr (t, False)"
  using addressVars_with [of h external root]
  by (simp add: setIdsAddressVars_def assms Let_def addressVars_def)

text \<open>The object a reconcile wrote.\<close>

lemma netvars_written:
  assumes run: "netvarsReconcile um ma upd a (Found cm) = Inr (Some cm')"
    and raw: "gget (cm_data cm) SynapseConfigKey = Some raw" "um raw = Inr d"
    and want: "desiredHomeNet um a cm raw = Inr (h, manual)"
    and codec: "reads_back um ma (withAddressVars h external (doc_of d))"
  obtains t where "um t = Inr (Some (withAddressVars h external (doc_of d)))" "isNetVarsSource cm" "h \<noteq> []"
    "cm' = cm\<lparr>cm_data := gput SynapseConfigKey t (cm_data cm),
       cm_annotations := gput NetVarsManagedAnnotation (if manual then ''manual'' else ''auto'') (cm_annotations cm)\<rparr>"
proof -
  have src: "isNetVarsSource cm" "netvarsSource um ma upd a cm raw = Inr (Some cm')"
    using run raw by (auto simp: netvarsReconcile_def split: if_splits)
  obtain t ch where t: "h \<noteq> []" "setIdsAddressVars um ma raw h external = Inr (t, ch)"
    "cm' = cm\<lparr>cm_data := gput SynapseConfigKey t (cm_data cm),
       cm_annotations := gput NetVarsManagedAnnotation (if manual then ''manual'' else ''auto'') (cm_annotations cm)\<rparr>"
    using src(2) want by (auto simp: netvarsSource_def Let_def split: if_splits sum.splits)
  then show ?thesis using that setIds_result(1) [OF raw(2) t(1,2) codec] src(1) by blast
qed

text \<open>
  What a reconcile writes: the two variables of the IDS section hold the wanted list
  and its complement, the marker records whether the list is pinned, and nothing else of the
  object changes, neither another key of its data nor another value of the document.
\<close>

theorem netvars_effect:
  assumes "netvarsReconcile um ma upd a (Found cm) = Inr (Some cm')"
    and "gget (cm_data cm) SynapseConfigKey = Some raw" "um raw = Inr d"
    and "desiredHomeNet um a cm raw = Inr (h, manual)"
    and "reads_back um ma (withAddressVars h external (doc_of d))"
  shows "\<exists>t d'. gget (cm_data cm') = (gget (cm_data cm))(SynapseConfigKey \<mapsto> t) \<and> um t = Inr (Some d') \<and>
    at_path d' [''ids'', ''address_vars'', ''HOME_NET''] = Some (YStr h) \<and>
    at_path d' [''ids'', ''address_vars'', ''EXTERNAL_NET''] = Some (YStr external) \<and>
    (\<forall>k. k \<noteq> ''ids'' \<longrightarrow> fmlookup d' k = fmlookup (doc_of d) k) \<and>
    (\<forall>k. k \<noteq> ''address_vars'' \<longrightarrow> at_path d' [''ids'', k] = at_path (doc_of d) [''ids'', k]) \<and>
    (\<forall>k. k \<noteq> ''HOME_NET'' \<and> k \<noteq> ''EXTERNAL_NET'' \<longrightarrow>
       at_path d' [''ids'', ''address_vars'', k] = at_path (doc_of d) [''ids'', ''address_vars'', k]) \<and>
    gget (cm_annotations cm') =
      (gget (cm_annotations cm))(NetVarsManagedAnnotation \<mapsto> if manual then ''manual'' else ''auto'') \<and>
    cm_labels cm' = cm_labels cm \<and> cm_binary cm' = cm_binary cm"
proof -
  obtain t where t: "um t = Inr (Some (withAddressVars h external (doc_of d)))"
    "cm' = cm\<lparr>cm_data := gput SynapseConfigKey t (cm_data cm),
       cm_annotations := gput NetVarsManagedAnnotation (if manual then ''manual'' else ''auto'') (cm_annotations cm)\<rparr>"
    by (rule netvars_written [OF assms])
  have other: "as_map v = None \<or> v = Some (YMap (doc_of (as_map v)))" for v by (cases "as_map v") auto
  show ?thesis
    using t(1) by (intro exI [of _ t] exI [of _ "withAddressVars h external (doc_of d)"])
      (auto simp: t(2) gmap_simps withAddressVars_def Let_def split: option.splits)
qed

text \<open>
  The resolver settles and keeps following the cluster: after a write, reconciling the
  written object against the same nodes and services writes nothing; and when the list was
  derived (not pinned), every later reconcile derives it again from the nodes and services of
  that time, although the document then holds a concrete list.
\<close>

lemma netvars_again:
  assumes "netvarsReconcile um ma upd a (Found cm) = Inr (Some cm')"
    and "gget (cm_data cm) SynapseConfigKey = Some raw" "um raw = Inr d"
    and "desiredHomeNet um a cm raw = Inr (h, manual)"
    and "reads_back um ma (withAddressVars h external (doc_of d))"
  shows "netvarsReconcile um ma upd a (Found cm') = Inr None \<and>
    (\<not> manual \<longrightarrow> (\<forall>a' t v. gget (cm_data cm') SynapseConfigKey = Some t \<and> autoHomeNet a' = Inr v \<longrightarrow>
       desiredHomeNet um a' cm' t = Inr (v, False)))"
proof -
  obtain t where t: "um t = Inr (Some (withAddressVars h external (doc_of d)))" "isNetVarsSource cm" "h \<noteq> []"
    "cm' = cm\<lparr>cm_data := gput SynapseConfigKey t (cm_data cm),
       cm_annotations := gput NetVarsManagedAnnotation (if manual then ''manual'' else ''auto'') (cm_annotations cm)\<rparr>"
    by (rule netvars_written [OF assms])
  let ?marker = "if manual then ''manual'' else ''auto''"
  have keys: "HomeNetOverrideAnnotation \<noteq> NetVarsManagedAnnotation"
    by (simp add: HomeNetOverrideAnnotation_def NetVarsManagedAnnotation_def)
  have ann: "gstr (cm_annotations cm') HomeNetOverrideAnnotation = gstr (cm_annotations cm) HomeNetOverrideAnnotation"
    "ghas (cm_annotations cm') HomeNetOverrideAnnotation = ghas (cm_annotations cm) HomeNetOverrideAnnotation"
    "gstr (cm_annotations cm') NetVarsManagedAnnotation = ?marker"
    using keys by (simp_all add: t(4) gstr_def gmap_simps ghas_def)
  let ?ov = "ghas (cm_annotations cm) HomeNetOverrideAnnotation \<and> trim_space (gstr (cm_annotations cm) HomeNetOverrideAnnotation) \<noteq> []"
  have data: "gget (cm_data cm') SynapseConfigKey = Some t" by (simp add: t(4) gmap_simps)
  have cur: "currentHomeNet um t = trim_space h" by (rule currentHomeNet_with [of um t, OF t(1)])
  have follow: "desiredHomeNet um a' cm' t = Inr (v, False)" if "\<not> manual" "autoHomeNet a' = Inr v" for a' v
  proof -
    have "\<not> ?ov" using assms(4) that(1) by (auto simp: desiredHomeNet_def Let_def split: if_splits)
    then show ?thesis using that ann by (auto simp: desiredHomeNet_def Let_def)
  qed
  have again: "desiredHomeNet um a cm' t = Inr (h, manual)"
  proof (cases ?ov)
    case True
    then show ?thesis using assms(4) ann by (simp add: desiredHomeNet_def Let_def)
  next
    case no: False
    show ?thesis
    proof (cases manual)
      case True
      then have "h = currentHomeNet um raw" "h \<noteq> []" "\<not> equal_fold h ''any''"
        using assms(4) no by (auto simp: desiredHomeNet_def Let_def split: if_splits sum.splits)
      moreover from this have "trim_space h = h"
        by (auto simp: currentHomeNet_def split: sum.splits option.splits)
      ultimately show ?thesis using no True ann cur by (simp add: desiredHomeNet_def Let_def)
    next
      case False
      then have "autoHomeNet a = Inr h"
        using assms(4) no by (auto simp: desiredHomeNet_def Let_def split: if_splits sum.splits)
      then show ?thesis using follow [OF False] False by simp
    qed
  qed
  have "isNetVarsSource cm'" using t(2) by (simp add: t(4) isNetVarsSource_def)
  then have "netvarsReconcile um ma upd a (Found cm') = Inr None"
    using again t(3) setIds_same [of um t, OF t(1)] ann(3)
    by (simp add: netvarsReconcile_def data netvarsSource_def)
  then show ?thesis using follow data by auto
qed

text \<open>
  A list that came from the override annotation survives the annotation: once it has
  been written and the annotation is removed, the written list counts as pinned by the user, for
  every state of the cluster, so the automatic list is not restored.
\<close>

theorem netvars_override_sticks:
  assumes "netvarsReconcile um ma upd a (Found cm) = Inr (Some cm')"
    and "gget (cm_data cm) SynapseConfigKey = Some raw" "um raw = Inr d"
    and ov: "gget (cm_annotations cm) HomeNetOverrideAnnotation = Some ov" "trim_space ov \<noteq> []"
      "\<not> equal_fold (trim_space ov) ''any''"
    and "reads_back um ma (withAddressVars (trim_space ov) external (doc_of d))"
    and removed: "cm'' = cm'\<lparr>cm_annotations := gdel HomeNetOverrideAnnotation (cm_annotations cm')\<rparr>"
      "gget (cm_data cm'') SynapseConfigKey = Some t"
  shows "desiredHomeNet um a' cm'' t = Inr (trim_space ov, True)"
proof -
  have want: "desiredHomeNet um a cm raw = Inr (trim_space ov, True)"
    using ov by (simp add: desiredHomeNet_def ghas_def gstr_def)
  obtain t' where t: "um t' = Inr (Some (withAddressVars (trim_space ov) external (doc_of d)))"
    "cm' = cm\<lparr>cm_data := gput SynapseConfigKey t' (cm_data cm),
       cm_annotations := gput NetVarsManagedAnnotation (if True then ''manual'' else ''auto'') (cm_annotations cm)\<rparr>"
    by (rule netvars_written [OF assms(1-3) want assms(7)])
  have "t = t'" using removed t(2) by (simp add: gmap_simps)
  moreover have "HomeNetOverrideAnnotation \<noteq> NetVarsManagedAnnotation"
    by (simp add: HomeNetOverrideAnnotation_def NetVarsManagedAnnotation_def)
  ultimately show ?thesis
    using currentHomeNet_with [of um t', OF t(1)] ov
    by (simp add: desiredHomeNet_def removed(1) t(2) ghas_def gstr_def gmap_simps Let_def)
qed

section \<open>A source\<close>

text \<open>A configuration with HOME_NET \<^verbatim>\<open>any\<close>; the reader knows the text and what is written for it.\<close>

definition idsDoc :: ydoc where
  "idsDoc = fmupd ''ids'' (YMap (fmupd ''address_vars'' (YMap (fmupd ''HOME_NET'' (YStr ''any'') fmempty)) fmempty)) fmempty"

definition netApi :: net_api where
  "netApi = \<lparr>net_nodes = Some [], net_services = Some []\<rparr>"

definition noteReader :: "string \<Rightarrow> yreader" where
  "noteReader h t = (if t = ''raw'' then Inr (Some idsDoc) else Inr (Some (withAddressVars h external idsDoc)))"

definition noteWriter :: ywriter where
  "noteWriter d = Inr ''new''"

definition idsMap :: "(string \<times> string) list \<Rightarrow> configmap" where
  "idsMap ann = \<lparr>cm_ns = ''ns'', cm_name = ''agent'', cm_labels = [(NetVarsSourceLabel, ''true'')],
     cm_annotations = ann, cm_data = [(SynapseConfigKey, ''raw'')], cm_binary = []\<rparr>"

definition autoList :: string where
  "autoList = (case autoHomeNet netApi of Inl _ \<Rightarrow> [] | Inr v \<Rightarrow> v)"

lemma note_facts:
  "gget (cm_data (idsMap ann)) SynapseConfigKey = Some ''raw''" "noteReader h ''raw'' = Inr (Some idsDoc)"
  "reads_back (noteReader h) noteWriter (withAddressVars h external (doc_of (Some idsDoc)))"
  "isNetVarsSource (idsMap ann)" "autoHomeNet netApi = Inr autoList" "autoList \<noteq> []"
  "equal_fold ''any'' ''any''" "currentHomeNet (noteReader h) ''raw'' = ''any''"
  "h' \<noteq> ''any'' \<Longrightarrow> setIdsAddressVars (noteReader h) noteWriter ''raw'' h' external = Inr (''new'', True)"
  "hd autoList = CHR ''[''"
proof -
  have t: "trim_space ''any'' = ''any''" by (rule trim_space_id) (simp_all add: visible_byte_def)
  obtain cs where "autoHomeNet netApi = Inr (''['' @ join '','' cs @ '']'')"
    using autoHomeNet_exact [of netApi "[]" "[]"] by (auto simp: netApi_def)
  then show "autoHomeNet netApi = Inr autoList" "autoList \<noteq> []" "hd autoList = CHR ''[''" by (simp_all add: autoList_def)
  show "currentHomeNet (noteReader h) ''raw'' = ''any''"
    by (simp add: currentHomeNet_vars [of "noteReader h" "''raw''" "Some idsDoc"] noteReader_def addressVars_def idsDoc_def t)
qed (simp_all add: idsMap_def noteReader_def noteWriter_def reads_back_def isNetVarsSource_def gstr_def equal_fold_def
    setIdsAddressVars_def idsDoc_def Let_def)

lemma auto_run:
  "desiredHomeNet (noteReader autoList) netApi (idsMap []) ''raw'' = Inr (autoList, False)"
  "\<exists>cm'. netvarsReconcile (noteReader autoList) noteWriter (\<lambda>_. True) netApi (Found (idsMap [])) = Inr (Some cm')"
proof -
  show want: "desiredHomeNet (noteReader autoList) netApi (idsMap []) ''raw'' = Inr (autoList, False)"
    using note_facts by (simp add: desiredHomeNet_def Let_def ghas_def idsMap_def)
  have "autoList \<noteq> ''any''"
  proof
    assume "autoList = ''any''"
    then have "hd autoList = hd ''any''" by (rule arg_cong)
    then show False unfolding note_facts(10) by simp
  qed
  then show "\<exists>cm'. netvarsReconcile (noteReader autoList) noteWriter (\<lambda>_. True) netApi (Found (idsMap [])) = Inr (Some cm')"
    using note_facts want by (simp add: netvarsReconcile_def netvarsSource_def Let_def)
qed

lemma netvars_effect_witness:
  "\<exists>cm' t d'. netvarsReconcile (noteReader autoList) noteWriter (\<lambda>_. True) netApi (Found (idsMap [])) = Inr (Some cm') \<and>
     gget (cm_data cm') SynapseConfigKey = Some t \<and> noteReader autoList t = Inr (Some d') \<and>
     at_path d' [''ids'', ''address_vars'', ''HOME_NET''] = Some (YStr autoList)"
proof -
  obtain cm' where r: "netvarsReconcile (noteReader autoList) noteWriter (\<lambda>_. True) netApi (Found (idsMap [])) = Inr (Some cm')"
    using auto_run(2) by blast
  then show ?thesis using netvars_effect [OF r note_facts(1,2) auto_run(1) note_facts(3)] by fastforce
qed

lemma netvars_override_sticks_witness:
  "\<exists>cm' t. netvarsReconcile (noteReader ''1.2.3.4'') noteWriter (\<lambda>_. True) netApi
       (Found (idsMap [(HomeNetOverrideAnnotation, ''1.2.3.4'')])) = Inr (Some cm') \<and>
     desiredHomeNet (noteReader ''1.2.3.4'') netApi
       (cm'\<lparr>cm_annotations := gdel HomeNetOverrideAnnotation (cm_annotations cm')\<rparr>) t = Inr (''1.2.3.4'', True)"
proof -
  let ?um = "noteReader ''1.2.3.4''" and ?cm = "idsMap [(HomeNetOverrideAnnotation, ''1.2.3.4'')]"
  have t: "trim_space ''1.2.3.4'' = ''1.2.3.4''" by (rule trim_space_id) (simp_all add: visible_byte_def)
  have ne: "\<not> equal_fold ''1.2.3.4'' ''any''" by code_simp
  have ov: "gget (cm_annotations ?cm) HomeNetOverrideAnnotation = Some ''1.2.3.4''" by (simp add: idsMap_def)
  have want: "desiredHomeNet ?um netApi ?cm ''raw'' = Inr (''1.2.3.4'', True)"
    using ov by (simp add: desiredHomeNet_def ghas_def gstr_def t)
  then obtain cm' where r: "netvarsReconcile ?um noteWriter (\<lambda>_. True) netApi (Found ?cm) = Inr (Some cm')"
    using note_facts by (simp add: netvarsReconcile_def netvarsSource_def Let_def)
  let ?cm'' = "cm'\<lparr>cm_annotations := gdel HomeNetOverrideAnnotation (cm_annotations cm')\<rparr>"
  obtain x where "gget (cm_data cm') SynapseConfigKey = Some x"
    using netvars_effect [OF r note_facts(1,2) want note_facts(3)] by auto
  then have x: "gget (cm_data ?cm'') SynapseConfigKey = Some x" by simp
  show ?thesis
    using netvars_override_sticks [OF r note_facts(1,2) ov _ _ _ refl x, of netApi] r ne note_facts(3) by (auto simp: t)
qed

end
