(* ===== verification/Resolver.thy ===== *)
theory Resolver
  imports Yaml Reconcile
begin

text \<open>
  controllers/upstreams_resolver.go: the backends of a hand-written upstreams document are
  replaced by the ClusterIPs of their Services, and the result is written to a sibling
  ConfigMap owned by the source. \<open>get\<close> is the API's read of a Service (\<open>None\<close>: any error).
\<close>

section \<open>One server\<close>

type_synonym svc_get = "string \<Rightarrow> string \<Rightarrow> service option"

definition splitHostPort :: "string \<Rightarrow> string \<times> string \<times> bool" where
  "splitHostPort addr =
     (case split_last (CHR '':'') addr of
        None \<Rightarrow> ([], [], False)
      | Some (h, port) \<Rightarrow>
          (let host = trim_prefix (trim_suffix h '']'') ''['' in (host, port, host \<noteq> [] \<and> port \<noteq> [])))"

definition isIPLiteral :: "string \<Rightarrow> bool" where
  "isIPLiteral host \<longleftrightarrow>
     CHR '':'' \<in> set host \<or>
     list_all (\<lambda>c. c = CHR ''.'' \<or> is_digit c) host \<and> length (filter (\<lambda>c. c = CHR ''.'') host) = 3"

text \<open>The namespace and name of a Service from its cluster name.\<close>

definition parseClusterFQDN :: "string \<Rightarrow> string \<Rightarrow> (string \<times> string) option" where
  "parseClusterFQDN domain host =
     (let suffix = ''.svc.'' @ (if domain = [] then ''cluster.local'' else domain) in
      if \<not> has_suffix host suffix then None
      else case split_on (CHR ''.'') (trim_suffix host suffix) of
        [name, ns] \<Rightarrow> Some (ns, name)
      | _ \<Rightarrow> None)"

text \<open>The Service a host refers to: a cluster name, or a bare label in the source's namespace.\<close>

definition serviceRef :: "string \<Rightarrow> string \<Rightarrow> string \<Rightarrow> (string \<times> string) option" where
  "serviceRef domain ns host =
     (case parseClusterFQDN domain host of
        Some r \<Rightarrow> Some r
      | None \<Rightarrow> if CHR ''.'' \<in> set host then None else Some (ns, host))"

definition rewriteServer :: "svc_get \<Rightarrow> string \<Rightarrow> string \<Rightarrow> string \<Rightarrow> string \<times> bool" where
  "rewriteServer get domain ns addr =
     (case splitHostPort addr of (host, port, ok) \<Rightarrow>
        if \<not> ok \<or> isIPLiteral host then (addr, False)
        else case serviceRef domain ns host of
          None \<Rightarrow> (addr, False)
        | Some (sns, name) \<Rightarrow>
            (case get sns name of
               None \<Rightarrow> (addr, False)
             | Some svc \<Rightarrow>
                 if svc_cluster_ip svc = [] \<or> svc_cluster_ip svc = ''None'' then (addr, False)
                 else (svc_cluster_ip svc @ '':'' @ port, True)))"

section \<open>The document\<close>

type_synonym rewriter = "string \<Rightarrow> string \<times> bool"

fun serverVal :: "rewriter \<Rightarrow> yval \<Rightarrow> yval" where
  "serverVal rw (YStr a) = YStr (fst (rw a))"
| "serverVal rw v = v"

definition resolvePath :: "rewriter \<Rightarrow> yval \<Rightarrow> yval" where
  "resolvePath rw v =
     (case as_map (Some v) of
        None \<Rightarrow> v
      | Some pm \<Rightarrow>
          (case as_list (fmlookup pm ''servers'') of
             None \<Rightarrow> v
           | Some sv \<Rightarrow> YMap (fmupd ''servers'' (YList (map (serverVal rw) sv)) pm)))"

definition resolveHost :: "rewriter \<Rightarrow> yval \<Rightarrow> yval" where
  "resolveHost rw v =
     (case as_map (Some v) of
        None \<Rightarrow> v
      | Some hm \<Rightarrow>
          (case as_map (fmlookup hm ''paths'') of
             None \<Rightarrow> v
           | Some paths \<Rightarrow> YMap (fmupd ''paths'' (YMap (fmmap (resolvePath rw) paths)) hm)))"

definition resolveRoot :: "rewriter \<Rightarrow> ydoc \<Rightarrow> ydoc option" where
  "resolveRoot rw root =
     (case as_map (fmlookup root ''upstreams'') of
        None \<Rightarrow> None
      | Some ups \<Rightarrow> Some (fmupd ''upstreams'' (YMap (fmmap (resolveHost rw) ups)) root))"

text \<open>The counters of the log line: the string servers of a path, and those that were resolved.\<close>

record resolution_summary =
  rs_total :: int
  rs_resolved :: int
  rs_passthrough :: int

definition pathServers :: "yval \<Rightarrow> string list" where
  "pathServers v =
     (case as_map (Some v) of
        None \<Rightarrow> []
      | Some pm \<Rightarrow> (case as_list (fmlookup pm ''servers'') of None \<Rightarrow> []
                 | Some sv \<Rightarrow> List.map_filter (\<lambda>x. as_str (Some x)) sv))"

definition sumDoc :: "(yval \<Rightarrow> int) \<Rightarrow> ydoc \<Rightarrow> int" where
  "sumDoc f m = (\<Sum>k \<in> fmdom' m. f (the (fmlookup m k)))"

definition hostSum :: "(string list \<Rightarrow> int) \<Rightarrow> yval \<Rightarrow> int" where
  "hostSum f v =
     (case as_map (Some v) of
        None \<Rightarrow> 0
      | Some hm \<Rightarrow> (case as_map (fmlookup hm ''paths'') of None \<Rightarrow> 0
                 | Some paths \<Rightarrow> sumDoc (\<lambda>p. f (pathServers p)) paths))"

definition resolveSummary :: "rewriter \<Rightarrow> ydoc \<Rightarrow> resolution_summary" where
  "resolveSummary rw root =
     (let ups = doc_of (as_map (fmlookup root ''upstreams'')) in
      \<lparr>rs_total = sumDoc (hostSum (\<lambda>as. int (length as))) ups,
       rs_resolved = sumDoc (hostSum (\<lambda>as. int (length (filter (\<lambda>a. snd (rw a)) as)))) ups,
       rs_passthrough = sumDoc (hostSum (\<lambda>as. int (length (filter (\<lambda>a. \<not> snd (rw a)) as)))) ups\<rparr>)"

definition resolveYAML ::
  "yreader \<Rightarrow> ywriter \<Rightarrow> svc_get \<Rightarrow> string \<Rightarrow> string \<Rightarrow> string \<Rightarrow> string + string \<times> resolution_summary" where
  "resolveYAML um ma get domain ns raw =
     (case um raw of
        Inl e \<Rightarrow> Inl (''unmarshal upstreams.yaml: '' @ e)
      | Inr d \<Rightarrow>
          (let rw = rewriteServer get domain ns in
           case resolveRoot rw (doc_of d) of
             None \<Rightarrow> Inr (raw, \<lparr>rs_total = 0, rs_resolved = 0, rs_passthrough = 0\<rparr>)
           | Some root \<Rightarrow>
               (case ma root of
                  Inl e \<Rightarrow> Inl (''marshal resolved upstreams: '' @ e)
                | Inr t \<Rightarrow> Inr (t, resolveSummary rw (doc_of d)))))"

section \<open>Reconcile\<close>

definition ResolverSourceLabel :: string where "ResolverSourceLabel = ''synapse.gen0sec.com/resolve-upstreams''"
definition ResolvedConfigMapAnnotation :: string where "ResolvedConfigMapAnnotation = ''synapse.gen0sec.com/resolved-configmap''"
definition ResolvedOutputLabel :: string where "ResolvedOutputLabel = ''synapse.gen0sec.com/resolved-upstreams-for''"

definition isResolverSource :: "configmap \<Rightarrow> bool" where
  "isResolverSource cm \<longleftrightarrow>
     gget (cm_labels cm) ResolverSourceLabel = Some ''true'' \<or> gget (cm_labels cm) ResolverSourceLabel = Some ''1''"

definition resolvedOutputName :: "configmap \<Rightarrow> string" where
  "resolvedOutputName src =
     (case gget (cm_annotations src) ResolvedConfigMapAnnotation of
        Some n \<Rightarrow> if n \<noteq> [] then n else cm_name src @ ''-resolved''
      | None \<Rightarrow> cm_name src @ ''-resolved'')"

text \<open>The sources a change of a Service re-queues: those the label selector of the listing finds.\<close>

definition enqueueAllSources :: "configmap list option \<Rightarrow> (string \<times> string) list" where
  "enqueueAllSources listing =
     (case listing of
        None \<Rightarrow> []
      | Some cms \<Rightarrow> map (\<lambda>cm. (cm_ns cm, cm_name cm))
          (filter (\<lambda>cm. gget (cm_labels cm) ResolverSourceLabel = Some ''true'') cms))"

text \<open>
  \<open>setref\<close> is \<^verbatim>\<open>SetControllerReference\<close> and \<open>cou\<close> is \<^verbatim>\<open>CreateOrUpdate\<close> with its client, for a mutate
  function that may fail; both are library code.
\<close>

type_synonym set_ref = "configmap \<Rightarrow> configmap \<Rightarrow> string + configmap"
type_synonym 'w cou_f = "'w \<Rightarrow> string \<times> string \<Rightarrow> (configmap option \<Rightarrow> string + configmap) \<Rightarrow> (string + cou_op) \<times> 'w"

definition mutateResolved :: "set_ref \<Rightarrow> configmap \<Rightarrow> string \<times> string \<Rightarrow> string \<Rightarrow> configmap option \<Rightarrow> string + configmap" where
  "mutateResolved setref src key resolved cur =
     (let out = (case cur of Some x \<Rightarrow> x
                 | None \<Rightarrow> \<lparr>cm_ns = fst key, cm_name = snd key, cm_labels = [], cm_annotations = [],
                            cm_data = [], cm_binary = []\<rparr>)
      in setref src (out\<lparr>cm_labels := gput ResolvedOutputLabel (cm_name src) (cm_labels out),
                         cm_data := gput UpstreamsKey resolved (cm_data out)\<rparr>))"

definition resolverReconcile ::
  "yreader \<Rightarrow> ywriter \<Rightarrow> svc_get \<Rightarrow> string \<Rightarrow> set_ref \<Rightarrow> 'w cou_f \<Rightarrow> configmap got \<Rightarrow> 'w \<Rightarrow> string option \<times> 'w" where
  "resolverReconcile um ma get domain setref cou got w =
     (case got of
        Missing \<Rightarrow> (None, w)
      | GetFailed e \<Rightarrow> (Some e, w)
      | Found src \<Rightarrow>
          if \<not> isResolverSource src then (None, w)
          else case gget (cm_data src) UpstreamsKey of
            None \<Rightarrow> (None, w)
          | Some raw \<Rightarrow>
              (case resolveYAML um ma get domain (cm_ns src) raw of
                 Inl e \<Rightarrow> (Some e, w)
               | Inr (resolved, _) \<Rightarrow>
                   (let key = (cm_ns src, resolvedOutputName src) in
                    case cou w key (mutateResolved setref src key resolved) of
                      (Inl e, w1) \<Rightarrow> (Some e, w1)
                    | (Inr _, w1) \<Rightarrow> (None, w1))))"

section \<open>Servers\<close>

lemma split_last_suffix: "CHR '':'' \<notin> set port \<Longrightarrow> split_last (CHR '':'') (h @ '':'' @ port) = Some (h, port)"
  by (simp add: split_last_Some)

text \<open>A host that is neither bracketed nor ends in a bracket is taken as it is.\<close>

definition plain_host :: "string \<Rightarrow> bool" where
  "plain_host h \<longleftrightarrow> h \<noteq> [] \<and> hd h \<noteq> CHR ''['' \<and> last h \<noteq> CHR '']'' "

lemma splitHostPort_plain:
  assumes "plain_host h" "CHR '':'' \<notin> set port" "port \<noteq> []"
  shows "splitHostPort (h @ '':'' @ port) = (h, port, True)"
proof -
  have "\<not> has_suffix h '']''" using assms(1) by (auto simp: has_suffix_iff plain_host_def)
  moreover have "\<not> has_prefix h ''[''" using assms(1) by (auto simp: has_prefix_iff plain_host_def)
  ultimately show ?thesis
    using assms split_last_suffix [OF assms(2), of h]
    by (simp add: splitHostPort_def trim_suffix_def trim_prefix_def plain_host_def)
qed

definition label_ok :: "string \<Rightarrow> bool" where
  "label_ok l \<longleftrightarrow> l \<noteq> [] \<and> list_all (\<lambda>c. c = CHR ''-'' \<or> is_digit c \<or> 97 \<le> byte c \<and> byte c \<le> 122) l"

lemma label_chars:
  assumes "label_ok l" "c = CHR ''.'' \<or> c = CHR '':'' \<or> c = CHR ''['' \<or> c = CHR '']''"
  shows "c \<notin> set l"
proof
  assume "c \<in> set l"
  then have "c = CHR ''-'' \<or> is_digit c \<or> 97 \<le> byte c \<and> byte c \<le> 122"
    using assms(1) unfolding label_ok_def list_all_iff by blast
  then show False using assms(2) by (elim disjE) (simp_all add: is_digit_def)
qed

lemma label_plain: "label_ok l \<Longrightarrow> last t \<noteq> CHR '']'' \<or> t = [] \<Longrightarrow> plain_host (l @ t)"
proof -
  assume l: "label_ok l" and t: "last t \<noteq> CHR '']'' \<or> t = []"
  have ne: "l \<noteq> []" using l by (simp add: label_ok_def)
  have "hd l \<noteq> CHR ''[''" using label_chars [OF l, of "CHR ''[''"] ne hd_in_set [OF ne] by metis
  moreover have "last l \<noteq> CHR '']''" using label_chars [OF l, of "CHR '']''"] ne last_in_set [OF ne] by metis
  ultimately show ?thesis using ne t by (cases "t = []") (simp_all add: plain_host_def)
qed

text \<open>The cluster name of a Service is recognised, whatever the (letter-only or default) domain.\<close>

lemma parseClusterFQDN_name:
  assumes "label_ok name" "label_ok sns"
  shows "parseClusterFQDN domain (name @ ''.'' @ sns @ ''.svc.'' @ (if domain = [] then ''cluster.local'' else domain)) = Some (sns, name)"
proof -
  let ?d = "''.svc.'' @ (if domain = [] then ''cluster.local'' else domain)"
  have "split_on (CHR ''.'') (name @ ''.'' @ sns) = [name, sns]"
    using assms label_chars [of _ "CHR ''.''"] by (simp add: split_on_sep split_on_single)
  moreover have "trim_suffix ((name @ ''.'' @ sns) @ ?d) ?d = name @ ''.'' @ sns" by (rule trim_suffix_append)
  moreover have "has_suffix ((name @ ''.'' @ sns) @ ?d) ?d" unfolding has_suffix_iff by blast
  ultimately show ?thesis unfolding parseClusterFQDN_def Let_def by simp
qed

lemma serviceRef_short: "label_ok name \<Longrightarrow> serviceRef domain ns name = Some (ns, name)"
proof -
  assume l: "label_ok name"
  have d: "CHR ''.'' \<notin> set name" using label_chars [OF l] by simp
  have "\<not> has_suffix name (''.svc.'' @ t)" for t using d by (auto simp: has_suffix_iff)
  then show ?thesis using d by (simp add: serviceRef_def parseClusterFQDN_def Let_def)
qed

lemma not_literal:
  assumes "CHR '':'' \<notin> set h" "\<exists>c \<in> set h. c \<noteq> CHR ''.'' \<and> \<not> is_digit c"
  shows "\<not> isIPLiteral h"
  using assms by (auto simp: isIPLiteral_def list_all_iff)

lemma label_not_literal: "label_ok l \<Longrightarrow> \<not> isIPLiteral l"
proof -
  assume l: "label_ok l"
  have "filter (\<lambda>c. c = CHR ''.'') l = []" using label_chars [OF l] by (simp add: filter_empty_conv) metis
  then show ?thesis using label_chars [OF l, of "CHR '':''"] by (simp add: isIPLiteral_def)
qed

text \<open>An entry is left as it was, or becomes the ClusterIP of a Service with its own port.\<close>

lemma rewriteServer_cases:
  obtains "rewriteServer get domain ns addr = (addr, False)"
  | h p n m svc where "addr = h @ '':'' @ p" "CHR '':'' \<notin> set p" "get n m = Some svc"
      "svc_cluster_ip svc \<noteq> []" "svc_cluster_ip svc \<noteq> ''None''"
      "rewriteServer get domain ns addr = (svc_cluster_ip svc @ '':'' @ p, True)"
proof (cases "split_last (CHR '':'') addr")
  case None
  then show ?thesis using that(1) by (simp add: rewriteServer_def splitHostPort_def)
next
  case (Some hp)
  then obtain h p where hp: "hp = (h, p)" "addr = h @ '':'' @ p" "CHR '':'' \<notin> set p"
    by (cases hp) (auto simp: split_last_Some)
  let ?host = "trim_prefix (trim_suffix h '']'') ''[''"
  show ?thesis
  proof (cases "?host = [] \<or> p = [] \<or> isIPLiteral ?host \<or> serviceRef domain ns ?host = None")
    case True
    then show ?thesis using that(1) Some hp(1) by (auto simp: rewriteServer_def splitHostPort_def Let_def)
  next
    case False
    then obtain n m where r: "serviceRef domain ns ?host = Some (n, m)" by auto
    have rw: "rewriteServer get domain ns addr = (case get n m of None \<Rightarrow> (addr, False) | Some svc \<Rightarrow>
        if svc_cluster_ip svc = [] \<or> svc_cluster_ip svc = ''None'' then (addr, False)
        else (svc_cluster_ip svc @ '':'' @ p, True))"
      using False Some hp(1) r by (simp add: rewriteServer_def splitHostPort_def Let_def)
    show ?thesis
    proof (cases "get n m")
      case None
      then show ?thesis using that(1) rw by simp
    next
      case (Some svc)
      then show ?thesis using that(1) that(2) [OF hp(2,3) Some] rw by (auto split: if_splits)
    qed
  qed
qed

text \<open>
  Claim C36. A backend named by its Service is resolved: both the bare name, in the namespace of
  the source, and the full cluster name become the Service's ClusterIP with the port kept,
  when the Service has one; and whatever the text, an entry is either left exactly as it was
  or is a ClusterIP of some Service followed by the entry's own port.
\<close>

theorem rewriteServer_resolves:
  fixes get :: svc_get
  assumes names: "label_ok name" "label_ok sns" and port: "port \<noteq> []" "CHR '':'' \<notin> set port"
    and dom: "CHR '':'' \<notin> set domain" "domain = [] \<or> last domain \<noteq> CHR '']''"
    and svc: "get sns name = Some svc" "svc_cluster_ip svc \<noteq> []" "svc_cluster_ip svc \<noteq> ''None''"
  shows "rewriteServer get domain sns (name @ '':'' @ port) = (svc_cluster_ip svc @ '':'' @ port, True) \<and>
    rewriteServer get domain ns (name @ ''.'' @ sns @ ''.svc.'' @ (if domain = [] then ''cluster.local'' else domain) @ '':'' @ port) =
      (svc_cluster_ip svc @ '':'' @ port, True) \<and>
    (case rewriteServer get domain ns addr of (out, did) \<Rightarrow>
       (\<not> did \<longrightarrow> out = addr) \<and>
       (did \<longrightarrow> (\<exists>h p n m svc'. addr = h @ '':'' @ p \<and> CHR '':'' \<notin> set p \<and> get n m = Some svc' \<and>
          out = svc_cluster_ip svc' @ '':'' @ p)))"
proof (intro conjI)
  show "rewriteServer get domain sns (name @ '':'' @ port) = (svc_cluster_ip svc @ '':'' @ port, True)"
    using splitHostPort_plain [of name port] label_plain [OF names(1), of "[]"] port svc
    by (simp add: rewriteServer_def serviceRef_short [OF names(1)] label_not_literal [OF names(1)])
next
  let ?d = "if domain = [] then ''cluster.local'' else domain"
  let ?h = "name @ ''.'' @ sns @ ''.svc.'' @ ?d"
  have "last (''.'' @ sns @ ''.svc.'' @ ?d) \<noteq> CHR '']''" using dom(2) by auto
  then have p: "plain_host ?h" by (intro label_plain [OF names(1)]) blast
  have colon: "CHR '':'' \<notin> set ?h" using label_chars [OF names(1)] label_chars [OF names(2)] dom(1) by auto
  moreover have "CHR ''s'' \<in> set ?h" by simp
  moreover have "CHR ''s'' \<noteq> CHR ''.'' \<and> \<not> is_digit (CHR ''s'')" by (simp add: is_digit_def)
  ultimately have "\<not> isIPLiteral ?h" using not_literal by blast
  moreover have "splitHostPort (?h @ '':'' @ port) = (?h, port, True)" by (rule splitHostPort_plain [OF p port(2,1)])
  moreover have "serviceRef domain ns ?h = Some (sns, name)"
    unfolding serviceRef_def parseClusterFQDN_name [OF names] by simp
  ultimately have "rewriteServer get domain ns (?h @ '':'' @ port) = (svc_cluster_ip svc @ '':'' @ port, True)"
    unfolding rewriteServer_def using svc by simp
  then show "rewriteServer get domain ns (name @ ''.'' @ sns @ ''.svc.'' @ ?d @ '':'' @ port) = (svc_cluster_ip svc @ '':'' @ port, True)"
    by simp
next
  show "case rewriteServer get domain ns addr of (out, did) \<Rightarrow>
       (\<not> did \<longrightarrow> out = addr) \<and>
       (did \<longrightarrow> (\<exists>h p n m svc'. addr = h @ '':'' @ p \<and> CHR '':'' \<notin> set p \<and> get n m = Some svc' \<and>
          out = svc_cluster_ip svc' @ '':'' @ p))"
    by (cases rule: rewriteServer_cases [of get domain ns addr]) (simp, simp, metis)
qed

section \<open>The document\<close>

text \<open>The servers of a path of a host.\<close>

definition serversAt :: "ydoc \<Rightarrow> string \<Rightarrow> string \<Rightarrow> yval list option" where
  "serversAt root h p = as_list (at_path root [''upstreams'', h, ''paths'', p, ''servers''])"

lemma as_map_resolve [simp]:
  "as_map (Some (resolvePath rw v)) = map_option (\<lambda>pm. case as_list (fmlookup pm ''servers'') of None \<Rightarrow> pm
     | Some sv \<Rightarrow> fmupd ''servers'' (YList (map (serverVal rw) sv)) pm) (as_map (Some v))"
  "as_map (Some (resolveHost rw v)) = map_option (\<lambda>hm. case as_map (fmlookup hm ''paths'') of None \<Rightarrow> hm
     | Some paths \<Rightarrow> fmupd ''paths'' (YMap (fmmap (resolvePath rw) paths)) hm) (as_map (Some v))"
  by (cases v; auto simp: resolvePath_def resolveHost_def split: option.split)+

lemma resolve_other: "as_map (Some v) = None \<Longrightarrow> resolvePath rw v = v" "as_map (Some v) = None \<Longrightarrow> resolveHost rw v = v"
  by (simp_all add: resolvePath_def resolveHost_def)

text \<open>
  Claim C30. Resolution touches the servers only: in the new document the server list of every
  path of every host is the old one with its text entries rewritten, and every other value, of
  a path, of a host or of the document, is as it was.
\<close>

theorem resolveRoot_exact:
  assumes "resolveRoot rw root = Some root'"
  shows "serversAt root' h p = map_option (map (serverVal rw)) (serversAt root h p) \<and>
    (k \<noteq> ''servers'' \<longrightarrow> at_path root' [''upstreams'', h, ''paths'', p, k] = at_path root [''upstreams'', h, ''paths'', p, k]) \<and>
    (k \<noteq> ''paths'' \<longrightarrow> at_path root' [''upstreams'', h, k] = at_path root [''upstreams'', h, k]) \<and>
    (k \<noteq> ''upstreams'' \<longrightarrow> at_path root' [k] = at_path root [k])"
proof -
  obtain ups where u: "fmlookup root ''upstreams'' = Some (YMap ups)"
    and r: "root' = fmupd ''upstreams'' (YMap (fmmap (resolveHost rw) ups)) root"
    using assms by (auto simp: resolveRoot_def split: option.splits)
  show ?thesis
  proof (cases "fmlookup ups h")
    case None
    then show ?thesis by (simp add: serversAt_def u r)
  next
    case h: (Some hv)
    show ?thesis
    proof (cases "as_map (Some hv)")
      case None
      then show ?thesis by (simp add: serversAt_def u r h resolve_other)
    next
      case hm: (Some hm)
      show ?thesis
      proof (cases "as_map (fmlookup hm ''paths'')")
        case None
        then show ?thesis using hm by (simp add: serversAt_def u r h resolveHost_def)
      next
        case ps: (Some paths)
        show ?thesis
        proof (cases "fmlookup paths p")
          case None
          then show ?thesis using hm ps by (simp add: serversAt_def u r h resolveHost_def)
        next
          case p: (Some pv)
          then show ?thesis
            using hm ps by (cases "as_map (Some pv)")
              (auto simp: serversAt_def u r h resolveHost_def resolvePath_def split: option.split)
        qed
      qed
    qed
  qed
qed

lemma resolveRoot_exact_witness:
  "\<exists>root'. resolveRoot (\<lambda>a. (''1.2.3.4:80'', True))
     (fmupd ''upstreams'' (YMap (fmupd ''a.io'' (YMap (fmupd ''paths'' (YMap (fmupd ''/''
        (YMap (fmupd ''servers'' (YList [YStr ''web:80'', YNum ''7'']) fmempty)) fmempty)) fmempty)) fmempty)) fmempty) = Some root' \<and>
     serversAt root' ''a.io'' ''/'' = Some [YStr ''1.2.3.4:80'', YNum ''7'']"
proof -
  let ?root = "fmupd ''upstreams'' (YMap (fmupd ''a.io'' (YMap (fmupd ''paths'' (YMap (fmupd ''/''
        (YMap (fmupd ''servers'' (YList [YStr ''web:80'', YNum ''7'']) fmempty)) fmempty)) fmempty)) fmempty)) fmempty"
  obtain root' where r: "resolveRoot (\<lambda>a. (''1.2.3.4:80'', True)) ?root = Some root'" by (simp add: resolveRoot_def)
  moreover have "serversAt ?root ''a.io'' ''/'' = Some [YStr ''web:80'', YNum ''7'']" by (simp add: serversAt_def)
  ultimately show ?thesis using resolveRoot_exact [OF r, of "''a.io''" "''/''"] by simp
qed

section \<open>Shapes\<close>

text \<open>
  The type of a document: its keys, lists and scalars, with the text of the strings forgotten.
\<close>

primrec shape :: "yval \<Rightarrow> yval" where
  "shape YNull = YNull"
| "shape (YBool b) = YBool b"
| "shape (YNum n) = YNum n"
| "shape (YStr s) = YStr []"
| "shape (YList vs) = YList (map shape vs)"
| "shape (YMap m) = YMap (fmmap shape m)"

lemma fmmap_upd: "fmmap f (fmupd k v m) = fmupd k (f v) (fmmap f m)"
  by (rule fmap_ext) auto

text \<open>A value may be replaced by one of the same shape.\<close>

lemma shape_upd:
  assumes "fmlookup m k = Some v" "shape v' = shape v"
  shows "fmmap shape (fmupd k v' m) = fmmap shape m"
  using assms by (simp add: fmmap_upd fmupd_same)

lemma shape_mapped: "(\<And>v. shape (f v) = shape v) \<Longrightarrow> shape (YMap (fmmap f m)) = shape (YMap m)"
  by (simp add: fmap.map_comp comp_def)

lemma shape_server: "shape (serverVal rw v) = shape v"
  by (cases v) simp_all

lemma shape_path: "shape (resolvePath rw v) = shape v"
  by (auto simp: resolvePath_def comp_def shape_server intro: shape_upd split: option.split)

lemma shape_host: "shape (resolveHost rw v) = shape v"
proof (cases "as_map (Some v)")
  case (Some hm)
  then show ?thesis
    using shape_upd [of hm "''paths''" _ "YMap (fmmap (resolvePath rw) _)"] shape_mapped [of "resolvePath rw", OF shape_path]
    by (auto simp: resolveHost_def split: option.split)
qed (simp add: resolve_other)

text \<open>
  Claim C32. Resolution keeps the type of the document: the result has the same keys at every level,
  lists of the same length, and a map, a list, a string, a number or a boolean where there was one,
  whatever the servers resolve to.
\<close>

theorem resolve_keeps_shape:
  assumes "resolveRoot rw root = Some root'"
  shows "fmmap shape root' = fmmap shape root"
proof -
  obtain ups where u: "fmlookup root ''upstreams'' = Some (YMap ups)"
    and r: "root' = fmupd ''upstreams'' (YMap (fmmap (resolveHost rw) ups)) root"
    using assms by (auto simp: resolveRoot_def split: option.splits)
  show ?thesis unfolding r by (rule shape_upd [OF u shape_mapped]) (rule shape_host)
qed

lemma resolve_keeps_shape_witness:
  "\<exists>root'. resolveRoot (\<lambda>a. (''1.2.3.4:80'', True))
     (fmupd ''upstreams'' (YMap (fmupd ''a.io'' (YMap (fmupd ''paths'' (YMap fmempty) fmempty)) fmempty)) fmempty) = Some root' \<and>
     map_option shape (fmlookup root' ''upstreams'') = Some (YMap (fmupd ''a.io'' (YMap (fmupd ''paths'' (YMap fmempty) fmempty)) fmempty))"
proof -
  let ?root = "fmupd ''upstreams'' (YMap (fmupd ''a.io'' (YMap (fmupd ''paths'' (YMap fmempty) fmempty)) fmempty)) fmempty"
  obtain root' where r: "resolveRoot (\<lambda>a. (''1.2.3.4:80'', True)) ?root = Some root'" by (simp add: resolveRoot_def)
  have "map_option shape (fmlookup root' ''upstreams'') = fmlookup (fmmap shape ?root) ''upstreams''"
    unfolding resolve_keeps_shape [OF r, symmetric] by simp
  then show ?thesis using r by (simp add: fmmap_upd)
qed

section \<open>Resolving again\<close>


text \<open>ClusterIPs are addresses: brackets aside, what the API accepts there is an IP literal.\<close>

definition cluster_ips :: "svc_get \<Rightarrow> bool" where
  "cluster_ips get \<longleftrightarrow> (\<forall>n m svc. get n m = Some svc \<longrightarrow>
     svc_cluster_ip svc = [] \<or> svc_cluster_ip svc = ''None'' \<or>
     isIPLiteral (trim_prefix (trim_suffix (svc_cluster_ip svc) '']'') ''[''))"

lemma rewriteServer_literal:
  assumes "isIPLiteral (trim_prefix (trim_suffix ip '']'') ''['')" "CHR '':'' \<notin> set p"
  shows "rewriteServer get domain ns (ip @ '':'' @ p) = (ip @ '':'' @ p, False)"
  using assms split_last_suffix [OF assms(2), of ip] by (simp add: rewriteServer_def splitHostPort_def Let_def)

lemma rewriteServer_again:
  assumes ips: "cluster_ips get" and first: "rewriteServer get domain ns addr = (out, did)"
  shows "did \<Longrightarrow> rewriteServer get' domain' ns' out = (out, False)"
    "fst (rewriteServer get domain ns out) = out"
proof -
  show lit: "rewriteServer get' domain' ns' out = (out, False)" if did for get' domain' ns'
  proof (cases rule: rewriteServer_cases [of get domain ns addr])
    case 1
    then show ?thesis using first that by simp
  next
    case (2 h p n m svc)
    then have "isIPLiteral (trim_prefix (trim_suffix (svc_cluster_ip svc) '']'') ''['')"
      using ips unfolding cluster_ips_def by blast
    then show ?thesis using first 2 rewriteServer_literal by simp
  qed
  show "fst (rewriteServer get domain ns out) = out"
  proof (cases did)
    case False
    then show ?thesis using first by (cases rule: rewriteServer_cases [of get domain ns addr]) auto
  qed (simp add: lit)
qed

definition stableRw :: "rewriter \<Rightarrow> bool" where
  "stableRw rw \<longleftrightarrow> (\<forall>a. fst (rw (fst (rw a))) = fst (rw a))"

lemma serverVal_stable: "stableRw rw \<Longrightarrow> serverVal rw (serverVal rw v) = serverVal rw v"
  by (cases v) (simp_all add: stableRw_def)

lemma resolvePath_stable: "stableRw rw \<Longrightarrow> resolvePath rw (resolvePath rw v) = resolvePath rw v"
  by (cases v) (auto simp: resolvePath_def serverVal_stable comp_def split: option.split intro: fmupd_same)

lemma resolveHost_stable: "stableRw rw \<Longrightarrow> resolveHost rw (resolveHost rw v) = resolveHost rw v"
proof -
  assume st: "stableRw rw"
  have m: "fmmap (resolvePath rw) (fmmap (resolvePath rw) m) = fmmap (resolvePath rw) m" for m
    by (rule fmap_ext) (simp add: option.map_comp comp_def resolvePath_stable [OF st])
  then show ?thesis by (cases v) (auto simp: resolveHost_def m split: option.split)
qed

lemma resolveRoot_stable:
  assumes "stableRw rw" "resolveRoot rw root = Some root'"
  shows "resolveRoot rw root' = Some root'"
proof -
  have m: "fmmap (resolveHost rw) (fmmap (resolveHost rw) m) = fmmap (resolveHost rw) m" for m
    by (rule fmap_ext) (simp add: option.map_comp comp_def resolveHost_stable [OF assms(1)])
  then show ?thesis using assms(2) by (auto simp: resolveRoot_def m split: option.splits)
qed

text \<open>
  Resolution is idempotent: resolving a resolved document against the same Services
  gives the same text again, so a source that has converged is not rewritten; and an entry that
  was resolved once is never taken for a name again, in whatever cluster state.
\<close>

theorem resolveYAML_idempotent:
  assumes ips: "cluster_ips get" and doc: "um raw = Inr d" "resolveRoot (rewriteServer get domain ns) (doc_of d) = Some root"
    and codec: "reads_back um ma root" and run: "resolveYAML um ma get domain ns raw = Inr (t, sm)"
  shows "(\<exists>sm'. resolveYAML um ma get domain ns t = Inr (t, sm')) \<and>
    (snd (rewriteServer get domain ns addr) \<longrightarrow>
       rewriteServer get' domain' ns' (fst (rewriteServer get domain ns addr)) = (fst (rewriteServer get domain ns addr), False))"
proof -
  have st: "stableRw (rewriteServer get domain ns)"
    unfolding stableRw_def using rewriteServer_again(2) [OF ips] by (metis prod.collapse)
  have t: "ma root = Inr t" "um t = Inr (Some root)"
    using run codec by (auto simp: resolveYAML_def doc reads_back_def Let_def split: sum.splits)
  then have "\<exists>sm'. resolveYAML um ma get domain ns t = Inr (t, sm')"
    using resolveRoot_stable [OF st doc(2)] by (simp add: resolveYAML_def Let_def)
  then show ?thesis using rewriteServer_again(1) [OF ips] by (metis prod.collapse)
qed

section \<open>What a reconcile leaves behind\<close>

text \<open>
  What is relied on of the library: \<open>CreateOrUpdate\<close> that reports success has stored what the mutate function
  made of the current object, and it writes that object only. When it reports an error the object may
  be as it was or may have been stored all the same (a request whose answer was lost).
  \<open>SetControllerReference\<close> changes the owner references only.
\<close>

definition stored :: "('w \<Rightarrow> string \<times> string \<Rightarrow> configmap option) \<Rightarrow> 'w \<Rightarrow> string \<times> string
    \<Rightarrow> (configmap option \<Rightarrow> string + configmap) \<Rightarrow> 'w \<Rightarrow> bool" where
  "stored find_obj w key mut w' \<longleftrightarrow> (\<exists>x. mut (find_obj w key) = Inr x \<and> find_obj w' = (find_obj w)(key \<mapsto> x))"

definition cou_f_ok :: "('w \<Rightarrow> string \<times> string \<Rightarrow> configmap option) \<Rightarrow> 'w cou_f \<Rightarrow> bool" where
  "cou_f_ok find_obj cou \<longleftrightarrow> (\<forall>w key mut r w'. cou w key mut = (r, w') \<longrightarrow>
     stored find_obj w key mut w' \<or> isl r \<and> find_obj w' = find_obj w)"

definition setref_ok :: "set_ref \<Rightarrow> bool" where
  "setref_ok setref \<longleftrightarrow> (\<forall>src out out'. setref src out = Inr out' \<longrightarrow>
     cm_data out' = cm_data out \<and> cm_labels out' = cm_labels out \<and> cm_annotations out' = cm_annotations out)"

text \<open>What a reconcile does, on every branch.\<close>

lemma resolverReconcile_effect:
  assumes lib: "cou_f_ok find_obj cou" "setref_ok setref"
    and run: "resolverReconcile um ma get domain setref cou got w = (err, w')"
  shows "(case got of
      Found src \<Rightarrow>
        (case (if isResolverSource src then gget (cm_data src) UpstreamsKey else None) of
           Some raw \<Rightarrow>
             (case resolveYAML um ma get domain (cm_ns src) raw of
                Inl e \<Rightarrow> err = Some e \<and> w' = w
              | Inr (t, _) \<Rightarrow>
                  (let key = (cm_ns src, resolvedOutputName src) in
                   (\<exists>out. find_obj w' = (find_obj w)(key \<mapsto> out) \<and> gget (cm_labels out) ResolvedOutputLabel = Some (cm_name src) \<and>
                     gget (cm_data out) =
                       (case find_obj w key of None \<Rightarrow> Map.empty | Some x \<Rightarrow> gget (cm_data x))(UpstreamsKey \<mapsto> t)) \<or>
                   err \<noteq> None \<and> find_obj w' = find_obj w))
         | None \<Rightarrow> err = None \<and> w' = w)
    | Missing \<Rightarrow> err = None \<and> w' = w
    | GetFailed e \<Rightarrow> err = Some e \<and> w' = w)"
proof (cases got)
  case (Found src)
  show ?thesis
  proof (cases "isResolverSource src \<and> gget (cm_data src) UpstreamsKey \<noteq> None")
    case False
    then show ?thesis using run Found by (auto simp: resolverReconcile_def split: option.splits)
  next
    case True
    then obtain raw where raw: "gget (cm_data src) UpstreamsKey = Some raw" by auto
    let ?key = "(cm_ns src, resolvedOutputName src)"
    show ?thesis
    proof (cases "resolveYAML um ma get domain (cm_ns src) raw")
      case (Inl e)
      then show ?thesis using run Found True raw by (auto simp: resolverReconcile_def)
    next
      case (Inr ts)
      obtain t sm where ts: "ts = (t, sm)" by (cases ts)
      let ?mut = "mutateResolved setref src ?key t"
      obtain r w1 where c: "cou w ?key ?mut = (r, w1)" by fastforce
      have e: "w' = w1" "err = (case r of Inl e \<Rightarrow> Some e | Inr _ \<Rightarrow> None)"
        using run c Found True raw Inr ts by (auto simp: resolverReconcile_def Let_def split: sum.splits)
      consider "stored find_obj w ?key ?mut w'" | "isl r" "find_obj w' = find_obj w"
        using lib(1) c e unfolding cou_f_ok_def by blast
      then show ?thesis
      proof cases
        case 1
        then obtain x where x: "?mut (find_obj w ?key) = Inr x" "find_obj w' = (find_obj w)(?key \<mapsto> x)"
          unfolding stored_def by blast
        then have "gget (cm_labels x) ResolvedOutputLabel = Some (cm_name src)"
          "gget (cm_data x) = (case find_obj w ?key of None \<Rightarrow> Map.empty | Some x \<Rightarrow> gget (cm_data x))(UpstreamsKey \<mapsto> t)"
          using lib(2) by (auto simp: mutateResolved_def Let_def setref_ok_def gmap_simps split: option.splits)
        then show ?thesis using Found True raw ts Inr x(2) by (simp add: Let_def) blast
      next
        case 2
        then show ?thesis using Found True raw ts Inr e(2) by (cases r) (simp_all add: Let_def)
      qed
    qed
  qed
qed (use run in \<open>auto simp: resolverReconcile_def\<close>)

text \<open>
  Claim C31. A resolver reconcile, on every branch: it reports a failed read or a document that cannot be
  resolved and touches nothing; it does nothing for an object that is no source or holds no document;
  otherwise, when it reports no error, the resolved document is in the output ConfigMap, which is labelled
  with the source and keeps its other data, and no other object is touched; when the write of the
  output reports an error, so does the reconcile, and the output is as it was or as after a success (the
  answer may be lost), but nothing else is touched.
\<close>

theorem resolverReconcile_exact:
  assumes lib: "cou_f_ok find_obj cou" "setref_ok setref"
    and run: "resolverReconcile um ma get domain setref cou got w = (err, w')"
  shows "(case got of
      Found src \<Rightarrow>
        (case (if isResolverSource src then gget (cm_data src) UpstreamsKey else None) of
           Some raw \<Rightarrow>
             (case resolveYAML um ma get domain (cm_ns src) raw of
                Inl e \<Rightarrow> err = Some e \<and> w' = w
              | Inr (t, _) \<Rightarrow>
                  (let key = (cm_ns src, resolvedOutputName src) in
                   (\<exists>out. find_obj w' = (find_obj w)(key \<mapsto> out) \<and> gget (cm_labels out) ResolvedOutputLabel = Some (cm_name src) \<and>
                     gget (cm_data out) =
                       (case find_obj w key of None \<Rightarrow> Map.empty | Some x \<Rightarrow> gget (cm_data x))(UpstreamsKey \<mapsto> t)) \<or>
                   err \<noteq> None \<and> find_obj w' = find_obj w))
         | None \<Rightarrow> err = None \<and> w' = w)
    | Missing \<Rightarrow> err = None \<and> w' = w
    | GetFailed e \<Rightarrow> err = Some e \<and> w' = w)"
  by (rule resolverReconcile_effect [OF assms])

text \<open>An instance: a map of objects, and a reference that is always accepted.\<close>

definition mem_cou_f :: "(string \<times> string \<Rightarrow> configmap option) cou_f" where
  "mem_cou_f w key mut =
     (case mut (w key) of Inl e \<Rightarrow> (Inl e, w)
      | Inr x \<Rightarrow> (Inr (if w key = None then OpCreated else if w key = Some x then OpNone else OpUpdated), w(key \<mapsto> x)))"

definition srcMap :: "string \<Rightarrow> configmap" where
  "srcMap v = \<lparr>cm_ns = ''ns'', cm_name = ''up'', cm_labels = [(ResolverSourceLabel, v)], cm_annotations = [],
     cm_data = [(UpstreamsKey, ''raw'')], cm_binary = []\<rparr>"

definition serversDoc :: "string \<Rightarrow> ydoc" where
  "serversDoc server = fmupd ''upstreams'' (YMap (fmupd ''a.io'' (YMap (fmupd ''paths'' (YMap (fmupd ''/''
     (YMap (fmupd ''servers'' (YList [YStr server]) fmempty)) fmempty)) fmempty)) fmempty)) fmempty"

definition webSvc :: "string \<Rightarrow> svc_get" where
  "webSvc ip ns name =
     (if ns = ''ns'' \<and> name = ''web'' then Some \<lparr>svc_ns = ns, svc_name = name, svc_type = ''ClusterIP'', svc_cluster_ip = ip,
        svc_ports = [], svc_selector = [], svc_lb_ingress_ips = [], svc_external_ips = [], svc_lb_ip = []\<rparr> else None)"

definition docReader :: yreader where
  "docReader t = (if t = ''raw'' then Inr (Some (serversDoc ''web:80'')) else Inr (Some (serversDoc ''10.0.0.7:80'')))"

definition docWriter :: ywriter where
  "docWriter d = Inr ''out''"

lemma web_facts:
  "rewriteServer (webSvc ''10.0.0.7'') [] ''ns'' ''web:80'' = (''10.0.0.7:80'', True)"
  "resolveRoot (rewriteServer (webSvc ''10.0.0.7'') [] ''ns'') (doc_of (Some (serversDoc ''web:80''))) = Some (serversDoc ''10.0.0.7:80'')"
  "cluster_ips (webSvc ''10.0.0.7'')"
  "\<exists>sm. resolveYAML docReader docWriter (webSvc ''10.0.0.7'') [] ''ns'' ''raw'' = Inr (''out'', sm)"
proof -
  show r: "rewriteServer (webSvc ''10.0.0.7'') [] ''ns'' ''web:80'' = (''10.0.0.7:80'', True)" by code_simp
  show d: "resolveRoot (rewriteServer (webSvc ''10.0.0.7'') [] ''ns'') (doc_of (Some (serversDoc ''web:80''))) = Some (serversDoc ''10.0.0.7:80'')"
    using r by (simp add: resolveRoot_def serversDoc_def resolveHost_def resolvePath_def fmmap_upd)
  have "isIPLiteral (trim_prefix (trim_suffix ''10.0.0.7'' '']'') ''['')" by code_simp
  then show "cluster_ips (webSvc ''10.0.0.7'')" by (auto simp: cluster_ips_def webSvc_def)
  show "\<exists>sm. resolveYAML docReader docWriter (webSvc ''10.0.0.7'') [] ''ns'' ''raw'' = Inr (''out'', sm)"
    using d by (simp add: resolveYAML_def docReader_def docWriter_def Let_def)
qed

lemma rewriteServer_resolves_witness:
  "rewriteServer (webSvc ''10.0.0.7'') [] ''other'' ''web.ns.svc.cluster.local:80'' = (''10.0.0.7:80'', True)"
proof -
  have l: "label_ok ''web''" "label_ok ''ns''" by code_simp+
  obtain svc where "webSvc ''10.0.0.7'' ''ns'' ''web'' = Some svc" "svc_cluster_ip svc = ''10.0.0.7''"
    by (simp add: webSvc_def)
  then show ?thesis
    using rewriteServer_resolves [OF l, of "''80''" "[]" "webSvc ''10.0.0.7''" svc "''other''"] by simp
qed

lemma resolveYAML_idempotent_witness:
  "\<exists>sm sm'. resolveYAML docReader docWriter (webSvc ''10.0.0.7'') [] ''ns'' ''raw'' = Inr (''out'', sm) \<and>
     resolveYAML docReader docWriter (webSvc ''10.0.0.7'') [] ''ns'' ''out'' = Inr (''out'', sm')"
proof -
  have c: "reads_back docReader docWriter (serversDoc ''10.0.0.7:80'')"
    by (simp add: reads_back_def docReader_def docWriter_def)
  have raw: "docReader ''raw'' = Inr (Some (serversDoc ''web:80''))" by (simp add: docReader_def)
  obtain sm where "resolveYAML docReader docWriter (webSvc ''10.0.0.7'') [] ''ns'' ''raw'' = Inr (''out'', sm)"
    using web_facts(4) by blast
  then show ?thesis using resolveYAML_idempotent [OF web_facts(3) raw web_facts(2) c] by blast
qed

lemma resolverReconcile_exact_witness:
  "\<exists>out. snd (resolverReconcile docReader docWriter (webSvc ''10.0.0.7'') [] (\<lambda>_ out. Inr out) mem_cou_f
       (Found (srcMap ''true'')) (\<lambda>_. None)) (''ns'', ''up-resolved'') = Some out \<and> gget (cm_data out) UpstreamsKey = Some ''out''"
proof -
  obtain sm where y: "resolveYAML docReader docWriter (webSvc ''10.0.0.7'') [] ''ns'' ''raw'' = Inr (''out'', sm)"
    using web_facts(4) by blast
  have lib: "cou_f_ok (\<lambda>w. w) mem_cou_f" "setref_ok (\<lambda>_ out. Inr out)"
    by (auto simp: cou_f_ok_def mem_cou_f_def setref_ok_def stored_def split: sum.splits)
  have src: "isResolverSource (srcMap ''true'')" "gget (cm_data (srcMap ''true'')) UpstreamsKey = Some ''raw''"
    "cm_ns (srcMap ''true'') = ''ns''" "resolvedOutputName (srcMap ''true'') = ''up-resolved''"
    by (simp_all add: isResolverSource_def srcMap_def resolvedOutputName_def)
  obtain err w' where r: "resolverReconcile docReader docWriter (webSvc ''10.0.0.7'') [] (\<lambda>_ out. Inr out) mem_cou_f
       (Found (srcMap ''true'')) (\<lambda>_. None) = (err, w')" by fastforce
  have "err = None" using r by (simp add: resolverReconcile_def src y Let_def mem_cou_f_def mutateResolved_def)
  then show ?thesis using resolverReconcile_exact [OF lib r] r by (auto simp: src y Let_def)
qed

section \<open>Consequences worth knowing\<close>

text \<open>
  A source labelled \<^verbatim>\<open>1\<close> is reconciled when it changes itself, but no change of a Service
  re-queues it: its output keeps the ClusterIP of the time of its last edit.
\<close>

theorem label_one_not_requeued:
  "isResolverSource (srcMap ''1'') \<and> enqueueAllSources (Some [srcMap ''1'']) = []"
  by (simp add: isResolverSource_def srcMap_def enqueueAllSources_def)

text \<open>An IPv6 ClusterIP is joined to the port without brackets.\<close>

theorem rewriteServer_ipv6_unbracketed:
  "rewriteServer (webSvc ''fd00::1'') [] ''ns'' ''web:80'' = (''fd00::1:80'', True)"
  by code_simp

end
