(* ===== verification/Sha256.thy ===== *)
theory Sha256
  imports Prelude GoStrings
begin

unbundle bit_operations_syntax

text \<open>
  The digest the config-hash controller stamps: \<^verbatim>\<open>crypto/sha256\<close> and \<^verbatim>\<open>encoding/hex\<close> of the
  standard library, over byte strings, with the 32-bit words of FIPS 180-4.
\<close>

section \<open>Compression\<close>

definition rotr :: "nat \<Rightarrow> 32 word \<Rightarrow> 32 word" where
  "rotr n x = (drop_bit n x OR push_bit (32 - n) x)"

definition roundConstants :: "32 word list" where
  "roundConstants =
    [0x428A2F98, 0x71374491, 0xB5C0FBCF, 0xE9B5DBA5, 0x3956C25B, 0x59F111F1, 0x923F82A4, 0xAB1C5ED5,
     0xD807AA98, 0x12835B01, 0x243185BE, 0x550C7DC3, 0x72BE5D74, 0x80DEB1FE, 0x9BDC06A7, 0xC19BF174,
     0xE49B69C1, 0xEFBE4786, 0x0FC19DC6, 0x240CA1CC, 0x2DE92C6F, 0x4A7484AA, 0x5CB0A9DC, 0x76F988DA,
     0x983E5152, 0xA831C66D, 0xB00327C8, 0xBF597FC7, 0xC6E00BF3, 0xD5A79147, 0x06CA6351, 0x14292967,
     0x27B70A85, 0x2E1B2138, 0x4D2C6DFC, 0x53380D13, 0x650A7354, 0x766A0ABB, 0x81C2C92E, 0x92722C85,
     0xA2BFE8A1, 0xA81A664B, 0xC24B8B70, 0xC76C51A3, 0xD192E819, 0xD6990624, 0xF40E3585, 0x106AA070,
     0x19A4C116, 0x1E376C08, 0x2748774C, 0x34B0BCB5, 0x391C0CB3, 0x4ED8AA4A, 0x5B9CCA4F, 0x682E6FF3,
     0x748F82EE, 0x78A5636F, 0x84C87814, 0x8CC70208, 0x90BEFFFA, 0xA4506CEB, 0xBEF9A3F7, 0xC67178F2]"

definition initialState :: "32 word list" where
  "initialState =
    [0x6A09E667, 0xBB67AE85, 0x3C6EF372, 0xA54FF53A, 0x510E527F, 0x9B05688C, 0x1F83D9AB, 0x5BE0CD19]"

definition nextWord :: "32 word list \<Rightarrow> 32 word" where
  "nextWord w =
     (let n = length w; x = w ! (n - 15); y = w ! (n - 2);
          s0 = rotr 7 x XOR rotr 18 x XOR drop_bit 3 x;
          s1 = rotr 17 y XOR rotr 19 y XOR drop_bit 10 y
      in w ! (n - 16) + s0 + w ! (n - 7) + s1)"

definition schedule :: "32 word list \<Rightarrow> 32 word list" where
  "schedule block = foldl (\<lambda>w _. w @ [nextWord w]) block [0..<48]"

fun oneRound :: "32 word list \<Rightarrow> 32 word \<times> 32 word \<Rightarrow> 32 word list" where
  "oneRound [a, b, c, d, e, f, g, h] (k, w) =
     (let s1 = rotr 6 e XOR rotr 11 e XOR rotr 25 e;
          ch = (e AND f) XOR (NOT e AND g);
          t1 = h + s1 + ch + k + w;
          s0 = rotr 2 a XOR rotr 13 a XOR rotr 22 a;
          maj = (a AND b) XOR (a AND c) XOR (b AND c);
          t2 = s0 + maj
      in [t1 + t2, a, b, c, d + t1, e, f, g])"
| "oneRound st _ = st"

definition compress :: "32 word list \<Rightarrow> 32 word list \<Rightarrow> 32 word list" where
  "compress st block = map2 (+) st (foldl oneRound st (zip roundConstants (schedule block)))"

section \<open>Messages\<close>

text \<open>The big-endian bytes of a number, and the word of four bytes.\<close>

fun be_bytes :: "nat \<Rightarrow> int \<Rightarrow> int list" where
  "be_bytes 0 n = []"
| "be_bytes (Suc k) n = be_bytes k (n div 256) @ [n mod 256]"

definition be_word :: "int list \<Rightarrow> 32 word" where
  "be_word bs = word_of_int (foldl (\<lambda>n b. 256 * n + b) 0 bs)"

definition padMessage :: "int list \<Rightarrow> int list" where
  "padMessage m =
     m @ 128 # replicate (nat ((55 - int (length m)) mod 64)) 0 @ be_bytes 8 (8 * int (length m) mod 2 ^ 64)"

fun chunks :: "nat \<Rightarrow> nat \<Rightarrow> 'a list \<Rightarrow> 'a list list" where
  "chunks 0 n xs = []"
| "chunks (Suc k) n xs = (if xs = [] then [] else take n xs # chunks k n (drop n xs))"

definition sha256 :: "string \<Rightarrow> int list" where
  "sha256 s =
     (let p = padMessage (map byte s);
          blocks = map (\<lambda>b. map be_word (chunks 16 4 b)) (chunks (length p) 64 p)
      in concat (map (\<lambda>w. be_bytes 4 (uint w)) (foldl compress initialState blocks)))"

definition hex_char :: "int \<Rightarrow> char" where
  "hex_char d = ''0123456789abcdef'' ! nat d"

definition hexEncode :: "int list \<Rightarrow> string" where
  "hexEncode bs = concat (map (\<lambda>b. [hex_char (b div 16), hex_char (b mod 16)]) bs)"

text \<open>\<^verbatim>\<open>hex.EncodeToString(hasher.Sum(nil))\<close> of what was written to the hasher.\<close>

definition digest :: "string \<Rightarrow> string" where
  "digest s = hexEncode (sha256 s)"

section \<open>The digest is 64 hex digits\<close>

lemma length_oneRound: "length (oneRound st kw) = length st"
  by (induction st kw rule: oneRound.induct) (simp_all add: Let_def)

lemma length_compress: "length (compress st block) = length st"
proof -
  have "length (foldl oneRound st xs) = length st" for xs
    by (induction xs arbitrary: st) (simp_all add: length_oneRound)
  then show ?thesis by (simp add: compress_def)
qed

lemma length_be_bytes [simp]: "length (be_bytes k n) = k"
  by (induction k arbitrary: n) simp_all

lemma length_digest: "length (digest s) = 64"
proof -
  have st: "length (foldl compress st bs) = length st" for st bs
    by (induction bs arbitrary: st) (simp_all add: length_compress)
  have "length (concat (map (\<lambda>w. be_bytes 4 (uint w)) (ws :: 32 word list))) = 4 * length ws" for ws
    by (induction ws) simp_all
  then have "length (sha256 s) = 32" by (simp add: sha256_def Let_def st initialState_def)
  moreover have "length (hexEncode bs) = 2 * length bs" for bs by (induction bs) (simp_all add: hexEncode_def)
  ultimately show ?thesis by (simp add: digest_def)
qed

lemma digest_nonempty [simp]: "digest s \<noteq> []" "[] \<noteq> digest s"
  using length_digest [of s] by auto

text \<open>The test vector of the standard, in two halves of its rounds.\<close>

lemma blocks_abc: "map (\<lambda>b. map be_word (chunks 16 4 b))
    (chunks (length (padMessage (map byte ''abc''))) 64 (padMessage (map byte ''abc''))) =
  [0x61626380 # replicate 14 0 @ [24]]"
  by code_simp

definition words_abc :: "32 word list" where
  "words_abc =
     [0x61626380, 0x00000000, 0x00000000, 0x00000000, 0x00000000, 0x00000000, 0x00000000, 0x00000000,
      0x00000000, 0x00000000, 0x00000000, 0x00000000, 0x00000000, 0x00000000, 0x00000000, 0x00000018,
      0x61626380, 0x000F0000, 0x7DA86405, 0x600003C6, 0x3E9D7B78, 0x0183FC00, 0x12DCBFDB, 0xE2E2C38E,
      0xC8215C1A, 0xB73679A2, 0xE5BC3909, 0x32663C5B, 0x9D209D67, 0xEC8726CB, 0x702138A4, 0xD3B7973B,
      0x93F5997F, 0x3B68BA73, 0xAFF4FFC1, 0xF10A5C62, 0x0A8B3996, 0x72AF830A, 0x9409E33E, 0x24641522,
      0x9F47BF94, 0xF0A64F5A, 0x3E246A79, 0x27333BA3, 0x0C4763F2, 0x840ABF27, 0x7A290D5D, 0x065C43DA,
      0xFB3E89CB, 0xCC7617DB, 0xB9E66C34, 0xA9993667, 0x84BADEDD, 0xC21462BC, 0x1487472C, 0xB20F7A99,
      0xEF57B9CD, 0xEBE6B238, 0x9FE3095E, 0x78BC8D4B, 0xA43FCF15, 0x668B2FF8, 0xEEABA2CC, 0x12B1EDEB]"

lemma schedule_abc: "schedule (0x61626380 # replicate 14 0 @ [24]) = words_abc"
  by code_simp

lemma rounds_abc_1: "foldl oneRound initialState (take 32 (zip roundConstants words_abc)) =
  [0x73B33BF5, 0xEA992A22, 0xA0060B30, 0x363482C9, 0xBA591112, 0x0109AB3A, 0xADE79437, 0x6112A3B7]"
  by code_simp

lemma rounds_abc_2: "foldl oneRound
  [0x73B33BF5, 0xEA992A22, 0xA0060B30, 0x363482C9, 0xBA591112, 0x0109AB3A, 0xADE79437, 0x6112A3B7]
  (drop 32 (zip roundConstants words_abc)) =
  [0x506E3058, 0xD39A2165, 0x04D24D6C, 0xB85E2CE9, 0x5EF50F24, 0xFB121210, 0x948D25B6, 0x961F4894]"
  by code_simp

lemma compress_abc: "compress initialState (0x61626380 # replicate 14 0 @ [24]) = map2 (+) initialState
  [0x506E3058, 0xD39A2165, 0x04D24D6C, 0xB85E2CE9, 0x5EF50F24, 0xFB121210, 0x948D25B6, 0x961F4894]"
proof -
  have "foldl oneRound initialState (take 32 (zip roundConstants words_abc) @ drop 32 (zip roundConstants words_abc)) =
    [0x506E3058, 0xD39A2165, 0x04D24D6C, 0xB85E2CE9, 0x5EF50F24, 0xFB121210, 0x948D25B6, 0x961F4894]"
    unfolding foldl_append rounds_abc_1 rounds_abc_2 by (rule refl)
  then show ?thesis by (simp add: compress_def schedule_abc)
qed

lemma digest_abc: "digest ''abc'' = ''ba7816bf8f01cfea414140de5dae2223b00361a396177a9cb410ff61f20015ad''"
proof -
  have "foldl compress initialState [0x61626380 # replicate 14 0 @ [24]] = map2 (+) initialState
    [0x506E3058, 0xD39A2165, 0x04D24D6C, 0xB85E2CE9, 0x5EF50F24, 0xFB121210, 0x948D25B6, 0x961F4894]"
    by (simp add: compress_abc)
  then have "digest ''abc'' = hexEncode (concat (map (\<lambda>w. be_bytes 4 (uint w)) (map2 (+) initialState
    [0x506E3058, 0xD39A2165, 0x04D24D6C, 0xB85E2CE9, 0x5EF50F24, 0xFB121210, 0x948D25B6, 0x961F4894])))"
    by (simp only: digest_def sha256_def Let_def blocks_abc)
  also have "\<dots> = ''ba7816bf8f01cfea414140de5dae2223b00361a396177a9cb410ff61f20015ad''"
    by code_simp
  finally show ?thesis .
qed

end
