(* ===== verification/ConfigHash.thy ===== *)
theory ConfigHash
  imports Sha256 Yaml
begin

text \<open>
  controllers/configmap_controller.go: the hash of the configuration sources and its stamping on
  the pod templates of Deployments, DaemonSets and StatefulSets, which makes them roll. The API
  lists are snapshots (\<open>None\<close> is an error); each patch consumes an outcome of the state, so a
  theorem holds for every pattern of refused patches.
\<close>

section \<open>Objects\<close>

record volume =
  vo_cm :: "string option"
  vo_secret :: "string option"
  vo_projected :: "(string option \<times> string option) list option"

text \<open>References of \<^verbatim>\<open>envFrom\<close> and of \<^verbatim>\<open>env[].valueFrom\<close>: a ConfigMap name and a Secret name.\<close>

record container =
  ct_env_from :: "(string option \<times> string option) list"
  ct_env :: "(string option \<times> string option) option list"

record pod_spec =
  ps_volumes :: "volume list"
  ps_init :: "container list"
  ps_containers :: "container list"

record workload =
  wl_name :: string
  wl_annotations :: labels
  wl_spec :: pod_spec

record hash_cfg =
  hc_annotation :: string
  hc_ignored_cm :: "string list"
  hc_ignored_secret :: "string list"
  hc_exclude_ids :: bool
  hc_per_workload :: bool

section \<open>Hot-reloadable fields\<close>

definition hotReloadIdsFields :: "string list" where
  "hotReloadIdsFields =
     [''address_vars'', ''enforce_block'', ''rule_paths'', ''port_vars'', ''flow_timeout_secs'', ''max_flows'']"

definition stripHotReloadIdsFields :: "ydoc \<Rightarrow> ydoc" where
  "stripHotReloadIdsFields ids = foldl (\<lambda>m f. fmdrop f m) ids hotReloadIdsFields"

text \<open>\<^verbatim>\<open>idsSubtree\<close> with the deletion in place: an absent or ill-typed subtree is left alone.\<close>

definition stripIds :: "ydoc \<Rightarrow> ydoc" where
  "stripIds m =
     (case as_map (fmlookup m ''ids'') of
        None \<Rightarrow> m
      | Some ids \<Rightarrow> fmupd ''ids'' (YMap (stripHotReloadIdsFields ids)) m)"

definition stripRoot :: "ydoc \<Rightarrow> ydoc" where
  "stripRoot root =
     (let r1 = stripIds root in
      case as_map (fmlookup r1 ''firewall'') of
        None \<Rightarrow> r1
      | Some fw \<Rightarrow> fmupd ''firewall'' (YMap (stripIds fw)) r1)"

definition canonicalConfigSansHotReloadIds :: "yreader \<Rightarrow> ywriter \<Rightarrow> string \<Rightarrow> string" where
  "canonicalConfigSansHotReloadIds um ma raw =
     (case um raw of
        Inr (Some root) \<Rightarrow> (case ma (stripRoot root) of Inl _ \<Rightarrow> raw | Inr t \<Rightarrow> t)
      | _ \<Rightarrow> raw)"

section \<open>Hashes\<close>

definition shouldIgnoreKey :: "string \<Rightarrow> string list \<Rightarrow> bool" where
  "shouldIgnoreKey key ignored \<longleftrightarrow> List.member ignored key"

abbreviation nul :: string where
  "nul \<equiv> [CHR 0x00]"

text \<open>What is written to the hasher for one prefixed key of a ConfigMap.\<close>

definition cmEntry :: "(string \<Rightarrow> string) \<Rightarrow> bool \<Rightarrow> configmap \<Rightarrow> string \<Rightarrow> string" where
  "cmEntry canon exclude cfg k =
     (if length k > 2 \<and> take 2 k = ''s:'' then
        (let key = drop 2 k; v = gstr (cm_data cfg) key
         in ''s'' @ key @ nul @ (if exclude \<and> key = SynapseConfigKey then canon v else v))
      else if length k > 2 \<and> take 2 k = ''b:'' then
        ''b'' @ drop 2 k @ nul @ gstr (cm_binary cfg) (drop 2 k)
      else []) @ nul"

definition cmKeys :: "string list \<Rightarrow> configmap \<Rightarrow> string list" where
  "cmKeys ignored cfg =
     map (\<lambda>k. ''s:'' @ k) (filter (\<lambda>k. \<not> shouldIgnoreKey k ignored) (gkeys (cm_data cfg))) @
     map (\<lambda>k. ''b:'' @ k) (filter (\<lambda>k. \<not> shouldIgnoreKey k ignored) (gkeys (cm_binary cfg)))"

definition hashConfigMapContent :: "(string \<Rightarrow> string) \<Rightarrow> string list \<Rightarrow> bool \<Rightarrow> configmap \<Rightarrow> string" where
  "hashConfigMapContent canon ignored exclude cfg =
     (if cm_data cfg = [] \<and> cm_binary cfg = [] \<or> cmKeys ignored cfg = [] then []
      else digest (concat (map (cmEntry canon exclude cfg) (sort (cmKeys ignored cfg)))))"

definition secretKeys :: "string list \<Rightarrow> secret \<Rightarrow> string list" where
  "secretKeys ignored s =
     map (\<lambda>k. ''d:'' @ k) (filter (\<lambda>k. \<not> shouldIgnoreKey k ignored) (gkeys (sec_data s)))"

definition secretEntry :: "secret \<Rightarrow> string \<Rightarrow> string" where
  "secretEntry s k = ''d'' @ drop 2 k @ nul @ gstr (sec_data s) (drop 2 k) @ nul"

definition hashSecretContent :: "string list \<Rightarrow> secret \<Rightarrow> string" where
  "hashSecretContent ignored s =
     (if sec_data s = [] \<or> secretKeys ignored s = [] then []
      else digest (concat (map (secretEntry s) (sort (secretKeys ignored s)))))"

definition hashEntries :: "(string \<Rightarrow> string) \<Rightarrow> hash_cfg \<Rightarrow> configmap list \<Rightarrow> secret list \<Rightarrow> (string \<times> string) list" where
  "hashEntries canon cfg cms secrets =
     filter (\<lambda>e. snd e \<noteq> [])
       (map (\<lambda>c. (''configmap/'' @ cm_name c, hashConfigMapContent canon (hc_ignored_cm cfg) (hc_exclude_ids cfg) c)) cms @
        map (\<lambda>s. (''secret/'' @ sec_name s, hashSecretContent (hc_ignored_secret cfg) s)) secrets)"

definition hashConfigSources :: "(string \<Rightarrow> string) \<Rightarrow> hash_cfg \<Rightarrow> configmap list \<Rightarrow> secret list \<Rightarrow> string" where
  "hashConfigSources canon cfg cms secrets =
     (let es = hashEntries canon cfg cms secrets in
      if es = [] then []
      else digest (concat (map (\<lambda>e. fst e @ nul @ snd e @ nul) (sort_key fst es))))"

section \<open>The sources of a workload\<close>

definition names_of :: "(string option \<times> string option) list \<Rightarrow> string list \<times> string list" where
  "names_of refs = (List.map_filter fst refs, List.map_filter snd refs)"

definition volumeRefs :: "volume \<Rightarrow> (string option \<times> string option) list" where
  "volumeRefs v = (vo_cm v, vo_secret v) # (case vo_projected v of None \<Rightarrow> [] | Some ps \<Rightarrow> ps)"

definition containerRefs :: "container \<Rightarrow> (string option \<times> string option) list" where
  "containerRefs c = ct_env_from c @ List.map_filter (\<lambda>e. e) (ct_env c)"

definition referencedSources :: "pod_spec \<Rightarrow> string list \<times> string list" where
  "referencedSources spec =
     names_of (concat (map volumeRefs (ps_volumes spec)) @ concat (map containerRefs (ps_init spec @ ps_containers spec)))"

definition filterConfigMaps :: "configmap list \<Rightarrow> string list \<Rightarrow> configmap list" where
  "filterConfigMaps cms names = filter (\<lambda>c. List.member names (cm_name c)) cms"

definition filterSecrets :: "secret list \<Rightarrow> string list \<Rightarrow> secret list" where
  "filterSecrets secrets names = filter (\<lambda>s. List.member names (sec_name s)) secrets"

definition hashForWorkload ::
  "(string \<Rightarrow> string) \<Rightarrow> hash_cfg \<Rightarrow> pod_spec \<Rightarrow> configmap list \<Rightarrow> secret list \<Rightarrow> string \<Rightarrow> string" where
  "hashForWorkload canon cfg spec cms secrets combined =
     (if \<not> hc_per_workload cfg then combined
      else case referencedSources spec of (rc, rs) \<Rightarrow>
        hashConfigSources canon cfg (filterConfigMaps cms rc) (filterSecrets secrets rs))"

section \<open>Stamping\<close>

datatype wl_kind = Deployment | DaemonSet | StatefulSet

text \<open>The patches sent, and the outcomes of the patches to come (none left: accepted).\<close>

record patch_log =
  pl_sent :: "(wl_kind \<times> string \<times> string) list"
  pl_refuse :: "bool list"

definition patchHash :: "wl_kind \<Rightarrow> string \<Rightarrow> string \<Rightarrow> workload \<Rightarrow> patch_log \<Rightarrow> (string option \<times> workload) \<times> patch_log" where
  "patchHash kind key hash w l =
     (if gstr (wl_annotations w) key = hash then ((None, w), l)
      else
        let l1 = \<lparr>pl_sent = pl_sent l @ [(kind, wl_name w, hash)], pl_refuse = tl (pl_refuse l)\<rparr>
        in if pl_refuse l \<noteq> [] \<and> hd (pl_refuse l) then ((Some ''patch'', w), l1)
           else ((None, w\<lparr>wl_annotations := gput key hash (wl_annotations w)\<rparr>), l1))"

fun patchItems ::
  "wl_kind \<Rightarrow> string \<Rightarrow> (workload \<Rightarrow> string) \<Rightarrow> workload list \<Rightarrow> patch_log \<Rightarrow> (string option \<times> workload list) \<times> patch_log" where
  "patchItems kind key hash [] l = ((None, []), l)"
| "patchItems kind key hash (w # ws) l =
     (if hash w = [] then
        (case patchItems kind key hash ws l of ((e, ws'), l') \<Rightarrow> ((e, w # ws'), l'))
      else case patchHash kind key (hash w) w l of
        ((Some e, w'), l1) \<Rightarrow> ((Some e, w' # ws), l1)
      | ((None, w'), l1) \<Rightarrow>
          (case patchItems kind key hash ws l1 of ((e, ws'), l') \<Rightarrow> ((e, w' # ws'), l')))"

text \<open>The workloads of the namespace that match the selector.\<close>

record workloads =
  ws_deployments :: "workload list"
  ws_daemonsets :: "workload list"
  ws_statefulsets :: "workload list"
  ws_log :: patch_log

text \<open>One kind of workload: an error of the list, or the loop over its items.\<close>

definition patchKind ::
  "wl_kind \<Rightarrow> (workloads \<Rightarrow> workload list) \<Rightarrow> (workload list \<Rightarrow> workloads \<Rightarrow> workloads) \<Rightarrow> (wl_kind \<Rightarrow> bool)
    \<Rightarrow> string \<Rightarrow> (workload \<Rightarrow> string) \<Rightarrow> workloads \<Rightarrow> string option \<times> workloads" where
  "patchKind kind items put listed key hash s =
     (if \<not> listed kind then (Some ''list'', s)
      else case patchItems kind key hash (items s) (ws_log s) of
        ((e, ws), l) \<Rightarrow> (e, (put ws s)\<lparr>ws_log := l\<rparr>))"

definition patchDeployments where
  "patchDeployments = patchKind Deployment ws_deployments (\<lambda>ws s. s\<lparr>ws_deployments := ws\<rparr>)"

definition patchDaemonSets where
  "patchDaemonSets = patchKind DaemonSet ws_daemonsets (\<lambda>ws s. s\<lparr>ws_daemonsets := ws\<rparr>)"

definition patchStatefulSets where
  "patchStatefulSets = patchKind StatefulSet ws_statefulsets (\<lambda>ws s. s\<lparr>ws_statefulsets := ws\<rparr>)"

record hash_api =
  ha_get_cm :: "configmap got"
  ha_get_secret :: "secret got"
  ha_cms :: "configmap list option"
  ha_secrets :: "secret list option"
  ha_listed :: "wl_kind \<Rightarrow> bool"

definition listConfigSources :: "hash_api \<Rightarrow> string + configmap list \<times> secret list" where
  "listConfigSources a =
     (case ha_cms a of
        None \<Rightarrow> Inl ''list configmaps''
      | Some cms \<Rightarrow> (case ha_secrets a of None \<Rightarrow> Inl ''list secrets'' | Some ss \<Rightarrow> Inr (cms, ss)))"

text \<open>The read of the changed object; only its error matters.\<close>

definition getChanged :: "hash_api \<Rightarrow> string option" where
  "getChanged a =
     (case ha_get_cm a of
        Found _ \<Rightarrow> None
      | GetFailed e \<Rightarrow> Some e
      | Missing \<Rightarrow> (case ha_get_secret a of GetFailed e \<Rightarrow> Some e | _ \<Rightarrow> None))"

definition workloadHash :: "(string \<Rightarrow> string) \<Rightarrow> hash_cfg \<Rightarrow> configmap list \<Rightarrow> secret list \<Rightarrow> workload \<Rightarrow> string" where
  "workloadHash canon cfg cms secrets w =
     hashForWorkload canon cfg (wl_spec w) cms secrets (hashConfigSources canon cfg cms secrets)"

text \<open>The three kinds in order; the first error ends the reconcile.\<close>

definition patchAll :: "(wl_kind \<Rightarrow> bool) \<Rightarrow> string \<Rightarrow> (workload \<Rightarrow> string) \<Rightarrow> workloads \<Rightarrow> string option \<times> workloads" where
  "patchAll listed key hash s =
     (case patchDeployments listed key hash s of
        (Some e, s1) \<Rightarrow> (Some e, s1)
      | (None, s1) \<Rightarrow>
          (case patchDaemonSets listed key hash s1 of
             (Some e, s2) \<Rightarrow> (Some e, s2)
           | (None, s2) \<Rightarrow> patchStatefulSets listed key hash s2))"

definition hashReconcile ::
  "(string \<Rightarrow> string) \<Rightarrow> hash_cfg \<Rightarrow> hash_api \<Rightarrow> workloads \<Rightarrow> string option \<times> workloads" where
  "hashReconcile canon cfg a s =
     (case getChanged a of
        Some e \<Rightarrow> (Some e, s)
      | None \<Rightarrow>
          (case listConfigSources a of
             Inl e \<Rightarrow> (Some e, s)
           | Inr (cms, secrets) \<Rightarrow>
               if hashConfigSources canon cfg cms secrets = [] \<and> \<not> hc_per_workload cfg then (None, s)
               else patchAll (ha_listed a) (hc_annotation cfg) (workloadHash canon cfg cms secrets) s))"

section \<open>The hash is a function of the contents\<close>

text \<open>What a source contributes: its name and its maps, not their iteration order.\<close>

definition cm_view :: "configmap \<Rightarrow> string \<times> (string \<Rightarrow> string option) \<times> (string \<Rightarrow> string option)" where
  "cm_view c = (cm_name c, gget (cm_data c), gget (cm_binary c))"

definition secret_view :: "secret \<Rightarrow> string \<times> (string \<Rightarrow> string option)" where
  "secret_view s = (sec_name s, gget (sec_data s))"

definition cm_ok :: "configmap \<Rightarrow> bool" where
  "cm_ok c \<longleftrightarrow> gmap_ok (cm_data c) \<and> gmap_ok (cm_binary c)"

lemma gget_keys: "gget m = gget m' \<Longrightarrow> set (gkeys m) = set (gkeys m')"
  by (rule same_map_keys) (simp add: same_map_def)

lemma distinct_cmKeys: "cm_ok c \<Longrightarrow> distinct (cmKeys ignored c)"
  by (auto simp: cmKeys_def cm_ok_def gmap_ok_def distinct_map inj_on_def)

lemma set_cmKeys: "set (cmKeys ignored c) =
    (\<lambda>k. ''s:'' @ k) ` {k \<in> set (gkeys (cm_data c)). \<not> shouldIgnoreKey k ignored} \<union>
    (\<lambda>k. ''b:'' @ k) ` {k \<in> set (gkeys (cm_binary c)). \<not> shouldIgnoreKey k ignored}"
  by (simp add: cmKeys_def del: set_map) (simp add: set_map)

lemma hashConfigMapContent_view:
  assumes "cm_ok c" "cm_ok c'" "cm_view c = cm_view c'"
  shows "hashConfigMapContent canon ignored exclude c = hashConfigMapContent canon ignored exclude c'"
proof -
  have v: "gget (cm_data c) = gget (cm_data c')" "gget (cm_binary c) = gget (cm_binary c')"
    using assms(3) by (simp_all add: cm_view_def)
  have ks: "set (cmKeys ignored c) = set (cmKeys ignored c')"
    by (simp only: set_cmKeys gget_keys [OF v(1)] gget_keys [OF v(2)])
  then have "sort (cmKeys ignored c) = sort (cmKeys ignored c')"
    using assms by (intro sort_unique distinct_cmKeys)
  moreover have "cmEntry canon exclude c = cmEntry canon exclude c'"
    by (simp add: cmEntry_def fun_eq_iff gstr_def v)
  moreover have "cmKeys ignored c = [] \<longleftrightarrow> cmKeys ignored c' = []" using ks by (metis set_empty)
  moreover have "cm_data c = [] \<longleftrightarrow> cm_data c' = []" "cm_binary c = [] \<longleftrightarrow> cm_binary c' = []"
    using gget_keys [OF v(1)] gget_keys [OF v(2)] by (metis map_is_Nil_conv set_empty)+
  ultimately show ?thesis by (simp add: hashConfigMapContent_def)
qed

lemma hashSecretContent_view:
  assumes "gmap_ok (sec_data s)" "gmap_ok (sec_data s')" "secret_view s = secret_view s'"
  shows "hashSecretContent ignored s = hashSecretContent ignored s'"
proof -
  have v: "gget (sec_data s) = gget (sec_data s')" using assms(3) by (simp add: secret_view_def)
  have d: "distinct (secretKeys ignored x)" if "gmap_ok (sec_data x)" for x
    using that by (auto simp: secretKeys_def gmap_ok_def distinct_map inj_on_def)
  have ks: "set (secretKeys ignored s) = set (secretKeys ignored s')"
    using gget_keys [OF v] by (simp add: secretKeys_def del: set_map) (simp add: set_map)
  then have "sort (secretKeys ignored s) = sort (secretKeys ignored s')"
    using assms d by (intro sort_unique)
  moreover have "secretEntry s = secretEntry s'" by (simp add: secretEntry_def fun_eq_iff gstr_def v)
  moreover have "secretKeys ignored s = [] \<longleftrightarrow> secretKeys ignored s' = []" using ks by (metis set_empty)
  moreover have "sec_data s = [] \<longleftrightarrow> sec_data s' = []"
    using gget_keys [OF v] by (metis map_is_Nil_conv set_empty)
  ultimately show ?thesis by (simp add: hashSecretContent_def)
qed

definition sources_ok :: "configmap list \<Rightarrow> secret list \<Rightarrow> bool" where
  "sources_ok cms secrets \<longleftrightarrow> list_all cm_ok cms \<and> list_all (\<lambda>s. gmap_ok (sec_data s)) secrets \<and>
     distinct (map cm_name cms) \<and> distinct (map sec_name secrets)"

lemma hashEntries_distinct:
  assumes "sources_ok cms secrets"
  shows "distinct (map fst (hashEntries canon cfg cms secrets))"
proof -
  let ?all = "map (\<lambda>c. (''configmap/'' @ cm_name c, hashConfigMapContent canon (hc_ignored_cm cfg) (hc_exclude_ids cfg) c)) cms @
        map (\<lambda>s. (''secret/'' @ sec_name s, hashSecretContent (hc_ignored_secret cfg) s)) secrets"
  have "map fst ?all = map ((@) ''configmap/'') (map cm_name cms) @ map ((@) ''secret/'') (map sec_name secrets)"
    by (simp add: comp_def)
  moreover have "distinct (map ((@) p) xs)" if "distinct xs" for p :: string and xs
    using that by (simp add: distinct_map inj_on_def)
  ultimately have "distinct (map fst ?all)" using assms by (auto simp: sources_ok_def simp del: map_map)
  then show ?thesis unfolding hashEntries_def by (rule distinct_map_filter)
qed

text \<open>A function of the views that is applied to two lists with the same views.\<close>

lemma mset_map_views:
  assumes "mset (map v xs) = mset (map v ys)"
    and "\<And>x y. x \<in> set xs \<Longrightarrow> y \<in> set ys \<Longrightarrow> v x = v y \<Longrightarrow> f x = f y"
  shows "mset (map f xs) = mset (map f ys)"
  using assms
proof (induction xs arbitrary: ys)
  case (Cons x xs)
  have "v x \<in># mset (map v ys)" unfolding Cons.prems(1) [symmetric] by simp
  then obtain y where y: "y \<in> set ys" "v x = v y" by auto
  have m: "mset ys = add_mset y (mset (remove1 y ys))" using y(1) by simp
  have mv: "mset (map v ys) = add_mset (v y) (mset (map v (remove1 y ys)))"
    and mf: "mset (map f ys) = add_mset (f y) (mset (map f (remove1 y ys)))"
    unfolding mset_map by (simp_all only: m image_mset_add_mset)
  have "mset (map v xs) = mset (map v (remove1 y ys))"
    using Cons.prems(1) unfolding mv by (simp add: y(2))
  then have "mset (map f xs) = mset (map f (remove1 y ys))"
  proof (rule Cons.IH)
    fix x' y' assume "x' \<in> set xs" "y' \<in> set (remove1 y ys)" "v x' = v y'"
    then show "f x' = f y'" using Cons.prems(2) set_remove1_subset [of y ys] by auto
  qed
  then show ?case unfolding mf using Cons.prems(2) [of x y] y by simp
qed simp

text \<open>
  The combined hash depends on what the sources contain and on nothing else: for two
  listings of the same ConfigMaps and Secrets, in any order and with any iteration order of
  their maps, it is the same, so a resync alone never rolls a workload.
\<close>

theorem hash_order_free:
  assumes ok: "sources_ok cms secrets" "sources_ok cms' secrets'"
    and same: "mset (map cm_view cms) = mset (map cm_view cms')" "mset (map secret_view secrets) = mset (map secret_view secrets')"
  shows "hashConfigSources canon cfg cms secrets = hashConfigSources canon cfg cms' secrets'"
proof -
  let ?f = "\<lambda>c. (''configmap/'' @ cm_name c, hashConfigMapContent canon (hc_ignored_cm cfg) (hc_exclude_ids cfg) c)"
  let ?g = "\<lambda>s. (''secret/'' @ sec_name s, hashSecretContent (hc_ignored_secret cfg) s)"
  have "mset (map ?f cms) = mset (map ?f cms')"
  proof (rule mset_map_views [OF same(1)])
    fix x y assume "x \<in> set cms" "y \<in> set cms'" "cm_view x = cm_view y"
    moreover from this have "cm_ok x" "cm_ok y" using ok by (auto simp: sources_ok_def list_all_iff)
    ultimately show "?f x = ?f y" using hashConfigMapContent_view [of x y] by (simp add: cm_view_def)
  qed
  moreover have "mset (map ?g secrets) = mset (map ?g secrets')"
  proof (rule mset_map_views [OF same(2)])
    fix x y assume "x \<in> set secrets" "y \<in> set secrets'" "secret_view x = secret_view y"
    moreover from this have "gmap_ok (sec_data x)" "gmap_ok (sec_data y)" using ok by (auto simp: sources_ok_def list_all_iff)
    ultimately show "?g x = ?g y" using hashSecretContent_view [of x y] by (simp add: secret_view_def)
  qed
  ultimately have m: "mset (hashEntries canon cfg cms secrets) = mset (hashEntries canon cfg cms' secrets')"
    by (simp add: hashEntries_def)
  then have "sort_key fst (hashEntries canon cfg cms secrets) = sort_key fst (hashEntries canon cfg cms' secrets')"
    by (rule sort_key_perm) (rule hashEntries_distinct [OF ok(1)])
  moreover have "hashEntries canon cfg cms secrets = [] \<longleftrightarrow> hashEntries canon cfg cms' secrets' = []"
    using m by (metis mset_zero_iff)
  ultimately show ?thesis by (simp add: hashConfigSources_def Let_def)
qed

section \<open>The hash separates contents\<close>

definition enc :: "string list \<Rightarrow> string" where
  "enc fs = concat (map (\<lambda>f. f @ nul) fs)"

definition nul_free :: "string \<Rightarrow> bool" where
  "nul_free s \<longleftrightarrow> CHR 0x00 \<notin> set s"

lemma enc_simps: "enc [] = []" "enc (f # fs) = f @ CHR 0x00 # enc fs" "enc (fs @ gs) = enc fs @ enc gs"
  by (simp_all add: enc_def)

lemma enc_inj: "list_all nul_free fs \<Longrightarrow> list_all nul_free gs \<Longrightarrow> enc fs = enc gs \<Longrightarrow> fs = gs"
proof (induction fs arbitrary: gs)
  case Nil
  then show ?case by (cases gs) (simp_all add: enc_simps)
next
  case (Cons f fs)
  obtain g gs' where gs: "gs = g # gs'" using Cons.prems(3) by (cases gs) (simp_all add: enc_simps)
  have n: "CHR 0x00 \<notin> set f" "CHR 0x00 \<notin> set g" using Cons.prems gs by (simp_all add: nul_free_def)
  have e: "f @ CHR 0x00 # enc fs = g @ CHR 0x00 # enc gs'" using Cons.prems(3) gs by (simp add: enc_simps)
  have sf: "split_first (CHR 0x00) (f @ CHR 0x00 # t) = Some (f, t)" if "CHR 0x00 \<notin> set f" for f t :: string
    using that by (induction f) auto
  have "Some (f, enc fs) = Some (g, enc gs')"
    using sf [OF n(1), of "enc fs"] sf [OF n(2), of "enc gs'"] unfolding e by simp
  then show ?case using Cons.IH [of gs'] Cons.prems(1,2) gs by simp
qed

text \<open>The two fields of a prefixed key.\<close>

definition fieldsOf :: "(string \<Rightarrow> string) \<Rightarrow> string list \<Rightarrow> string list" where
  "fieldsOf val ks = concat (map (\<lambda>k. [hd k # drop 2 k, val k]) ks)"

definition prefixed :: "string \<Rightarrow> bool" where
  "prefixed k \<longleftrightarrow> (\<exists>c rest. k = c # CHR '':'' # rest)"

lemma fieldsOf_inj:
  "list_all prefixed ks \<Longrightarrow> list_all prefixed ks' \<Longrightarrow> fieldsOf val ks = fieldsOf val' ks' \<Longrightarrow>
   ks = ks' \<and> (\<forall>k \<in> set ks. val k = val' k)"
proof (induction ks arbitrary: ks')
  case Nil
  then show ?case by (cases ks') (simp_all add: fieldsOf_def)
next
  case (Cons k ks)
  obtain j js where js: "ks' = j # js" using Cons.prems(3) by (cases ks') (simp_all add: fieldsOf_def)
  then have "k = j" "val k = val' j" "fieldsOf val ks = fieldsOf val' js"
    using Cons.prems by (auto simp: fieldsOf_def prefixed_def)
  then show ?case using Cons js by simp
qed

text \<open>What a ConfigMap and a Secret contribute for a prefixed key, and their texts for the hasher.\<close>

definition cmVal :: "(string \<Rightarrow> string) \<Rightarrow> bool \<Rightarrow> configmap \<Rightarrow> string \<Rightarrow> string" where
  "cmVal canon exclude c k =
     (if hd k = CHR ''s'' then
        (let v = gstr (cm_data c) (drop 2 k) in if exclude \<and> drop 2 k = SynapseConfigKey then canon v else v)
      else gstr (cm_binary c) (drop 2 k))"

definition cmFields :: "(string \<Rightarrow> string) \<Rightarrow> hash_cfg \<Rightarrow> configmap \<Rightarrow> string list" where
  "cmFields canon cfg c = fieldsOf (cmVal canon (hc_exclude_ids cfg) c) (sort (cmKeys (hc_ignored_cm cfg) c))"

definition secretFields :: "hash_cfg \<Rightarrow> secret \<Rightarrow> string list" where
  "secretFields cfg s = fieldsOf (\<lambda>k. gstr (sec_data s) (drop 2 k)) (sort (secretKeys (hc_ignored_secret cfg) s))"

text \<open>Keys are not empty, and neither keys nor values hold a NUL byte.\<close>

definition cm_plain :: "(string \<Rightarrow> string) \<Rightarrow> hash_cfg \<Rightarrow> configmap \<Rightarrow> bool" where
  "cm_plain canon cfg c \<longleftrightarrow> cm_ok c \<and> [] \<notin> set (gkeys (cm_data c)) \<and> [] \<notin> set (gkeys (cm_binary c)) \<and>
     nul_free (cm_name c) \<and> list_all nul_free (cmFields canon cfg c)"

definition secret_plain :: "hash_cfg \<Rightarrow> secret \<Rightarrow> bool" where
  "secret_plain cfg s \<longleftrightarrow> gmap_ok (sec_data s) \<and> nul_free (sec_name s) \<and> list_all nul_free (secretFields cfg s)"

lemma cmKeys_prefixed: "list_all prefixed (sort (cmKeys ignored c))"
  by (auto simp: list_all_iff cmKeys_def prefixed_def)

lemma secretKeys_prefixed: "list_all prefixed (sort (secretKeys ignored s))"
  by (auto simp: list_all_iff secretKeys_def prefixed_def)

lemma enc_fieldsOf: "enc (fieldsOf val ks) = concat (map (\<lambda>k. hd k # drop 2 k @ nul @ val k @ nul) ks)"
  by (induction ks) (simp_all add: enc_def fieldsOf_def)

lemma hashConfigMapContent_fields:
  assumes "cm_plain canon cfg c"
  shows "hashConfigMapContent canon (hc_ignored_cm cfg) (hc_exclude_ids cfg) c =
    (if cmKeys (hc_ignored_cm cfg) c = [] then [] else digest (enc (cmFields canon cfg c)))"
proof -
  have "cmEntry canon (hc_exclude_ids cfg) c k = hd k # drop 2 k @ nul @ cmVal canon (hc_exclude_ids cfg) c k @ nul"
    if k: "k \<in> set (cmKeys (hc_ignored_cm cfg) c)" for k
  proof -
    have ne: "j \<noteq> []" if "j \<in> set (gkeys (cm_data c)) \<or> j \<in> set (gkeys (cm_binary c))" for j
      using that assms unfolding cm_plain_def by metis
    obtain j where j: "k = ''s:'' @ j \<and> j \<in> set (gkeys (cm_data c)) \<or> k = ''b:'' @ j \<and> j \<in> set (gkeys (cm_binary c))"
      using k unfolding set_cmKeys by blast
    then have "j \<noteq> []" using ne by blast
    then show ?thesis using j by (cases j) (auto simp: cmEntry_def cmVal_def Let_def)
  qed
  then have m: "map (cmEntry canon (hc_exclude_ids cfg) c) (sort (cmKeys (hc_ignored_cm cfg) c)) =
      map (\<lambda>k. hd k # drop 2 k @ nul @ cmVal canon (hc_exclude_ids cfg) c k @ nul) (sort (cmKeys (hc_ignored_cm cfg) c))"
    by (intro map_cong) simp_all
  moreover have "cm_data c = [] \<and> cm_binary c = [] \<Longrightarrow> cmKeys (hc_ignored_cm cfg) c = []" by (simp add: cmKeys_def)
  ultimately show ?thesis unfolding hashConfigMapContent_def cmFields_def enc_fieldsOf m by auto
qed

lemma hashSecretContent_fields:
  "hashSecretContent (hc_ignored_secret cfg) s =
    (if secretKeys (hc_ignored_secret cfg) s = [] then [] else digest (enc (secretFields cfg s)))"
proof -
  have "secretEntry s k = hd k # drop 2 k @ nul @ gstr (sec_data s) (drop 2 k) @ nul"
    if "k \<in> set (secretKeys (hc_ignored_secret cfg) s)" for k
    using that by (auto simp: secretKeys_def secretEntry_def)
  then have m: "map (secretEntry s) (sort (secretKeys (hc_ignored_secret cfg) s)) =
      map (\<lambda>k. hd k # drop 2 k @ nul @ gstr (sec_data s) (drop 2 k) @ nul) (sort (secretKeys (hc_ignored_secret cfg) s))"
    by (intro map_cong) simp_all
  show ?thesis unfolding hashSecretContent_def secretFields_def enc_fieldsOf m by (auto simp: secretKeys_def)
qed

lemma be_bytes_range: "b \<in> set (be_bytes k n) \<Longrightarrow> 0 \<le> b \<and> b < 256"
  by (induction k arbitrary: n) auto

lemma hex_char_nul: "0 \<le> d \<Longrightarrow> d < 16 \<Longrightarrow> hex_char d \<noteq> CHR 0x00"
proof -
  assume "0 \<le> d" "d < 16"
  then have "nat d < length ''0123456789abcdef''" by simp
  then have "hex_char d \<in> set ''0123456789abcdef''" unfolding hex_char_def by (rule nth_mem)
  then show ?thesis by auto
qed

lemma digest_nul_free: "nul_free (digest s)"
proof -
  have r: "0 \<le> b \<and> b < 256" if "b \<in> set (sha256 s)" for b
    using that be_bytes_range by (fastforce simp: sha256_def Let_def)
  have "hex_char (b div 16) \<noteq> CHR 0x00 \<and> hex_char (b mod 16) \<noteq> CHR 0x00" if "b \<in> set (sha256 s)" for b
  proof -
    have "0 \<le> b div 16" "b div 16 < 16" "0 \<le> b mod 16" "b mod 16 < 16" using r [OF that] by presburger+
    then show ?thesis using hex_char_nul by blast
  qed
  then show ?thesis unfolding nul_free_def digest_def hexEncode_def by fastforce
qed

lemma sort_key_enc:
  "concat (map (\<lambda>e. fst e @ nul @ snd e @ nul) es) = enc (concat (map (\<lambda>e. [fst e, snd e]) es))"
  by (induction es) (simp_all add: enc_def)

lemma pairs_inj: "concat (map (\<lambda>e. [fst e, snd e]) es) = concat (map (\<lambda>e. [fst e, snd e]) es') \<Longrightarrow> es = es'"
proof (induction es arbitrary: es')
  case Nil
  then show ?case by (cases es') simp_all
next
  case (Cons e es)
  then show ?case by (cases es') (auto simp: prod_eq_iff)
qed

definition topFields :: "(string \<Rightarrow> string) \<Rightarrow> hash_cfg \<Rightarrow> configmap list \<Rightarrow> secret list \<Rightarrow> string list" where
  "topFields canon cfg cms secrets = concat (map (\<lambda>e. [fst e, snd e]) (sort_key fst (hashEntries canon cfg cms secrets)))"

lemma topFields_plain:
  assumes "\<forall>c \<in> set cms. cm_plain canon cfg c" "\<forall>s \<in> set secrets. secret_plain cfg s"
  shows "list_all nul_free (topFields canon cfg cms secrets)"
proof -
  have c: "nul_free (hashConfigMapContent canon (hc_ignored_cm cfg) (hc_exclude_ids cfg) c)" for c
    using digest_nul_free by (auto simp: hashConfigMapContent_def nul_free_def)
  have s: "nul_free (hashSecretContent (hc_ignored_secret cfg) s)" for s
    using digest_nul_free by (auto simp: hashSecretContent_def nul_free_def)
  show ?thesis
    using assms c s
    by (auto simp: topFields_def list_all_iff hashEntries_def cm_plain_def secret_plain_def nul_free_def)
qed

lemma mem_hashEntries: "(n, h) \<in> set (hashEntries canon cfg cms secrets) \<longleftrightarrow> h \<noteq> [] \<and>
    ((\<exists>c \<in> set cms. n = ''configmap/'' @ cm_name c \<and> h = hashConfigMapContent canon (hc_ignored_cm cfg) (hc_exclude_ids cfg) c) \<or>
     (\<exists>s \<in> set secrets. n = ''secret/'' @ sec_name s \<and> h = hashSecretContent (hc_ignored_secret cfg) s))"
  by (auto simp: hashEntries_def)

text \<open>A listed source and the source behind the same entry of another listing.\<close>

lemma cm_counterpart:
  assumes c: "cmKeys (hc_ignored_cm cfg) c \<noteq> []" and plain: "\<forall>x \<in> insert c (set cms'). cm_plain canon cfg x"
    and sha: "inj_on digest ((\<lambda>x. enc (cmFields canon cfg x)) ` insert c (set cms'))"
    and E: "(''configmap/'' @ cm_name c, hashConfigMapContent canon (hc_ignored_cm cfg) (hc_exclude_ids cfg) c)
      \<in> set (hashEntries canon cfg cms' secrets')"
  shows "\<exists>c' \<in> set cms'. cm_name c' = cm_name c \<and> cmFields canon cfg c' = cmFields canon cfg c"
proof -
  let ?h = "\<lambda>c. hashConfigMapContent canon (hc_ignored_cm cfg) (hc_exclude_ids cfg) c"
  have hc: "?h c = digest (enc (cmFields canon cfg c))" using hashConfigMapContent_fields plain c by simp
  obtain c' where c': "c' \<in> set cms'" "cm_name c' = cm_name c" "?h c' = ?h c"
    using E unfolding mem_hashEntries by auto
  have "?h c' \<noteq> []" unfolding c'(3) hc by (rule digest_nonempty)
  then have "?h c' = digest (enc (cmFields canon cfg c'))"
    using hashConfigMapContent_fields [of canon cfg c'] plain c'(1) by (metis insertCI)
  then have "digest (enc (cmFields canon cfg c')) = digest (enc (cmFields canon cfg c))" unfolding c'(3) hc by (rule sym)
  then have "enc (cmFields canon cfg c') = enc (cmFields canon cfg c)" by (rule inj_onD [OF sha]) (use c'(1) in blast)+
  then have "cmFields canon cfg c' = cmFields canon cfg c"
    using plain c'(1) by (intro enc_inj) (auto simp: cm_plain_def)
  then show ?thesis using c' by blast
qed

lemma secret_counterpart:
  assumes s: "secretKeys (hc_ignored_secret cfg) s \<noteq> []" and plain: "\<forall>x \<in> insert s (set secrets'). secret_plain cfg x"
    and sha: "inj_on digest ((\<lambda>x. enc (secretFields cfg x)) ` insert s (set secrets'))"
    and E: "(''secret/'' @ sec_name s, hashSecretContent (hc_ignored_secret cfg) s) \<in> set (hashEntries canon cfg cms' secrets')"
  shows "\<exists>s' \<in> set secrets'. sec_name s' = sec_name s \<and> secretFields cfg s' = secretFields cfg s"
proof -
  let ?h = "\<lambda>s. hashSecretContent (hc_ignored_secret cfg) s"
  have hs: "?h s = digest (enc (secretFields cfg s))" using hashSecretContent_fields s by simp
  obtain s' where s': "s' \<in> set secrets'" "sec_name s' = sec_name s" "?h s' = ?h s"
    using E unfolding mem_hashEntries by auto
  have "?h s' \<noteq> []" unfolding s'(3) hs by (rule digest_nonempty)
  then have "?h s' = digest (enc (secretFields cfg s'))" using hashSecretContent_fields [of cfg s'] by metis
  then have "digest (enc (secretFields cfg s')) = digest (enc (secretFields cfg s))" unfolding s'(3) hs by (rule sym)
  then have "enc (secretFields cfg s') = enc (secretFields cfg s)" by (rule inj_onD [OF sha]) (use s'(1) in blast)+
  then have "secretFields cfg s' = secretFields cfg s"
    using plain s'(1) by (intro enc_inj) (auto simp: secret_plain_def)
  then show ?thesis using s' by blast
qed

text \<open>
  Claim C12. The combined hash separates contents, as far as SHA-256 does: when two sets of sources
  without NUL bytes get the same hash, and SHA-256 does not collide on the texts that were
  hashed, then every ConfigMap with a relevant key has a counterpart of the same name with the
  same relevant values (canonicalised where that is configured), and every Secret likewise. So
  a relevant change always rolls.
\<close>

theorem hash_separates:
  assumes plain: "\<forall>c \<in> set cms \<union> set cms'. cm_plain canon cfg c" "\<forall>s \<in> set secrets \<union> set secrets'. secret_plain cfg s"
    and eq: "hashConfigSources canon cfg cms secrets = hashConfigSources canon cfg cms' secrets'"
      "hashConfigSources canon cfg cms secrets \<noteq> []"
    and sha: "inj_on digest {enc (topFields canon cfg cms secrets), enc (topFields canon cfg cms' secrets')}"
      "inj_on digest ((\<lambda>c. enc (cmFields canon cfg c)) ` (set cms \<union> set cms'))"
      "inj_on digest ((\<lambda>s. enc (secretFields cfg s)) ` (set secrets \<union> set secrets'))"
  shows "(\<forall>c \<in> set cms. cmKeys (hc_ignored_cm cfg) c \<noteq> [] \<longrightarrow>
      (\<exists>c' \<in> set cms'. cm_name c' = cm_name c \<and> cmFields canon cfg c' = cmFields canon cfg c)) \<and>
    (\<forall>s \<in> set secrets. secretKeys (hc_ignored_secret cfg) s \<noteq> [] \<longrightarrow>
      (\<exists>s' \<in> set secrets'. sec_name s' = sec_name s \<and> secretFields cfg s' = secretFields cfg s))"
proof -
  let ?E = "hashEntries canon cfg cms secrets" and ?E' = "hashEntries canon cfg cms' secrets'"
  have h: "hashConfigSources canon cfg x y = (if hashEntries canon cfg x y = [] then [] else digest (enc (topFields canon cfg x y)))"
    for x y unfolding hashConfigSources_def Let_def sort_key_enc topFields_def by (rule refl)
  then have "?E \<noteq> []" using eq(2) by metis
  moreover from this have "?E' \<noteq> []" using eq h by metis
  ultimately have "digest (enc (topFields canon cfg cms secrets)) = digest (enc (topFields canon cfg cms' secrets'))"
    using eq(1) unfolding h by (simp only: if_False)
  then have "enc (topFields canon cfg cms secrets) = enc (topFields canon cfg cms' secrets')"
    by (rule inj_onD [OF sha(1)]) simp_all
  then have "topFields canon cfg cms secrets = topFields canon cfg cms' secrets'"
    using plain by (intro enc_inj topFields_plain) auto
  then have "sort_key fst ?E = sort_key fst ?E'" unfolding topFields_def by (rule pairs_inj)
  then have E: "set ?E = set ?E'" by (metis set_sort)
  have "\<exists>c' \<in> set cms'. cm_name c' = cm_name c \<and> cmFields canon cfg c' = cmFields canon cfg c"
    if c: "c \<in> set cms" "cmKeys (hc_ignored_cm cfg) c \<noteq> []" for c
  proof (rule cm_counterpart [OF c(2)])
    have "hashConfigMapContent canon (hc_ignored_cm cfg) (hc_exclude_ids cfg) c \<noteq> []"
      using hashConfigMapContent_fields plain(1) c by simp
    then show "(''configmap/'' @ cm_name c, hashConfigMapContent canon (hc_ignored_cm cfg) (hc_exclude_ids cfg) c) \<in> set ?E'"
      unfolding E [symmetric] mem_hashEntries using c(1) by blast
    show "inj_on digest ((\<lambda>x. enc (cmFields canon cfg x)) ` insert c (set cms'))"
      using c(1) by (intro inj_on_subset [OF sha(2)]) blast
  qed (use plain(1) c(1) in blast)
  moreover have "\<exists>s' \<in> set secrets'. sec_name s' = sec_name s \<and> secretFields cfg s' = secretFields cfg s"
    if s: "s \<in> set secrets" "secretKeys (hc_ignored_secret cfg) s \<noteq> []" for s
  proof (rule secret_counterpart [OF s(2)])
    have "hashSecretContent (hc_ignored_secret cfg) s \<noteq> []" using hashSecretContent_fields s(2) by simp
    then show "(''secret/'' @ sec_name s, hashSecretContent (hc_ignored_secret cfg) s) \<in> set ?E'"
      unfolding E [symmetric] mem_hashEntries using s(1) by blast
    show "inj_on digest ((\<lambda>x. enc (secretFields cfg x)) ` insert s (set secrets'))"
      using s(1) by (intro inj_on_subset [OF sha(3)]) blast
  qed (use plain(2) s(1) in blast)
  ultimately show ?thesis by blast
qed

text \<open>What equal fields mean for the values.\<close>

lemma cmFields_values:
  assumes "cmFields canon cfg c = cmFields canon cfg c'" "\<not> shouldIgnoreKey k (hc_ignored_cm cfg)"
    "hc_exclude_ids cfg \<longrightarrow> k \<noteq> SynapseConfigKey"
  shows "gget (cm_data c) k = gget (cm_data c') k"
proof -
  let ?ks = "\<lambda>c. cmKeys (hc_ignored_cm cfg) c"
  have f: "sort (?ks c) = sort (?ks c')"
    "\<forall>j \<in> set (sort (?ks c)). cmVal canon (hc_exclude_ids cfg) c j = cmVal canon (hc_exclude_ids cfg) c' j"
    using fieldsOf_inj [OF cmKeys_prefixed cmKeys_prefixed assms(1) [unfolded cmFields_def]] by blast+
  have ks: "set (?ks c) = set (?ks c')" using f(1) by (metis set_sort)
  have mem: "''s:'' @ k \<in> set (?ks x) \<longleftrightarrow> gget (cm_data x) k \<noteq> None" for x
    unfolding set_cmKeys using assms(2) by (auto simp: map_of_eq_None_iff)
  show ?thesis
  proof (cases "gget (cm_data c) k")
    case None
    then show ?thesis using mem [of c] mem [of c'] ks by simp
  next
    case (Some v)
    then have "''s:'' @ k \<in> set (?ks c)" using mem by simp
    then have "cmVal canon (hc_exclude_ids cfg) c (''s:'' @ k) = cmVal canon (hc_exclude_ids cfg) c' (''s:'' @ k)"
      "gget (cm_data c') k \<noteq> None"
      using f(2) ks mem [of c'] by auto
    then show ?thesis using Some assms(3) by (auto simp: cmVal_def gstr_def)
  qed
qed

section \<open>Stamping the workloads\<close>

definition stamp :: "string \<Rightarrow> (workload \<Rightarrow> string) \<Rightarrow> workload \<Rightarrow> workload" where
  "stamp key hash w =
     (if hash w = [] then w else w\<lparr>wl_annotations := gput key (hash w) (wl_annotations w)\<rparr>)"

lemma gput_same: "gget m k = Some v \<Longrightarrow> gput k v m = m"
  by (induction m) auto

lemma gstr_Some: "gstr m k = v \<Longrightarrow> v \<noteq> [] \<Longrightarrow> gget m k = Some v"
  by (cases "gget m k") (auto simp: gstr_def)

lemma patchHash_result:
  assumes "patchHash kind key h w l = ((e, w'), l')" "h \<noteq> []"
  shows "e = None \<Longrightarrow> w' = w\<lparr>wl_annotations := gput key h (wl_annotations w)\<rparr>" "e \<noteq> None \<Longrightarrow> w' = w"
    "gget (wl_annotations w) key = Some h \<Longrightarrow> e = None \<and> l' = l"
proof -
  show "e = None \<Longrightarrow> w' = w\<lparr>wl_annotations := gput key h (wl_annotations w)\<rparr>"
    using assms gput_same [OF gstr_Some [of "wl_annotations w" key h]]
    by (auto simp: patchHash_def Let_def split: if_splits)
  show "e \<noteq> None \<Longrightarrow> w' = w" using assms by (auto simp: patchHash_def Let_def split: if_splits)
  show "gget (wl_annotations w) key = Some h \<Longrightarrow> e = None \<and> l' = l"
    using assms by (auto simp: patchHash_def gstr_def)
qed

text \<open>Each workload is stamped or as it was; without an error all are stamped.\<close>

lemma patchItems_result:
  "patchItems kind key hash ws l = ((e, ws'), l') \<Longrightarrow>
   list_all2 (\<lambda>w w'. w' = w \<or> w' = stamp key hash w) ws ws' \<and> (e = None \<longrightarrow> ws' = map (stamp key hash) ws)"
proof (induction ws arbitrary: l ws' e l')
  case (Cons w ws)
  show ?case
  proof (cases "hash w = []")
    case True
    then show ?thesis using Cons by (auto simp: stamp_def split: prod.splits)
  next
    case False
    obtain e1 w1 l1 where p: "patchHash kind key (hash w) w l = ((e1, w1), l1)" by (metis prod.collapse)
    show ?thesis
    proof (cases e1)
      case None
      obtain e2 ws2 l2 where r: "patchItems kind key hash ws l1 = ((e2, ws2), l2)" by (metis prod.collapse)
      have "w1 = stamp key hash w" using patchHash_result(1) [OF p False None] False by (simp add: stamp_def)
      then show ?thesis using Cons.IH [OF r] Cons.prems p r None False by auto
    next
      case (Some x)
      then have "w1 = w" using patchHash_result(2) [OF p False] by simp
      then show ?thesis using Cons.prems p Some False by (auto simp: list.rel_refl)
    qed
  qed
qed simp

text \<open>Nothing is sent for workloads that carry their hash.\<close>

lemma patchItems_stamped:
  "\<forall>w \<in> set ws. hash w \<noteq> [] \<longrightarrow> gget (wl_annotations w) key = Some (hash w) \<Longrightarrow>
   patchItems kind key hash ws l = ((None, ws), l)"
proof (induction ws)
  case (Cons w ws)
  then show ?case by (auto simp: patchHash_def gstr_def)
qed simp

text \<open>
  The contract of a kind of workload: its list is stored and read back, apart from the patch
  log. Every kind's controller loop is the same code over such a store.
\<close>

locale workload_store =
  fixes kind :: wl_kind
    and items :: "workloads \<Rightarrow> workload list"
    and put :: "workload list \<Rightarrow> workloads \<Rightarrow> workloads"
  assumes get_put: "items ((put ws s)\<lparr>ws_log := l\<rparr>) = ws"
    and put_get: "(put (items s) s)\<lparr>ws_log := ws_log s\<rparr> = s"
begin

lemma patch_each:
  assumes "patchKind kind items put listed key hash s = (e, s')"
  shows "list_all2 (\<lambda>w w'. w' = w \<or> w' = stamp key hash w) (items s) (items s')"
    "e = None \<Longrightarrow> items s' = map (stamp key hash) (items s)"
proof -
  obtain e1 ws l where p: "patchItems kind key hash (items s) (ws_log s) = ((e1, ws), l)" by (metis prod.collapse)
  show "list_all2 (\<lambda>w w'. w' = w \<or> w' = stamp key hash w) (items s) (items s')"
    "e = None \<Longrightarrow> items s' = map (stamp key hash) (items s)"
    using assms patchItems_result [OF p] p get_put by (auto simp: patchKind_def list.rel_refl split: if_splits)
qed

lemma patch_quiet:
  assumes "listed kind" "\<forall>w \<in> set (items s). hash w \<noteq> [] \<longrightarrow> gget (wl_annotations w) key = Some (hash w)"
  shows "patchKind kind items put listed key hash s = (None, s)"
  using assms(1) patchItems_stamped [OF assms(2)] put_get by (simp add: patchKind_def)

end

interpretation deployments: workload_store Deployment ws_deployments "\<lambda>ws s. s\<lparr>ws_deployments := ws\<rparr>"
  by unfold_locales simp_all

interpretation daemonsets: workload_store DaemonSet ws_daemonsets "\<lambda>ws s. s\<lparr>ws_daemonsets := ws\<rparr>"
  by unfold_locales simp_all

interpretation statefulsets: workload_store StatefulSet ws_statefulsets "\<lambda>ws s. s\<lparr>ws_statefulsets := ws\<rparr>"
  by unfold_locales simp_all

text \<open>A kind's loop leaves the other kinds alone.\<close>

lemma patch_frames:
  "patchDeployments listed key hash s = (e, s') \<Longrightarrow> ws_daemonsets s' = ws_daemonsets s \<and> ws_statefulsets s' = ws_statefulsets s"
  "patchDaemonSets listed key hash s = (e, s') \<Longrightarrow> ws_deployments s' = ws_deployments s \<and> ws_statefulsets s' = ws_statefulsets s"
  "patchStatefulSets listed key hash s = (e, s') \<Longrightarrow> ws_deployments s' = ws_deployments s \<and> ws_daemonsets s' = ws_daemonsets s"
  by (auto simp: patchDeployments_def patchDaemonSets_def patchStatefulSets_def patchKind_def split: if_splits prod.splits)

lemma patch_listed:
  "patchKind kind items put listed key hash s = (None, s') \<Longrightarrow> listed kind"
  by (auto simp: patchKind_def split: if_splits)

definition allWorkloads :: "workloads \<Rightarrow> workload list" where
  "allWorkloads s = ws_deployments s @ ws_daemonsets s @ ws_statefulsets s"

lemma workloadHash_stamp: "workloadHash canon cfg cms secrets (stamp key h w) = workloadHash canon cfg cms secrets w"
  by (simp add: workloadHash_def stamp_def)

lemma stamp_carries:
  "workloadHash canon cfg cms secrets w \<noteq> [] \<Longrightarrow>
   gget (wl_annotations (stamp key (workloadHash canon cfg cms secrets) w)) key = Some (workloadHash canon cfg cms secrets w)"
  by (simp add: stamp_def gget_gput)

text \<open>The result of the three loops: stamped or as it was, and quiet when it is run again.\<close>

lemma patchAll_stamps:
  assumes run: "patchAll listed key hash s = (e, s')"
    and fix_hash: "\<And>w. hash (stamp key hash w) = hash w"
  shows "list_all2 (\<lambda>w w'. w' = w \<or> w' = stamp key hash w) (allWorkloads s) (allWorkloads s')"
    "e = None \<Longrightarrow> allWorkloads s' = map (stamp key hash) (allWorkloads s) \<and> patchAll listed key hash s' = (None, s')"
proof -
  let ?R = "\<lambda>w w'. w' = w \<or> w' = stamp key hash w"
  have refl: "list_all2 ?R ws ws" for ws by (rule list.rel_refl) simp
  have stamped: "\<forall>w \<in> set (map (stamp key hash) ws). hash w \<noteq> [] \<longrightarrow> gget (wl_annotations w) key = Some (hash w)" for ws
    by (auto simp: fix_hash) (simp add: stamp_def gget_gput)
  note all_defs = patchDeployments_def patchDaemonSets_def patchStatefulSets_def
  obtain e1 s1 where p1: "patchDeployments listed key hash s = (e1, s1)" by fastforce
  obtain e2 s2 where p2: "patchDaemonSets listed key hash s1 = (e2, s2)" by fastforce
  obtain e3 s3 where p3: "patchStatefulSets listed key hash s2 = (e3, s3)" by fastforce
  note d = deployments.patch_each [OF p1 [unfolded all_defs]]
  note m = daemonsets.patch_each [OF p2 [unfolded all_defs]]
  note t = statefulsets.patch_each [OF p3 [unfolded all_defs]]
  note fr = patch_frames(1) [OF p1] patch_frames(2) [OF p2] patch_frames(3) [OF p3]
  have ends: "e1 \<noteq> None \<and> e \<noteq> None \<and> s' = s1 \<or> e1 = None \<and> e2 \<noteq> None \<and> e \<noteq> None \<and> s' = s2 \<or> e1 = None \<and> e2 = None \<and> e = e3 \<and> s' = s3"
    using run unfolding patchAll_def p1 by (auto simp: p2 p3 split: option.splits)
  then show "list_all2 ?R (allWorkloads s) (allWorkloads s')"
    using d(1) m(1) t(1) fr refl by (auto simp: allWorkloads_def intro!: list_all2_appendI)
  assume "e = None"
  then have e: "e1 = None" "e2 = None" "e3 = None" "s' = s3" using ends by auto
  have items: "ws_deployments s' = map (stamp key hash) (ws_deployments s)" "ws_daemonsets s' = map (stamp key hash) (ws_daemonsets s)"
    "ws_statefulsets s' = map (stamp key hash) (ws_statefulsets s)"
    using d(2) m(2) t(2) fr e by simp_all
  have l: "listed Deployment" "listed DaemonSet" "listed StatefulSet"
    using p1 p2 p3 e unfolding all_defs by (auto dest!: patch_listed)
  have "patchAll listed key hash s' = (None, s')"
    unfolding patchAll_def all_defs
    using deployments.patch_quiet [of listed s' hash key, OF l(1)] daemonsets.patch_quiet [of listed s' hash key, OF l(2)]
      statefulsets.patch_quiet [of listed s' hash key, OF l(3)] stamped
    unfolding items by simp
  then show "allWorkloads s' = map (stamp key hash) (allWorkloads s) \<and> patchAll listed key hash s' = (None, s')"
    using items by (simp add: allWorkloads_def)
qed

text \<open>What a reconcile does to the workloads of its namespace.\<close>

lemma hashReconcile_effect:
  assumes src: "listConfigSources a = Inr (cms, secrets)" and run: "hashReconcile canon cfg a s = (e, s')"
  shows "list_all2 (\<lambda>w w'. w' = w \<or> w' = stamp (hc_annotation cfg) (workloadHash canon cfg cms secrets) w)
      (allWorkloads s) (allWorkloads s') \<and>
    (e = None \<longrightarrow> (\<forall>w \<in> set (allWorkloads s'). let h = workloadHash canon cfg cms secrets w in
       h \<noteq> [] \<longrightarrow> gget (wl_annotations w) (hc_annotation cfg) = Some h) \<and>
     hashReconcile canon cfg a s' = (None, s'))"
proof (cases "getChanged a \<noteq> None \<or> hashConfigSources canon cfg cms secrets = [] \<and> \<not> hc_per_workload cfg")
  case True
  then have "s' = s \<and> (e = None \<longrightarrow> (\<forall>w. workloadHash canon cfg cms secrets w = []) \<and> hashReconcile canon cfg a s = (None, s))"
    using run src by (cases "getChanged a") (auto simp: hashReconcile_def workloadHash_def hashForWorkload_def)
  then show ?thesis by (simp add: list.rel_refl)
next
  case False
  let ?h = "workloadHash canon cfg cms secrets"
  have eq: "hashReconcile canon cfg a t = patchAll (ha_listed a) (hc_annotation cfg) ?h t" for t
    using src False by (auto simp: hashReconcile_def)
  note p = patchAll_stamps [OF run [unfolded eq] workloadHash_stamp]
  show ?thesis
  proof (cases e)
    case None
    then have "\<forall>w \<in> set (allWorkloads s'). ?h w \<noteq> [] \<longrightarrow> gget (wl_annotations w) (hc_annotation cfg) = Some (?h w)"
      using p(2) by (auto simp: stamp_carries workloadHash_stamp)
    then show ?thesis using p None unfolding Let_def eq by blast
  qed (use p(1) in simp)
qed

text \<open>
  Claim C4. Stamping is exact and settles: whatever patches are refused, each workload is either
  as it was or carries its hash under the annotation, with nothing else changed; when the
  reconcile reports no error, every workload with a hash carries it, and reconciling again over
  the same sources sends no patch, so the workloads roll once per change.
\<close>

theorem hashReconcile_stamps:
  assumes src: "listConfigSources a = Inr (cms, secrets)" and run: "hashReconcile canon cfg a s = (e, s')"
  shows "list_all2 (\<lambda>w w'. w' = w \<or> w' = stamp (hc_annotation cfg) (workloadHash canon cfg cms secrets) w)
      (allWorkloads s) (allWorkloads s') \<and>
    (e = None \<longrightarrow> (\<forall>w \<in> set (allWorkloads s'). let h = workloadHash canon cfg cms secrets w in
       h \<noteq> [] \<longrightarrow> gget (wl_annotations w) (hc_annotation cfg) = Some h) \<and>
     hashReconcile canon cfg a s' = (None, s'))"
  using assms by (rule hashReconcile_effect)

section \<open>Hot-reloadable edits do not roll\<close>

text \<open>Agreement of two documents on everything but the hot-reloadable fields.\<close>

definition cold_ids :: "yval option \<Rightarrow> yval option" where
  "cold_ids v = (case as_map v of
     None \<Rightarrow> v
   | Some ids \<Rightarrow> Some (YMap (fmfilter (\<lambda>f. f \<notin> set hotReloadIdsFields) ids)))"

definition ids_same :: "ydoc \<Rightarrow> ydoc \<Rightarrow> bool" where
  "ids_same m m' \<longleftrightarrow> fmdrop ''ids'' m = fmdrop ''ids'' m' \<and> cold_ids (fmlookup m ''ids'') = cold_ids (fmlookup m' ''ids'')"

definition cold_same :: "ydoc \<Rightarrow> ydoc \<Rightarrow> bool" where
  "cold_same root root' \<longleftrightarrow> ids_same (fmdrop ''firewall'' root) (fmdrop ''firewall'' root') \<and>
     (case (as_map (fmlookup root ''firewall''), as_map (fmlookup root' ''firewall'')) of
        (Some fw, Some fw') \<Rightarrow> ids_same fw fw'
      | (None, None) \<Rightarrow> fmlookup root ''firewall'' = fmlookup root' ''firewall''
      | _ \<Rightarrow> False)"

lemma fmlookup_foldl_fmdrop:
  "fmlookup (foldl (\<lambda>m f. fmdrop f m) m fs) k = (if k \<in> set fs then None else fmlookup m k)"
  by (induction fs arbitrary: m) auto

lemma strip_filter: "stripHotReloadIdsFields ids = fmfilter (\<lambda>f. f \<notin> set hotReloadIdsFields) ids"
  by (rule fmap_ext) (simp add: stripHotReloadIdsFields_def fmlookup_foldl_fmdrop del: hotReloadIdsFields_def)

lemma fmlookup_stripIds:
  "fmlookup (stripIds m) k = (if k = ''ids'' then cold_ids (fmlookup m ''ids'') else fmlookup m k)"
  by (simp add: stripIds_def cold_ids_def strip_filter split: option.split)

lemma fmlookup_stripRoot:
  "fmlookup (stripRoot root) k =
     (if k = ''ids'' then cold_ids (fmlookup root ''ids'')
      else if k = ''firewall'' then
        (case as_map (fmlookup root ''firewall'') of
           None \<Rightarrow> fmlookup root ''firewall'' | Some fw \<Rightarrow> Some (YMap (stripIds fw)))
      else fmlookup root k)"
  by (simp add: stripRoot_def Let_def fmlookup_stripIds split: option.split)

lemma fmap_eq_iff: "m = m' \<longleftrightarrow> (\<forall>k. fmlookup m k = fmlookup m' k)"
  by (metis fmap_ext)

lemma stripIds_eq: "stripIds m = stripIds m' \<longleftrightarrow> ids_same m m'"
  unfolding ids_same_def fmap_eq_iff [of "stripIds m"] fmap_eq_iff [of "fmdrop _ _"] fmlookup_stripIds
  by auto

lemma stripRoot_eq: "stripRoot root = stripRoot root' \<longleftrightarrow> cold_same root root'"
proof -
  have "stripRoot root = stripRoot root' \<longleftrightarrow>
      (\<forall>k. k \<noteq> ''firewall'' \<longrightarrow> fmlookup (stripRoot root) k = fmlookup (stripRoot root') k) \<and>
      fmlookup (stripRoot root) ''firewall'' = fmlookup (stripRoot root') ''firewall''"
    unfolding fmap_eq_iff [of "stripRoot root"] by metis
  moreover have "(\<forall>k. k \<noteq> ''firewall'' \<longrightarrow> fmlookup (stripRoot root) k = fmlookup (stripRoot root') k) \<longleftrightarrow>
      ids_same (fmdrop ''firewall'' root) (fmdrop ''firewall'' root')"
    unfolding ids_same_def fmap_eq_iff [of "fmdrop _ _"] fmlookup_stripRoot by auto
  moreover have "fmlookup (stripRoot root) ''firewall'' = fmlookup (stripRoot root') ''firewall'' \<longleftrightarrow>
     (case (as_map (fmlookup root ''firewall''), as_map (fmlookup root' ''firewall'')) of
        (Some fw, Some fw') \<Rightarrow> ids_same fw fw'
      | (None, None) \<Rightarrow> fmlookup root ''firewall'' = fmlookup root' ''firewall''
      | _ \<Rightarrow> False)"
    by (cases "as_map (fmlookup root ''firewall'')"; cases "as_map (fmlookup root' ''firewall'')")
      (auto simp: fmlookup_stripRoot stripIds_eq dest!: sym [of "Some (YMap _)"])
  ultimately show ?thesis unfolding cold_same_def by (simp only:)
qed

text \<open>
  Claim C26. With hot-reloadable fields excluded, two parsable configurations get the same
  canonical text exactly when they agree on everything but the hot-reloadable fields under
  \<^verbatim>\<open>ids\<close> and \<^verbatim>\<open>firewall.ids\<close>; and editing only those fields of one ConfigMap leaves the combined
  hash of all the sources unchanged, so it does not roll the workloads.
\<close>

theorem hot_reload_exact:
  assumes parse: "um raw = Inr (Some root)" "um raw' = Inr (Some root')"
    and rt: "reads_back um ma (stripRoot root)" "reads_back um ma (stripRoot root')"
    and excl: "hc_exclude_ids cfg"
    and canon: "canon = canonicalConfigSansHotReloadIds um ma"
  shows "(canon raw = canon raw' \<longleftrightarrow> cold_same root root') \<and>
    (cold_same root root' \<longrightarrow>
       hashConfigSources canon cfg (pre @ c\<lparr>cm_data := gput SynapseConfigKey raw d\<rparr> # post) secrets =
       hashConfigSources canon cfg (pre @ c\<lparr>cm_data := gput SynapseConfigKey raw' d\<rparr> # post) secrets)"
proof (intro conjI impI)
  obtain t t' where t: "ma (stripRoot root) = Inr t" "um t = Inr (Some (stripRoot root))"
    "ma (stripRoot root') = Inr t'" "um t' = Inr (Some (stripRoot root'))"
    using rt unfolding reads_back_def by blast
  have c: "canon raw = t" "canon raw' = t'"
    unfolding canon canonicalConfigSansHotReloadIds_def parse by (simp_all add: t)
  have "t = t' \<longleftrightarrow> stripRoot root = stripRoot root'" using t by auto
  then show iff: "canon raw = canon raw' \<longleftrightarrow> cold_same root root'" unfolding c stripRoot_eq .
  assume "cold_same root root'"
  then have same: "canon raw = canon raw'" using iff by simp
  let ?c = "c\<lparr>cm_data := gput SynapseConfigKey raw d\<rparr>" and ?c' = "c\<lparr>cm_data := gput SynapseConfigKey raw' d\<rparr>"
  have keys: "cmKeys (hc_ignored_cm cfg) ?c = cmKeys (hc_ignored_cm cfg) ?c'" by (simp add: cmKeys_def update_keys)
  have "cmEntry canon True ?c = cmEntry canon True ?c'"
    using same by (simp add: fun_eq_iff cmEntry_def gstr_def gget_gput Let_def)
  then have "hashConfigMapContent canon (hc_ignored_cm cfg) True ?c = hashConfigMapContent canon (hc_ignored_cm cfg) True ?c'"
    by (simp add: hashConfigMapContent_def keys gput_nonempty)
  then show "hashConfigSources canon cfg (pre @ ?c # post) secrets = hashConfigSources canon cfg (pre @ ?c' # post) secrets"
    using excl by (simp add: hashConfigSources_def hashEntries_def)
qed


section \<open>The theorems at work\<close>

definition mk_cm :: "(string, string) gmap \<Rightarrow> configmap" where
  "mk_cm d = \<lparr>cm_ns = ''ns'', cm_name = ''cfg'', cm_labels = [], cm_annotations = [], cm_data = d, cm_binary = []\<rparr>"

definition plain_cfg :: hash_cfg where
  "plain_cfg = \<lparr>hc_annotation = ''moat/hash'', hc_ignored_cm = [''note''], hc_ignored_secret = [],
     hc_exclude_ids = False, hc_per_workload = False\<rparr>"

lemma mk_cm_keys:
  "sort (cmKeys [''note''] (mk_cm [(''b'', ''2''), (''a'', ''1''), (''note'', ''x'')])) = [''s:a'', ''s:b'']"
  "sort (cmKeys [''note''] (mk_cm [(''a'', ''1''), (''b'', ''2'')])) = [''s:a'', ''s:b'']"
  by code_simp+

lemma hash_order_free_witness:
  "hashConfigSources (\<lambda>s. s) plain_cfg [mk_cm [(''b'', ''2''), (''a'', ''1'')]] [] =
   hashConfigSources (\<lambda>s. s) plain_cfg [mk_cm [(''a'', ''1''), (''b'', ''2'')]] []"
proof (rule hash_order_free)
  show "sources_ok [mk_cm [(''b'', ''2''), (''a'', ''1'')]] []" "sources_ok [mk_cm [(''a'', ''1''), (''b'', ''2'')]] []"
    by (simp_all add: sources_ok_def cm_ok_def gmap_ok_def mk_cm_def)
  show "mset (map cm_view [mk_cm [(''b'', ''2''), (''a'', ''1'')]]) = mset (map cm_view [mk_cm [(''a'', ''1''), (''b'', ''2'')]])"
    by (simp add: cm_view_def mk_cm_def fun_eq_iff)
qed simp

lemma mk_cm_fields:
  "cmFields (\<lambda>s. s) plain_cfg (mk_cm [(''b'', ''2''), (''a'', ''1''), (''note'', ''x'')]) = [''sa'', ''1'', ''sb'', ''2'']"
  "cmFields (\<lambda>s. s) plain_cfg (mk_cm [(''a'', ''1''), (''b'', ''2'')]) = [''sa'', ''1'', ''sb'', ''2'']"
  by code_simp+

lemma mk_cm_plain:
  "cm_plain (\<lambda>s. s) plain_cfg (mk_cm [(''b'', ''2''), (''a'', ''1''), (''note'', ''x'')])"
  "cm_plain (\<lambda>s. s) plain_cfg (mk_cm [(''a'', ''1''), (''b'', ''2'')])"
  unfolding cm_plain_def mk_cm_fields by (simp_all add: cm_ok_def gmap_ok_def mk_cm_def nul_free_def)

lemma hash_separates_witness:
  "\<exists>c'. c' = mk_cm [(''a'', ''1''), (''b'', ''2'')] \<and>
     cmFields (\<lambda>s. s) plain_cfg c' = cmFields (\<lambda>s. s) plain_cfg (mk_cm [(''b'', ''2''), (''a'', ''1''), (''note'', ''x'')])"
proof -
  let ?c = "mk_cm [(''b'', ''2''), (''a'', ''1''), (''note'', ''x'')]" and ?c' = "mk_cm [(''a'', ''1''), (''b'', ''2'')]"
  have keys: "cmKeys [''note''] ?c \<noteq> []" "cmKeys [''note''] ?c' \<noteq> []" by code_simp+
  have ign: "hc_ignored_cm plain_cfg = [''note'']" "hc_exclude_ids plain_cfg = False" by (simp_all add: plain_cfg_def)
  have h: "hashConfigMapContent (\<lambda>s. s) [''note''] False c = digest (enc [''sa'', ''1'', ''sb'', ''2''])"
    if "c = ?c \<or> c = ?c'" for c
    using hashConfigMapContent_fields [of "\<lambda>s. s" plain_cfg c] mk_cm_plain mk_cm_fields keys that ign by auto
  have n: "cm_name ?c = ''cfg''" "cm_name ?c' = ''cfg''" by (simp_all add: mk_cm_def)
  have E: "hashEntries (\<lambda>s. s) plain_cfg [?c] [] = hashEntries (\<lambda>s. s) plain_cfg [?c'] []"
    "hashEntries (\<lambda>s. s) plain_cfg [?c] [] \<noteq> []"
    unfolding hashEntries_def ign using h n by simp_all
  have "hashConfigSources (\<lambda>s. s) plain_cfg [?c] [] = hashConfigSources (\<lambda>s. s) plain_cfg [?c'] []"
    "hashConfigSources (\<lambda>s. s) plain_cfg [?c] [] \<noteq> []"
    unfolding hashConfigSources_def Let_def E(1) using E by simp_all
  moreover have "topFields (\<lambda>s. s) plain_cfg [?c] [] = topFields (\<lambda>s. s) plain_cfg [?c'] []"
    unfolding topFields_def E(1) by (rule refl)
  moreover have "\<forall>c \<in> set [?c] \<union> set [?c']. cm_plain (\<lambda>s. s) plain_cfg c" using mk_cm_plain by simp
  moreover have "inj_on digest ((\<lambda>c. enc (cmFields (\<lambda>s. s) plain_cfg c)) ` (set [?c] \<union> set [?c']))"
    by (simp add: mk_cm_fields)
  ultimately have "\<exists>c' \<in> set [?c']. cm_name c' = cm_name ?c \<and> cmFields (\<lambda>s. s) plain_cfg c' = cmFields (\<lambda>s. s) plain_cfg ?c"
    using hash_separates [of "[?c]" "[?c']" "\<lambda>s. s" plain_cfg "[]" "[]"] keys ign by simp
  then show ?thesis by simp
qed

definition web_workload :: workload where
  "web_workload = \<lparr>wl_name = ''web'', wl_annotations = [], wl_spec = \<lparr>ps_volumes = [], ps_init = [], ps_containers = []\<rparr>\<rparr>"

definition web_api :: hash_api where
  "web_api = \<lparr>ha_get_cm = Missing, ha_get_secret = Missing, ha_cms = Some [mk_cm [(''a'', ''1'')]], ha_secrets = Some [], ha_listed = \<lambda>_. True\<rparr>"

definition web_workloads :: workloads where
  "web_workloads = \<lparr>ws_deployments = [web_workload], ws_daemonsets = [], ws_statefulsets = [], ws_log = \<lparr>pl_sent = [], pl_refuse = []\<rparr>\<rparr>"

lemma web_reconcile:
  "listConfigSources web_api = Inr ([mk_cm [(''a'', ''1'')]], [])"
  "\<exists>s'. hashReconcile (\<lambda>s. s) plain_cfg web_api web_workloads = (None, s')"
proof -
  show src: "listConfigSources web_api = Inr ([mk_cm [(''a'', ''1'')]], [])" by (simp add: listConfigSources_def web_api_def)
  have api: "getChanged web_api = None" "ha_listed web_api = (\<lambda>_. True)" by (simp_all add: getChanged_def web_api_def)
  obtain e s' where r: "hashReconcile (\<lambda>s. s) plain_cfg web_api web_workloads = (e, s')" by fastforce
  have "e = None"
    using r by (auto simp: hashReconcile_def patchAll_def api src Let_def patchDeployments_def patchDaemonSets_def
      patchStatefulSets_def patchKind_def patchHash_def web_workloads_def split: if_splits)
  then show "\<exists>s'. hashReconcile (\<lambda>s. s) plain_cfg web_api web_workloads = (None, s')" using r by blast
qed

lemma hashReconcile_stamps_witness:
  "\<exists>s'. hashReconcile (\<lambda>s. s) plain_cfg web_api web_workloads = (None, s') \<and>
    (\<forall>w \<in> set (allWorkloads s'). let h = workloadHash (\<lambda>s. s) plain_cfg [mk_cm [(''a'', ''1'')]] [] w in
       h \<noteq> [] \<longrightarrow> gget (wl_annotations w) ''moat/hash'' = Some h)"
proof -
  obtain s' where r: "hashReconcile (\<lambda>s. s) plain_cfg web_api web_workloads = (None, s')" using web_reconcile(2) by blast
  then show ?thesis using hashReconcile_stamps [OF web_reconcile(1) r] by (simp add: plain_cfg_def)
qed

definition idsDoc :: "string \<Rightarrow> ydoc" where
  "idsDoc n = fmupd ''mode'' (YStr ''proxy'') (fmupd ''ids'' (YMap (fmupd ''max_flows'' (YNum n) (fmupd ''enabled'' (YBool True) fmempty))) fmempty)"

lemma idsDoc_cold: "cold_same (idsDoc n) (idsDoc m)"
proof -
  have "fmfilter (\<lambda>f. f \<notin> set hotReloadIdsFields) (fmupd ''max_flows'' (YNum n) (fmupd ''enabled'' (YBool True) fmempty)) =
    fmfilter (\<lambda>f. f \<notin> set hotReloadIdsFields) (fmupd ''max_flows'' (YNum m) (fmupd ''enabled'' (YBool True) fmempty))"
    by (rule fmap_ext) (simp add: hotReloadIdsFields_def)
  then have "stripRoot (idsDoc n) = stripRoot (idsDoc m)"
    unfolding fmap_eq_iff [of "stripRoot _"] fmlookup_stripRoot by (simp add: idsDoc_def cold_ids_def)
  then show ?thesis unfolding stripRoot_eq .
qed

lemma hot_reload_exact_witness:
  "\<exists>um ma. let canon = canonicalConfigSansHotReloadIds um ma; cfg = plain_cfg\<lparr>hc_exclude_ids := True\<rparr> in
     hashConfigSources canon cfg [mk_cm [(SynapseConfigKey, ''a'')]] [] = hashConfigSources canon cfg [mk_cm [(SynapseConfigKey, ''b'')]] []"
proof -
  define um where "um = (\<lambda>s. if s = ''a'' then Inr (Some (idsDoc ''1'')) else if s = ''b'' then Inr (Some (idsDoc ''2''))
    else Inr (Some (stripRoot (idsDoc ''1''))) :: string + ydoc option)"
  define ma where "ma = (\<lambda>d :: ydoc. Inr ''c'' :: string + string)"
  have s: "stripRoot (idsDoc ''2'') = stripRoot (idsDoc ''1'')" using idsDoc_cold stripRoot_eq by blast
  have p: "um ''a'' = Inr (Some (idsDoc ''1''))" "um ''b'' = Inr (Some (idsDoc ''2''))"
    and rt: "reads_back um ma (stripRoot (idsDoc ''1''))" "reads_back um ma (stripRoot (idsDoc ''2''))"
    by (simp_all add: um_def reads_back_def ma_def s)
  have m: "(mk_cm [])\<lparr>cm_data := gput SynapseConfigKey v []\<rparr> = mk_cm [(SynapseConfigKey, v)]" for v by (simp add: mk_cm_def)
  show ?thesis
    using hot_reload_exact [OF p rt, where cfg = "plain_cfg\<lparr>hc_exclude_ids := True\<rparr>" and pre = "[]" and c = "mk_cm []" and d = "[]"
        and post = "[]" and secrets = "[]"] idsDoc_cold
    unfolding m Let_def by auto
qed

section \<open>A limit of the hash\<close>

text \<open>
  The encoding of a ConfigMap is not injective when a value holds a NUL byte: the contents
  below differ and hash alike, so replacing one by the other rolls nothing.
\<close>

lemma nul_collision:
  "mk_cm [(''a'', ''1''), (''b'', ''2'')] \<noteq> mk_cm [(''a'', ''1'' @ nul @ ''sb'' @ nul @ ''2'')] \<and>
   hashConfigMapContent (\<lambda>s. s) [] False (mk_cm [(''a'', ''1''), (''b'', ''2'')]) =
   hashConfigMapContent (\<lambda>s. s) [] False (mk_cm [(''a'', ''1'' @ nul @ ''sb'' @ nul @ ''2'')])"
proof -
  have "concat (map (cmEntry (\<lambda>s. s) False (mk_cm [(''a'', ''1''), (''b'', ''2'')])) (sort (cmKeys [] (mk_cm [(''a'', ''1''), (''b'', ''2'')])))) =
    concat (map (cmEntry (\<lambda>s. s) False (mk_cm [(''a'', ''1'' @ nul @ ''sb'' @ nul @ ''2'')])) (sort (cmKeys [] (mk_cm [(''a'', ''1'' @ nul @ ''sb'' @ nul @ ''2'')]))))"
    by code_simp
  moreover have "cmKeys [] (mk_cm [(''a'', ''1''), (''b'', ''2'')]) \<noteq> []" "cmKeys [] (mk_cm [(''a'', ''1'' @ nul @ ''sb'' @ nul @ ''2'')]) \<noteq> []"
    by (simp_all add: cmKeys_def mk_cm_def shouldIgnoreKey_def)
  ultimately show ?thesis by (simp add: hashConfigMapContent_def mk_cm_def)
qed

end
