(* ===== verification/Workloads.thy ===== *)
theory Workloads
  imports Objects
begin

text \<open>
  Pods and the workloads they belong to: the naming of a workload in
  controllers/identity_producer.go (workloadIdentity, podServing, podIPs) and the static
  classification in controllers/classify.go. A Go set of names is a list that is only asked for
  membership. Times are nanoseconds since the zero time.
\<close>

section \<open>Pods\<close>

record owner_ref =
  ow_controller :: "bool option"
  ow_kind :: string
  ow_name :: string

record container_port =
  cp_name :: string
  cp_port :: int

record pod =
  pod_ns :: string
  pod_name :: string
  pod_labels :: labels
  pod_owners :: "owner_ref list"
  pod_host_network :: bool
  pod_deleting :: bool
  pod_phase :: string
  pod_conditions :: "(string \<times> string) list"
  pod_ip :: string
  pod_ips :: "string list"
  pod_start :: "int option"
  pod_ports :: "container_port list list"

text \<open>The ready condition decides; a pod without one does not serve.\<close>

definition podServing :: "pod \<Rightarrow> bool" where
  "podServing p \<longleftrightarrow> \<not> pod_deleting p \<and> pod_phase p = ''Running'' \<and>
     (case List.find (\<lambda>c. fst c = ''Ready'') (pod_conditions p) of
        None \<Rightarrow> False | Some c \<Rightarrow> snd c = ''True'')"

definition addIP :: "string list \<Rightarrow> string \<Rightarrow> string list" where
  "addIP ips raw =
     (let ip = trim_space raw in if ip = [] \<or> List.member ips ip then ips else ips @ [ip])"

definition podIPs :: "pod \<Rightarrow> string list" where
  "podIPs p = foldl addIP [] (pod_ip p # pod_ips p)"

section \<open>The workload of a pod\<close>

definition isOrdinalPod :: "string \<Rightarrow> string \<Rightarrow> bool" where
  "isOrdinalPod podName controllerName =
     (let suf = trim_prefix podName (controllerName @ ''-'') in
      if suf = podName \<or> suf = [] then False else list_all is_digit suf)"

definition hash_char :: "char \<Rightarrow> bool" where
  "hash_char c \<longleftrightarrow> 97 \<le> byte c \<and> byte c \<le> 122 \<or> is_digit c"

definition trimReplicaSetHash :: "string \<Rightarrow> string" where
  "trimReplicaSetHash name =
     (case split_last (CHR ''-'') name of
        None \<Rightarrow> name
      | Some (base, suf) \<Rightarrow>
          if base = [] \<or> length suf < 5 \<or> length suf > 10 then name
          else if \<not> list_all hash_char suf then name
          else base)"

definition ownerWorkload :: "pod \<Rightarrow> owner_ref \<Rightarrow> string" where
  "ownerWorkload p o1 =
     (if ow_kind o1 = ''ReplicaSet'' then trimReplicaSetHash (ow_name o1)
      else if isOrdinalPod (pod_name p) (ow_name o1) then pod_name p
      else ow_name o1)"

definition podApp :: "pod \<Rightarrow> string" where
  "podApp p =
     (let app = gstr (pod_labels p) ''app.kubernetes.io/name'' in
      if app = [] then gstr (pod_labels p) ''app'' else app)"

definition workloadIdentity :: "pod \<Rightarrow> string \<times> string" where
  "workloadIdentity p =
     (let app = podApp p;
          owned = (case List.find (\<lambda>o1. ow_controller o1 = Some True) (pod_owners p) of
                     None \<Rightarrow> [] | Some o1 \<Rightarrow> ownerWorkload p o1);
          workload = (if owned = [] then (if app \<noteq> [] then app else pod_name p) else owned)
      in (workload, if app = [] then workload else app))"

definition ref_of :: "string \<Rightarrow> string \<Rightarrow> string" where
  "ref_of ns name = ns @ ''/'' @ name"

section \<open>Classification\<close>

definition ingressServices :: "ingress \<Rightarrow> string list" where
  "ingressServices ing =
     (let svc = (\<lambda>b. case ib_service b of None \<Rightarrow> [] | Some s \<Rightarrow> [ref_of (ing_ns ing) (is_name s)])
      in (case ing_default_backend ing of None \<Rightarrow> [] | Some b \<Rightarrow> svc b) @
         concat (map (\<lambda>rule. case ir_http rule of None \<Rightarrow> []
                       | Some paths \<Rightarrow> concat (map (\<lambda>p. svc (ip_backend p)) paths)) (ing_rules ing)))"

definition selectorMatches :: "labels \<Rightarrow> labels \<Rightarrow> bool" where
  "selectorMatches selector ls \<longleftrightarrow> selector \<noteq> [] \<and> list_all (\<lambda>(k, v). gstr ls k = v) selector"

definition exposingSelectors :: "service list \<Rightarrow> ingress list \<Rightarrow> (string \<times> labels) list" where
  "exposingSelectors services ingresses =
     (let ingressBacked = concat (map ingressServices ingresses) in
      map (\<lambda>s. (svc_ns s, svc_selector s))
        (filter (\<lambda>s. svc_selector s \<noteq> [] \<and>
           (svc_type s = ''LoadBalancer'' \<or> svc_type s = ''NodePort'' \<or>
            List.member ingressBacked (ref_of (svc_ns s) (svc_name s)))) services))"

definition internetExposedRefs :: "pod list \<Rightarrow> service list \<Rightarrow> ingress list \<Rightarrow> string list" where
  "internetExposedRefs pods services ingresses =
     (let exposing = exposingSelectors services ingresses in
      map (\<lambda>p. ref_of (pod_ns p) (fst (workloadIdentity p)))
        (filter (\<lambda>p. fst (workloadIdentity p) \<noteq> [] \<and>
           list_ex (\<lambda>(ns, sel). ns = pod_ns p \<and> selectorMatches sel (pod_labels p)) exposing) pods))"

definition controlPlaneComponents :: "string list" where
  "controlPlaneComponents = [''etcd'', ''ccm'']"

definition isControlPlane :: "string \<Rightarrow> bool" where
  "isControlPlane workload =
     (let w = to_lower workload in
      list_ex (contains w)
        [''kube-apiserver'', ''kube-controller-manager'', ''kube-scheduler'', ''cloud-controller-manager''] \<or>
      List.member controlPlaneComponents w)"

section \<open>Naming\<close>

lemma trimReplicaSetHash_hash:
  assumes "base \<noteq> []" "5 \<le> length h" "length h \<le> 10" "list_all hash_char h"
  shows "trimReplicaSetHash (base @ CHR ''-'' # h) = base"
proof -
  have "CHR ''-'' \<notin> set h" using assms(4) by (auto simp: list_all_iff hash_char_def is_digit_def)
  then have "split_last (CHR ''-'') (base @ CHR ''-'' # h) = Some (base, h)" by (simp add: split_last_Some)
  then show ?thesis using assms by (simp add: trimReplicaSetHash_def)
qed

lemma isOrdinalPod_iff:
  "isOrdinalPod p c \<longleftrightarrow> (\<exists>ds. p = c @ CHR ''-'' # ds \<and> ds \<noteq> [] \<and> list_all is_digit ds)"
  by (auto simp: isOrdinalPod_def Let_def trim_prefix_def has_prefix_iff)

lemma workloadIdentity_owned:
  assumes "List.find (\<lambda>o1. ow_controller o1 = Some True) (pod_owners p) = Some o1" "ownerWorkload p o1 \<noteq> []"
  shows "fst (workloadIdentity p) = ownerWorkload p o1"
  using assms by (simp add: workloadIdentity_def Let_def)

text \<open>
  A pod is named by its controller. The replicas of a Deployment, whatever their
  ReplicaSets' hashes, share the Deployment's name; a pod \<^verbatim>\<open><controller>-<ordinal>\<close> of any other
  controller keeps its own name, and any other pod takes the controller's name.
\<close>

theorem workloadIdentity_names:
  assumes ctl: "List.find (\<lambda>o1. ow_controller o1 = Some True) (pod_owners p) = Some o1" and "ow_name o1 \<noteq> []"
  shows "(\<forall>base h. ow_kind o1 = ''ReplicaSet'' \<and> ow_name o1 = base @ CHR ''-'' # h \<and> base \<noteq> [] \<and>
        5 \<le> length h \<and> length h \<le> 10 \<and> list_all hash_char h \<longrightarrow> fst (workloadIdentity p) = base) \<and>
    (\<forall>ds. ow_kind o1 \<noteq> ''ReplicaSet'' \<and> pod_name p = ow_name o1 @ CHR ''-'' # ds \<and> ds \<noteq> [] \<and> list_all is_digit ds \<longrightarrow>
        fst (workloadIdentity p) = pod_name p) \<and>
    (ow_kind o1 \<noteq> ''ReplicaSet'' \<and> \<not> isOrdinalPod (pod_name p) (ow_name o1) \<longrightarrow> fst (workloadIdentity p) = ow_name o1)"
proof (intro conjI allI impI)
  fix base h
  assume "ow_kind o1 = ''ReplicaSet'' \<and> ow_name o1 = base @ CHR ''-'' # h \<and> base \<noteq> [] \<and>
        5 \<le> length h \<and> length h \<le> 10 \<and> list_all hash_char h"
  then have "ownerWorkload p o1 = base" "base \<noteq> []" by (auto simp: ownerWorkload_def intro: trimReplicaSetHash_hash)
  then show "fst (workloadIdentity p) = base" using workloadIdentity_owned [OF ctl] by simp
next
  fix ds
  assume a: "ow_kind o1 \<noteq> ''ReplicaSet'' \<and> pod_name p = ow_name o1 @ CHR ''-'' # ds \<and> ds \<noteq> [] \<and> list_all is_digit ds"
  then have "ownerWorkload p o1 = pod_name p" "pod_name p \<noteq> []" by (auto simp: ownerWorkload_def isOrdinalPod_iff)
  then show "fst (workloadIdentity p) = pod_name p" using workloadIdentity_owned [OF ctl] by simp
next
  assume "ow_kind o1 \<noteq> ''ReplicaSet'' \<and> \<not> isOrdinalPod (pod_name p) (ow_name o1)"
  then have "ownerWorkload p o1 = ow_name o1" by (simp add: ownerWorkload_def)
  then show "fst (workloadIdentity p) = ow_name o1" using workloadIdentity_owned [OF ctl] assms(2) by simp
qed

definition mk_pod :: "string \<Rightarrow> string \<Rightarrow> owner_ref list \<Rightarrow> pod" where
  "mk_pod name ip owners = \<lparr>pod_ns = ''ns'', pod_name = name, pod_labels = [], pod_owners = owners, pod_host_network = False,
     pod_deleting = False, pod_phase = ''Running'', pod_conditions = [(''Ready'', ''True'')], pod_ip = ip, pod_ips = [],
     pod_start = Some 1, pod_ports = []\<rparr>"

lemma workloadIdentity_names_witness:
  "fst (workloadIdentity (mk_pod ''web-7d9f8c6b5-x2x4z'' ''10.0.0.1''
     [\<lparr>ow_controller = Some True, ow_kind = ''ReplicaSet'', ow_name = ''web-7d9f8c6b5''\<rparr>])) = ''web''"
proof -
  let ?o = "\<lparr>ow_controller = Some True, ow_kind = ''ReplicaSet'', ow_name = ''web-7d9f8c6b5''\<rparr>"
  have "List.find (\<lambda>o1. ow_controller o1 = Some True) (pod_owners (mk_pod ''web-7d9f8c6b5-x2x4z'' ''10.0.0.1'' [?o])) = Some ?o"
    by (simp add: mk_pod_def)
  moreover have "list_all hash_char ''7d9f8c6b5''" by code_simp
  ultimately show ?thesis
    using workloadIdentity_names [of "mk_pod ''web-7d9f8c6b5-x2x4z'' ''10.0.0.1'' [?o]" ?o, THEN conjunct1, rule_format,
        of "''web''" "''7d9f8c6b5''"] by simp
qed

text \<open>The backends an Ingress names.\<close>

definition ing_backend :: "ingress \<Rightarrow> ingress_backend \<Rightarrow> bool" where
  "ing_backend ing b \<longleftrightarrow> ing_default_backend ing = Some b \<or>
     (\<exists>rule \<in> set (ing_rules ing). \<exists>paths. ir_http rule = Some paths \<and> (\<exists>p \<in> set paths. b = ip_backend p))"

definition exposes :: "ingress list \<Rightarrow> service \<Rightarrow> bool" where
  "exposes ingresses s \<longleftrightarrow> svc_type s = ''LoadBalancer'' \<or> svc_type s = ''NodePort'' \<or>
     (\<exists>ing \<in> set ingresses. \<exists>b is. ing_backend ing b \<and> ib_service b = Some is \<and>
        ref_of (ing_ns ing) (is_name is) = ref_of (svc_ns s) (svc_name s))"

lemma mem_case_option: "r \<in> set (case x of None \<Rightarrow> [] | Some y \<Rightarrow> f y) \<longleftrightarrow> (\<exists>y. x = Some y \<and> r \<in> set (f y))"
  by (cases x) simp_all

lemma ingressServices_iff:
  "r \<in> set (ingressServices ing) \<longleftrightarrow>
   (\<exists>b is. ing_backend ing b \<and> ib_service b = Some is \<and> ref_of (ing_ns ing) (is_name is) = r)"
proof -
  let ?svc = "\<lambda>b. case ib_service b of None \<Rightarrow> [] | Some s \<Rightarrow> [ref_of (ing_ns ing) (is_name s)]"
  have svc: "r \<in> set (?svc b) \<longleftrightarrow> (\<exists>is. ib_service b = Some is \<and> ref_of (ing_ns ing) (is_name is) = r)" for b
    by (cases "ib_service b") auto
  have "r \<in> set (ingressServices ing) \<longleftrightarrow> (\<exists>b. ing_backend ing b \<and> r \<in> set (?svc b))"
    unfolding ingressServices_def Let_def ing_backend_def set_append set_concat Un_iff mem_case_option set_map UN_iff bex_simps
    by blast
  then show ?thesis unfolding svc by blast
qed

text \<open>
  What a Service selects: the pods that carry every label of its selector, which is not empty.
  The code compares values only, so an entry with an empty value also accepts a pod without
  the label.
\<close>

definition serviceSelects :: "labels \<Rightarrow> labels \<Rightarrow> bool" where
  "serviceSelects sel ls \<longleftrightarrow> sel \<noteq> [] \<and> list_all (\<lambda>(k, v). gget ls k = Some v) sel"

definition labelAccepted :: "labels \<Rightarrow> string \<times> string \<Rightarrow> bool" where
  "labelAccepted ls kv \<longleftrightarrow> gget ls (fst kv) = Some (snd kv) \<or> snd kv = [] \<and> gget ls (fst kv) = None"

lemma selectorMatches_entries: "selectorMatches sel ls \<longleftrightarrow> sel \<noteq> [] \<and> list_all (labelAccepted ls) sel"
proof -
  have "gstr ls k = v \<longleftrightarrow> labelAccepted ls (k, v)" for k v
    by (cases "gget ls k") (auto simp: gstr_def labelAccepted_def)
  then show ?thesis by (simp add: selectorMatches_def case_prod_beta)
qed

lemma selectorMatches_selects:
  "list_all (\<lambda>kv. snd kv \<noteq> []) sel \<Longrightarrow> selectorMatches sel ls \<longleftrightarrow> serviceSelects sel ls"
  by (auto simp: selectorMatches_entries serviceSelects_def labelAccepted_def list_all_iff)

lemma internetExposedRefs_iff:
  "ref \<in> set (internetExposedRefs pods services ingresses) \<longleftrightarrow>
   (\<exists>p s. p \<in> set pods \<and> s \<in> set services \<and> ref = ref_of (pod_ns p) (fst (workloadIdentity p)) \<and>
      fst (workloadIdentity p) \<noteq> [] \<and> svc_ns s = pod_ns p \<and> exposes ingresses s \<and>
      selectorMatches (svc_selector s) (pod_labels p))"
proof -
  have ex: "svc_type s = ''LoadBalancer'' \<or> svc_type s = ''NodePort'' \<or>
      List.member (concat (map ingressServices ingresses)) (ref_of (svc_ns s) (svc_name s)) \<longleftrightarrow> exposes ingresses s" for s
    unfolding exposes_def by (simp add: ingressServices_iff)
  show ?thesis
    unfolding internetExposedRefs_def exposingSelectors_def Let_def ex selectorMatches_def
    by (fastforce simp: list_ex_iff)
qed

text \<open>
  Claim C34. The exposed workloads are exactly those with a pod that some exposing Service of
  its namespace selects: a LoadBalancer or NodePort Service, or one that an Ingress of the
  namespace names as a backend, with a selector that is not empty. That holds when no Service
  selects on an empty value: then "selects" is the selection of Kubernetes, the pod carries
  every label of the selector. For all Services, what the code tests of every entry of the selector
  is that the pod carries the label, or that the value is empty and the label is absent.
\<close>

theorem internetExposedRefs_exact:
  "(list_all (\<lambda>s. list_all (\<lambda>kv. snd kv \<noteq> []) (svc_selector s)) services \<longrightarrow>
    (ref \<in> set (internetExposedRefs pods services ingresses) \<longleftrightarrow>
     (\<exists>p s. p \<in> set pods \<and> s \<in> set services \<and> ref = ref_of (pod_ns p) (fst (workloadIdentity p)) \<and>
        fst (workloadIdentity p) \<noteq> [] \<and> svc_ns s = pod_ns p \<and> exposes ingresses s \<and>
        serviceSelects (svc_selector s) (pod_labels p)))) \<and>
   (ref \<in> set (internetExposedRefs pods services ingresses) \<longleftrightarrow>
     (\<exists>p s. p \<in> set pods \<and> s \<in> set services \<and> ref = ref_of (pod_ns p) (fst (workloadIdentity p)) \<and>
        fst (workloadIdentity p) \<noteq> [] \<and> svc_ns s = pod_ns p \<and> exposes ingresses s \<and>
        svc_selector s \<noteq> [] \<and> list_all (labelAccepted (pod_labels p)) (svc_selector s)))"
proof (intro conjI impI)
  assume "list_all (\<lambda>s. list_all (\<lambda>kv. snd kv \<noteq> []) (svc_selector s)) services"
  then have "s \<in> set services \<Longrightarrow> selectorMatches (svc_selector s) ls \<longleftrightarrow> serviceSelects (svc_selector s) ls" for s ls
    by (simp add: list_all_iff selectorMatches_selects)
  then show "ref \<in> set (internetExposedRefs pods services ingresses) \<longleftrightarrow>
     (\<exists>p s. p \<in> set pods \<and> s \<in> set services \<and> ref = ref_of (pod_ns p) (fst (workloadIdentity p)) \<and>
        fst (workloadIdentity p) \<noteq> [] \<and> svc_ns s = pod_ns p \<and> exposes ingresses s \<and>
        serviceSelects (svc_selector s) (pod_labels p))"
    unfolding internetExposedRefs_iff by blast
next
  show "ref \<in> set (internetExposedRefs pods services ingresses) \<longleftrightarrow>
     (\<exists>p s. p \<in> set pods \<and> s \<in> set services \<and> ref = ref_of (pod_ns p) (fst (workloadIdentity p)) \<and>
        fst (workloadIdentity p) \<noteq> [] \<and> svc_ns s = pod_ns p \<and> exposes ingresses s \<and>
        svc_selector s \<noteq> [] \<and> list_all (labelAccepted (pod_labels p)) (svc_selector s))"
    unfolding internetExposedRefs_iff selectorMatches_entries by blast
qed

definition nodePort :: service where
  "nodePort = \<lparr>svc_ns = ''ns'', svc_name = ''web'', svc_type = ''NodePort'', svc_cluster_ip = [], svc_ports = [],
     svc_selector = [(''app'', ''web'')], svc_lb_ingress_ips = [], svc_external_ips = [], svc_lb_ip = []\<rparr>"

lemma internetExposedRefs_exact_witness:
  "''ns/web'' \<in> set (internetExposedRefs [mk_pod ''web'' ''10.0.0.1'' []\<lparr>pod_labels := [(''app'', ''web'')]\<rparr>] [nodePort] [])"
proof -
  let ?p = "mk_pod ''web'' ''10.0.0.1'' []\<lparr>pod_labels := [(''app'', ''web'')]\<rparr>"
  have p: "ref_of (pod_ns ?p) (fst (workloadIdentity ?p)) = ''ns/web''" "fst (workloadIdentity ?p) = ''web''"
    "svc_ns nodePort = pod_ns ?p" "serviceSelects (svc_selector nodePort) (pod_labels ?p)"
    "list_all (\<lambda>s. list_all (\<lambda>kv. snd kv \<noteq> []) (svc_selector s)) [nodePort]"
    by code_simp+
  have "exposes [] nodePort" by (simp add: exposes_def nodePort_def)
  then show ?thesis
    using internetExposedRefs_exact [of "[nodePort]" "''ns/web''" "[?p]" "[]", THEN conjunct1, THEN mp, OF p(5)] p(1-4)
    by (metis list.set_intros(1) list.distinct(1))
qed

section \<open>Limits of the naming\<close>

text \<open>
  A random suffix of digits looks like an ordinal: such a pod of a DaemonSet is a workload of
  its own. A name part of five to ten lower-case letters looks like a hash, so a ReplicaSet
  that no Deployment made loses it. A label that is absent matches an empty selector value.
\<close>

lemma daemonset_pod_ordinal:
  "fst (workloadIdentity (mk_pod ''agent-24567'' ''10.0.0.1'' [\<lparr>ow_controller = Some True, ow_kind = ''DaemonSet'', ow_name = ''agent''\<rparr>]))
     = ''agent-24567''"
  by code_simp

lemma trim_meaningful: "trimReplicaSetHash ''shop-redis'' = ''shop''"
  by code_simp

lemma selector_matches_absent: "selectorMatches [(''tier'', [])] [(''app'', ''web'')]"
  by code_simp

end
