(* ===== verification/Producer.thy ===== *)
theory Producer
  imports GoStrings
begin

text \<open>
  What the two producers of controllers/ (identity_producer.go, edge_producer.go) share: requests
  to the download-api, the delta flush, the baseline refresh and the event loop of \<^verbatim>\<open>Start\<close>. The
  producers differ in the index they keep and in its diff; the contract of a diff is the locale
  \<open>delta_source\<close>, in which the following of the agents is proved once. An HTTP exchange ends in
  an error (\<open>None\<close>) or a status code.
\<close>

section \<open>Requests\<close>

record endpoint_cfg =
  ec_url :: string
  ec_key :: string
  ec_cluster :: string

record 'b request =
  rq_method :: string
  rq_url :: string
  rq_headers :: "(string \<times> string) list"
  rq_body :: 'b

definition clusterQuery :: "string \<Rightarrow> string \<Rightarrow> string" where
  "clusterQuery sep clusterID = (if clusterID = [] then [] else sep @ ''cluster='' @ clusterID)"

definition auth_header :: "endpoint_cfg \<Rightarrow> (string \<times> string) list" where
  "auth_header cfg = (if ec_key cfg = [] then [] else [(''Authorization'', ''Bearer '' @ ec_key cfg)])"

definition deltaRequest :: "string \<Rightarrow> endpoint_cfg \<Rightarrow> 'b \<Rightarrow> 'b request" where
  "deltaRequest path cfg body =
     \<lparr>rq_method = ''POST'', rq_url = trim_suffix (ec_url cfg) ''/'' @ path,
      rq_headers = (''Content-Type'', ''application/json'') # auth_header cfg, rq_body = body\<rparr>"

definition uploadRequest :: "string \<Rightarrow> string \<Rightarrow> endpoint_cfg \<Rightarrow> string \<Rightarrow> 'b \<Rightarrow> 'b request" where
  "uploadRequest path ctype cfg version body =
     \<lparr>rq_method = ''PUT'',
      rq_url = trim_suffix (ec_url cfg) ''/'' @ path @ ''?version='' @ version @ clusterQuery ''&'' (ec_cluster cfg),
      rq_headers = (''Content-Type'', ctype) # auth_header cfg, rq_body = body\<rparr>"

definition accepted :: "int option \<Rightarrow> bool" where
  "accepted resp = (case resp of None \<Rightarrow> False | Some status \<Rightarrow> status div 100 = 2)"

section \<open>State\<close>

text \<open>
  The index is the diff base. The requests that were accepted are kept in order: deltas with
  their sequence number, uploads with their version.
\<close>

record ('i, 'd, 'u) producer =
  pr_seq :: "64 word"
  pr_index :: 'i
  pr_version :: string
  pr_deltas :: "(64 word \<times> 'd) list"
  pr_uploads :: "(string \<times> 'u) list"

text \<open>
  \<^verbatim>\<open>flushDelta\<close>: \<open>listed\<close> is the index of the current listing, or an error; \<open>resp\<close> answers the
  POST. Index and sequence number move only with an accepted delta.
\<close>

definition flushWith ::
  "('i \<Rightarrow> 'i \<Rightarrow> 'd option) \<Rightarrow> 'i option \<Rightarrow> int option \<Rightarrow> ('i, 'd, 'u) producer \<Rightarrow> ('i, 'd, 'u) producer" where
  "flushWith diff listed resp p =
     (case listed of
        None \<Rightarrow> p
      | Some new \<Rightarrow>
          (case diff (pr_index p) new of
             None \<Rightarrow> p
           | Some d \<Rightarrow>
               let n = pr_seq p + 1 in
               if accepted resp
               then p\<lparr>pr_seq := n, pr_index := new, pr_deltas := pr_deltas p @ [(n, d)]\<rparr>
               else p))"

text \<open>
  The upload of a baseline whose version is new; \<open>content\<close> is an error when it cannot be built.
\<close>

definition uploadNew ::
  "string \<Rightarrow> string + 'u \<Rightarrow> int option \<Rightarrow> ('i, 'd, 'u) producer \<Rightarrow> ('i, 'd, 'u) producer" where
  "uploadNew version content resp p =
     (if version = pr_version p then p
      else case content of
        Inl _ \<Rightarrow> p
      | Inr u \<Rightarrow> if accepted resp then p\<lparr>pr_version := version, pr_uploads := pr_uploads p @ [(version, u)]\<rparr> else p)"

section \<open>The event loop\<close>

text \<open>
  The world is what the informer cache lists. A change fills the one-element channel \<open>dirty\<close>;
  the loop takes it and arms the debounce timer unless it is armed; the timer flushes; the
  ticker refreshes the baseline. \<open>Fire\<close> and \<open>Tick\<close> carry whether the listing works and the
  response. A step that is not enabled is \<open>None\<close>.
\<close>

record ('w, 'i, 'd, 'u) loop =
  lp_world :: 'w
  lp_dirty :: bool
  lp_armed :: bool
  lp_prod :: "('i, 'd, 'u) producer"

datatype 'w event = Change 'w | TakeDirty | Fire bool "int option" | Tick bool "int option"

type_synonym ('w, 'i, 'd, 'u) baseline = "'w option \<Rightarrow> int option \<Rightarrow> ('i, 'd, 'u) producer \<Rightarrow> ('i, 'd, 'u) producer"

fun loopStep ::
  "('w \<Rightarrow> 'i) \<Rightarrow> ('i \<Rightarrow> 'i \<Rightarrow> 'd option) \<Rightarrow> ('w, 'i, 'd, 'u) baseline \<Rightarrow> 'w event \<Rightarrow> ('w, 'i, 'd, 'u) loop
    \<Rightarrow> ('w, 'i, 'd, 'u) loop option" where
  "loopStep compute diff baseline (Change w) l = Some (l\<lparr>lp_world := w, lp_dirty := True\<rparr>)"
| "loopStep compute diff baseline TakeDirty l =
     (if lp_dirty l then Some (l\<lparr>lp_dirty := False, lp_armed := True\<rparr>) else None)"
| "loopStep compute diff baseline (Fire ok resp) l =
     (if lp_armed l then
        Some (l\<lparr>lp_armed := False,
                lp_prod := flushWith diff (if ok then Some (compute (lp_world l)) else None) resp (lp_prod l)\<rparr>)
      else None)"
| "loopStep compute diff baseline (Tick ok resp) l =
     Some (l\<lparr>lp_prod := baseline (if ok then Some (lp_world l) else None) resp (lp_prod l)\<rparr>)"

fun loopRun ::
  "('w \<Rightarrow> 'i) \<Rightarrow> ('i \<Rightarrow> 'i \<Rightarrow> 'd option) \<Rightarrow> ('w, 'i, 'd, 'u) baseline \<Rightarrow> 'w event list \<Rightarrow> ('w, 'i, 'd, 'u) loop
    \<Rightarrow> ('w, 'i, 'd, 'u) loop option" where
  "loopRun compute diff baseline [] l = Some l"
| "loopRun compute diff baseline (e # es) l =
     (case loopStep compute diff baseline e l of
        None \<Rightarrow> None
      | Some l1 \<Rightarrow> loopRun compute diff baseline es l1)"

section \<open>Agents that follow the deltas\<close>

fun is_tick :: "'w event \<Rightarrow> bool" where
  "is_tick (Tick _ _) = True"
| "is_tick _ = False"

fun lost :: "'w event \<Rightarrow> bool" where
  "lost (Fire ok resp) = (\<not> ok \<or> \<not> accepted resp)"
| "lost _ = False"

definition worlds :: "'w event list \<Rightarrow> 'w set" where
  "worlds es = {w. Change w \<in> set es}"

lemma worlds_Cons: "worlds (Change w # es) = insert w (worlds es)" "\<forall>w. e \<noteq> Change w \<Longrightarrow> worlds (e # es) = worlds es"
  by (auto simp: worlds_def)

text \<open>Sequence numbers without a gap, from the one after \<open>n\<close>.\<close>

fun consecutive :: "64 word \<Rightarrow> (64 word \<times> 'd) list \<Rightarrow> bool" where
  "consecutive n [] = True"
| "consecutive n ((m, d) # ds) = (m = n + 1 \<and> consecutive m ds)"

lemma consecutive_append: "consecutive n (ds @ es) \<longleftrightarrow> consecutive n ds \<and> consecutive (n + of_nat (length ds)) es"
  by (induction ds arbitrary: n) (auto simp: algebra_simps)

definition follow :: "('d \<Rightarrow> 't \<Rightarrow> 't) \<Rightarrow> 't \<Rightarrow> (64 word \<times> 'd) list \<Rightarrow> 't" where
  "follow apply_delta t ds = foldl (\<lambda>t d. apply_delta (snd d) t) t ds"

lemma follow_simps: "follow ap t [] = t" "follow ap t (d # ds) = follow ap (ap (snd d) t) ds"
  "follow ap t (ds @ es) = follow ap (follow ap t ds) es"
  by (simp_all add: follow_def)

text \<open>Between two ticks nothing is uploaded but deltas.\<close>

lemma flushWith_uploads: "pr_uploads (flushWith diff listed resp p) = pr_uploads p"
  by (simp add: flushWith_def Let_def split: option.split)

lemma loopStep_uploads:
  "loopStep compute diff baseline e l = Some l' \<Longrightarrow> \<not> is_tick e \<Longrightarrow> pr_uploads (lp_prod l') = pr_uploads (lp_prod l)"
  by (cases e) (auto simp: flushWith_uploads split: if_splits)

lemma loopRun_uploads:
  "loopRun compute diff baseline es l = Some l' \<Longrightarrow> list_all (\<lambda>e. \<not> is_tick e) es \<Longrightarrow>
   pr_uploads (lp_prod l') = pr_uploads (lp_prod l)"
proof (induction es arbitrary: l)
  case (Cons e es)
  then obtain l1 where "loopStep compute diff baseline e l = Some l1" "loopRun compute diff baseline es l1 = Some l'"
    by (auto split: option.splits)
  then show ?case using Cons.IH [of l1] Cons.prems(2) loopStep_uploads [of compute diff baseline e l l1] by simp
qed simp

locale delta_source =
  fixes table :: "'i \<Rightarrow> 't"
    and diff :: "'i \<Rightarrow> 'i \<Rightarrow> 'd option"
    and apply_delta :: "'d \<Rightarrow> 't \<Rightarrow> 't"
    and sound :: "'i \<Rightarrow> bool"
  assumes diff_some: "sound i \<Longrightarrow> sound j \<Longrightarrow> diff i j = Some d \<Longrightarrow> apply_delta d (table i) = table j"
    and diff_none: "sound i \<Longrightarrow> sound j \<Longrightarrow> diff i j = None \<Longrightarrow> table i = table j"
begin

text \<open>\<open>l'\<close> extends \<open>l\<close> by deltas that bring an agent from the one table to the other.\<close>

definition extends :: "('i, 'd, 'u) producer \<Rightarrow> ('i, 'd, 'u) producer \<Rightarrow> bool" where
  "extends p p' \<longleftrightarrow> (\<exists>ds. pr_deltas p' = pr_deltas p @ ds \<and> consecutive (pr_seq p) ds \<and>
     pr_seq p' = pr_seq p + of_nat (length ds) \<and>
     follow apply_delta (table (pr_index p)) ds = table (pr_index p'))"

lemma extends_refl: "extends p p"
  by (simp add: extends_def follow_simps)

lemma extends_trans: "extends p q \<Longrightarrow> extends q r \<Longrightarrow> extends p r"
  unfolding extends_def
  by (elim exE, rename_tac ds es, rule_tac x = "ds @ es" in exI) (simp add: follow_simps consecutive_append)

text \<open>One flush: an agent that had the old table has the new one, or nothing was sent.\<close>

lemma flush_follows:
  assumes i: "sound (pr_index p)" and l: "\<And>j. listed = Some j \<Longrightarrow> sound j"
    and f: "p' = flushWith diff listed resp p"
  shows "extends p p' \<and> sound (pr_index p') \<and>
    (\<forall>j. listed = Some j \<and> accepted resp \<longrightarrow> table (pr_index p') = table j)"
proof (cases "listed \<noteq> None \<and> diff (pr_index p) (the listed) \<noteq> None \<and> accepted resp")
  case True
  then obtain j d where j: "listed = Some j" "diff (pr_index p) j = Some d" by auto
  then have f: "p' = p\<lparr>pr_seq := pr_seq p + 1, pr_index := j, pr_deltas := pr_deltas p @ [(pr_seq p + 1, d)]\<rparr>"
    using True f by (simp add: flushWith_def Let_def)
  have "apply_delta d (table (pr_index p)) = table j" using diff_some [OF i l [OF j(1)] j(2)] .
  then have "extends p p'" unfolding extends_def f by (auto simp: follow_simps)
  then show ?thesis using f j l by simp
next
  case False
  then have "p' = p" using f by (auto simp: flushWith_def Let_def split: option.splits)
  then show ?thesis using False i l diff_none [OF i] by (auto simp: extends_refl)
qed

definition settled :: "('w \<Rightarrow> 'i) \<Rightarrow> ('w, 'i, 'd, 'u) loop \<Rightarrow> bool" where
  "settled compute l \<longleftrightarrow> lp_dirty l \<or> lp_armed l \<or> table (pr_index (lp_prod l)) = table (compute (lp_world l))"

lemma step_follows:
  assumes step: "loopStep compute diff baseline e l = Some l'" and e: "\<not> is_tick e"
    and i: "sound (pr_index (lp_prod l))" and w: "sound (compute (lp_world l))"
  shows "extends (lp_prod l) (lp_prod l') \<and> sound (pr_index (lp_prod l')) \<and>
    (settled compute l \<and> \<not> lost e \<longrightarrow> settled compute l')"
proof (cases e)
  case (Fire ok resp)
  then have l': "lp_armed l" "l' = l\<lparr>lp_armed := False,
      lp_prod := flushWith diff (if ok then Some (compute (lp_world l)) else None) resp (lp_prod l)\<rparr>"
    using step by (auto split: if_splits)
  have "extends (lp_prod l) (lp_prod l') \<and> sound (pr_index (lp_prod l')) \<and>
    (\<forall>j. (if ok then Some (compute (lp_world l)) else None) = Some j \<and> accepted resp \<longrightarrow>
       table (pr_index (lp_prod l')) = table j)"
    using flush_follows [OF i, of "if ok then Some (compute (lp_world l)) else None"] w l'(2) by (auto split: if_splits)
  then show ?thesis using Fire l'(2) by (auto simp: settled_def)
qed (use step e i in \<open>auto simp: settled_def extends_refl split: if_splits\<close>)

lemma run_follows:
  assumes "loopRun compute diff baseline es l = Some l'" "list_all (\<lambda>e. \<not> is_tick e) es"
    "sound (pr_index (lp_prod l))" "\<forall>w \<in> insert (lp_world l) (worlds es). sound (compute w)"
  shows "extends (lp_prod l) (lp_prod l') \<and>
    (settled compute l \<and> list_all (\<lambda>e. \<not> lost e) es \<longrightarrow> settled compute l')"
  using assms
proof (induction es arbitrary: l)
  case (Cons e es)
  obtain l1 where l1: "loopStep compute diff baseline e l = Some l1" "loopRun compute diff baseline es l1 = Some l'"
    using Cons.prems(1) by (auto split: option.splits)
  have s: "extends (lp_prod l) (lp_prod l1) \<and> sound (pr_index (lp_prod l1)) \<and>
    (settled compute l \<and> \<not> lost e \<longrightarrow> settled compute l1)"
    using Cons.prems by (intro step_follows [OF l1(1)]) simp_all
  have "lp_world l1 \<in> insert (lp_world l) (worlds (e # es))" "worlds es \<subseteq> worlds (e # es)"
    using l1(1) by (cases e; auto simp: worlds_def split: if_splits)+
  then have w: "\<forall>w \<in> insert (lp_world l1) (worlds es). sound (compute w)" using Cons.prems(4) by blast
  have "extends (lp_prod l1) (lp_prod l') \<and> (settled compute l1 \<and> list_all (\<lambda>e. \<not> lost e) es \<longrightarrow> settled compute l')"
    using Cons.IH [OF l1(2)] Cons.prems(2) s w by simp
  then show ?case using s extends_trans by auto
qed (simp add: extends_refl)

text \<open>A change is never forgotten: two enabled steps later the current table is out.\<close>

lemma catches_up:
  assumes "lp_dirty l \<or> lp_armed l" "sound (pr_index (lp_prod l))" "sound (compute (lp_world l))" "accepted resp"
  shows "\<exists>es l'. set es \<subseteq> {TakeDirty, Fire True resp} \<and> length es \<le> 2 \<and> loopRun compute diff baseline es l = Some l' \<and>
    extends (lp_prod l) (lp_prod l') \<and> lp_world l' = lp_world l \<and>
    \<not> lp_dirty l' \<and> \<not> lp_armed l' \<and> table (pr_index (lp_prod l')) = table (compute (lp_world l))"
proof -
  let ?p = "flushWith diff (Some (compute (lp_world l))) resp (lp_prod l)"
  have f: "extends (lp_prod l) ?p \<and> table (pr_index ?p) = table (compute (lp_world l))"
    using flush_follows [OF assms(2), of "Some (compute (lp_world l))" ?p resp] assms(3,4) by simp
  show ?thesis
  proof (cases "lp_dirty l")
    case True
    then show ?thesis using f by (intro exI [of _ "[TakeDirty, Fire True resp]"] exI [of _ "l\<lparr>lp_dirty := False, lp_armed := False, lp_prod := ?p\<rparr>"]) simp
  next
    case False
    then show ?thesis using f assms(1) by (intro exI [of _ "[Fire True resp]"] exI [of _ "l\<lparr>lp_armed := False, lp_prod := ?p\<rparr>"]) simp
  qed
qed

end

end
