(* ===== verification/Identity.thy ===== *)
theory Identity
  imports Workloads Producer NetAddr Sha256
begin

text \<open>
  controllers/identity_producer.go: the table of pod addresses and workloads, the deltas that
  carry its changes to the agents and the MMDB baseline. The API lists are snapshots; the MMDB
  writer (\<^verbatim>\<open>maxmind/mmdbwriter\<close>) is outside the repository and a parameter.
\<close>

section \<open>Entries\<close>

record identity_entry =
  ie_ip :: string
  ie_workload :: string
  ie_namespace :: string
  ie_app :: string
  ie_exposed :: bool
  ie_control_plane :: bool
  ie_labels :: labels

type_synonym identity_index = "(string, identity_entry) gmap"

definition churnLabels :: "string list" where
  "churnLabels =
     [''pod-template-hash'', ''controller-revision-hash'', ''pod-template-generation'',
      ''statefulset.kubernetes.io/pod-name'', ''apps.kubernetes.io/pod-index'', ''controller-uid'',
      ''batch.kubernetes.io/controller-uid'', ''batch.kubernetes.io/job-name'', ''job-name'']"

definition filterLabels :: "labels \<Rightarrow> labels" where
  "filterLabels ls = filter (\<lambda>(k, v). \<not> List.member churnLabels k) ls"

definition equalTo :: "identity_entry \<Rightarrow> identity_entry \<Rightarrow> bool" where
  "equalTo e o1 =
     (if ie_ip e \<noteq> ie_ip o1 \<or> ie_workload e \<noteq> ie_workload o1 \<or> ie_namespace e \<noteq> ie_namespace o1 \<or> ie_app e \<noteq> ie_app o1 then False
      else if ie_exposed e \<noteq> ie_exposed o1 \<or> ie_control_plane e \<noteq> ie_control_plane o1 then False
      else if length (ie_labels e) \<noteq> length (ie_labels o1) then False
      else list_all (\<lambda>(k, v). gstr (ie_labels o1) k = v) (ie_labels e))"

section \<open>Resolution\<close>

definition startTime :: "pod \<Rightarrow> int" where
  "startTime p = (case pod_start p of None \<Rightarrow> 0 | Some t \<Rightarrow> t)"

definition podEntry :: "pod \<Rightarrow> string \<Rightarrow> identity_entry" where
  "podEntry p ip =
     \<lparr>ie_ip = ip, ie_workload = fst (workloadIdentity p), ie_namespace = pod_ns p, ie_app = snd (workloadIdentity p),
      ie_exposed = False, ie_control_plane = False, ie_labels = filterLabels (pod_labels p)\<rparr>"

text \<open>The tables \<^verbatim>\<open>byIP\<close> and \<^verbatim>\<open>start\<close>.\<close>

type_synonym owners = "identity_index \<times> (string, int) gmap"

definition claimIP :: "pod \<Rightarrow> owners \<Rightarrow> string \<Rightarrow> owners" where
  "claimIP p st ip =
     (case gget (snd st) ip of
        Some prev \<Rightarrow> if \<not> startTime p > prev then st else (gput ip (podEntry p ip) (fst st), gput ip (startTime p) (snd st))
      | None \<Rightarrow> (gput ip (podEntry p ip) (fst st), gput ip (startTime p) (snd st)))"

definition claimPod :: "owners \<Rightarrow> pod \<Rightarrow> owners" where
  "claimPod st p =
     (if pod_host_network p then st
      else if \<not> podServing p then st
      else if fst (workloadIdentity p) = [] then st
      else foldl (claimIP p) st (podIPs p))"

definition resolveIdentityEntries :: "pod list \<Rightarrow> identity_entry list" where
  "resolveIdentityEntries pods = map snd (fst (foldl claimPod ([], []) pods))"

definition indexEntries :: "identity_entry list \<Rightarrow> identity_index" where
  "indexEntries entries = foldl (\<lambda>m e. gput (ie_ip e) e m) [] entries"

section \<open>Deltas\<close>

text \<open>The wire format of an entry and of a delta.\<close>

record wire_entry =
  we_ip :: string
  we_workload :: string
  we_namespace :: string
  we_app :: string
  we_labels :: labels

record identity_delta =
  id_upserts :: "wire_entry list"
  id_removes :: "string list"

definition wireEntry :: "identity_entry \<Rightarrow> wire_entry" where
  "wireEntry e = \<lparr>we_ip = ie_ip e, we_workload = ie_workload e, we_namespace = ie_namespace e, we_app = ie_app e,
                  we_labels = ie_labels e\<rparr>"

definition identityChanges :: "identity_index \<Rightarrow> identity_index \<Rightarrow> identity_delta" where
  "identityChanges old new =
     \<lparr>id_upserts = map (\<lambda>(ip, e). wireEntry e)
        (filter (\<lambda>(ip, e). case gget old ip of None \<Rightarrow> True | Some prev \<Rightarrow> \<not> equalTo prev e) new),
      id_removes = filter (\<lambda>ip. \<not> ghas new ip) (gkeys old)\<rparr>"

definition identityDiff :: "identity_index \<Rightarrow> identity_index \<Rightarrow> identity_delta option" where
  "identityDiff old new =
     (let d = identityChanges old new in if id_upserts d = [] \<and> id_removes d = [] then None else Some d)"

text \<open>The lists of the cluster; \<open>None\<close> is an error of the listing.\<close>

record identity_world =
  iw_pods :: "pod list"
  iw_services :: "service list option"
  iw_ingresses :: "ingress list option"

type_synonym 'u identity_producer = "(identity_index, identity_delta, 'u) producer"

definition identityIndex :: "identity_world \<Rightarrow> identity_index" where
  "identityIndex w = indexEntries (resolveIdentityEntries (iw_pods w))"

definition flushDelta :: "identity_world option \<Rightarrow> int option \<Rightarrow> 'u identity_producer \<Rightarrow> 'u identity_producer" where
  "flushDelta w resp p = flushWith identityDiff (map_option identityIndex w) resp p"

definition postDelta :: "endpoint_cfg \<Rightarrow> identity_delta \<Rightarrow> identity_delta request" where
  "postDelta = deltaRequest ''/identity/delta''"

section \<open>The baseline\<close>

definition classify :: "identity_world \<Rightarrow> identity_entry \<Rightarrow> identity_entry" where
  "classify w e =
     (let exposed = internetExposedRefs (iw_pods w)
            (case iw_services w of None \<Rightarrow> [] | Some s \<Rightarrow> s) (case iw_ingresses w of None \<Rightarrow> [] | Some i \<Rightarrow> i)
      in e\<lparr>ie_exposed := List.member exposed (ref_of (ie_namespace e) (ie_workload e)),
           ie_control_plane := isControlPlane (ie_workload e)\<rparr>)"

definition versionRow :: "identity_entry \<Rightarrow> string" where
  "versionRow e = join ''|'' [ie_ip e, ie_namespace e, ie_workload e, ie_app e, show_bool (ie_exposed e), show_bool (ie_control_plane e)]"

definition identityVersion :: "identity_entry list \<Rightarrow> string" where
  "identityVersion entries = ''id-'' @ take 16 (digest (join nl (sort (map versionRow entries))))"

text \<open>A network and its record; an entry whose address does not parse has none.\<close>

record mmdb_record =
  mr_workload :: string
  mr_namespace :: string
  mr_app :: string
  mr_exposed :: bool
  mr_control_plane :: bool
  mr_labels :: "labels option"

definition mmdbRow :: "identity_entry \<Rightarrow> ((int list \<times> int) \<times> mmdb_record) option" where
  "mmdbRow e =
     (case ParseIP (ie_ip e) of
        None \<Rightarrow> None
      | Some ip \<Rightarrow>
          Some (case To4 ip of Some v4 \<Rightarrow> (v4, 32) | None \<Rightarrow> (ip, 128),
            \<lparr>mr_workload = ie_workload e, mr_namespace = ie_namespace e, mr_app = ie_app e,
             mr_exposed = ie_exposed e, mr_control_plane = ie_control_plane e,
             mr_labels = if ie_labels e = [] then None else Some (ie_labels e)\<rparr>))"

record 'w mmdb_writer =
  mw_new :: "string + 'w"
  mw_insert :: "'w \<Rightarrow> int list \<times> int \<Rightarrow> mmdb_record \<Rightarrow> string + 'w"
  mw_bytes :: "'w \<Rightarrow> string + string"

fun insertRows :: "'w mmdb_writer \<Rightarrow> identity_entry list \<Rightarrow> 'w \<Rightarrow> string + 'w" where
  "insertRows mw [] t = Inr t"
| "insertRows mw (e # es) t =
     (case mmdbRow e of
        None \<Rightarrow> insertRows mw es t
      | Some (net, rec) \<Rightarrow>
          (case mw_insert mw t net rec of
             Inl x \<Rightarrow> Inl (''insert '' @ ie_ip e @ '': '' @ x)
           | Inr t1 \<Rightarrow> insertRows mw es t1))"

definition buildIdentityMMDB :: "'w mmdb_writer \<Rightarrow> identity_entry list \<Rightarrow> string + string" where
  "buildIdentityMMDB mw entries =
     (case mw_new mw of
        Inl x \<Rightarrow> Inl (''create mmdb writer: '' @ x)
      | Inr t \<Rightarrow>
          (case insertRows mw entries t of
             Inl x \<Rightarrow> Inl x
           | Inr t1 \<Rightarrow> (case mw_bytes mw t1 of Inl x \<Rightarrow> Inl (''write mmdb: '' @ x) | Inr b \<Rightarrow> Inr b)))"

definition buildAndUpload :: "'w mmdb_writer \<Rightarrow> identity_world option \<Rightarrow> int option \<Rightarrow> string identity_producer \<Rightarrow> string identity_producer" where
  "buildAndUpload mw listed resp p =
     (case listed of
        None \<Rightarrow> p
      | Some w \<Rightarrow>
          let entries = resolveIdentityEntries (iw_pods w); p1 = p\<lparr>pr_index := indexEntries entries\<rparr> in
          if entries = [] then p1
          else let classified = map (classify w) entries
               in uploadNew (identityVersion classified) (buildIdentityMMDB mw classified) resp p1)"

definition upload :: "endpoint_cfg \<Rightarrow> string \<Rightarrow> string \<Rightarrow> string request" where
  "upload = uploadRequest ''/identity/upload'' ''application/octet-stream''"

section \<open>The loop\<close>

definition identityRun ::
  "'w mmdb_writer \<Rightarrow> identity_world event list \<Rightarrow> (identity_world, identity_index, identity_delta, string) loop
    \<Rightarrow> (identity_world, identity_index, identity_delta, string) loop option" where
  "identityRun mw = loopRun identityIndex identityDiff (buildAndUpload mw)"

text \<open>\<^verbatim>\<open>Start\<close>: no index yet, and the first baseline.\<close>

definition identityStart ::
  "'w mmdb_writer \<Rightarrow> bool \<Rightarrow> int option \<Rightarrow> identity_world \<Rightarrow> (identity_world, identity_index, identity_delta, string) loop" where
  "identityStart mw ok resp w =
     \<lparr>lp_world = w, lp_dirty = False, lp_armed = False,
      lp_prod = buildAndUpload mw (if ok then Some w else None) resp
        \<lparr>pr_seq = 0, pr_index = [], pr_version = [], pr_deltas = [], pr_uploads = []\<rparr>\<rparr>"


section \<open>Who owns an address\<close>

definition claims :: "pod \<Rightarrow> string \<Rightarrow> bool" where
  "claims p ip \<longleftrightarrow> \<not> pod_host_network p \<and> \<not> pod_deleting p \<and> pod_phase p = ''Running'' \<and>
     gget (pod_conditions p) ''Ready'' = Some ''True'' \<and> fst (workloadIdentity p) \<noteq> [] \<and> ip \<in> set (podIPs p)"

lemma find_gget: "List.find (\<lambda>c. fst c = k) m = map_option (Pair k) (gget m k)"
  by (induction m) auto

lemma claims_serving:
  "claims p ip \<longleftrightarrow> \<not> pod_host_network p \<and> podServing p \<and> fst (workloadIdentity p) \<noteq> [] \<and> ip \<in> set (podIPs p)"
  unfolding claims_def podServing_def find_gget by (auto split: option.splits)

text \<open>The owner as the listing is read: a pod takes an address from an earlier start only.\<close>

definition newer :: "pod option \<Rightarrow> pod \<Rightarrow> bool" where
  "newer o1 p \<longleftrightarrow> (case o1 of None \<Rightarrow> True | Some q \<Rightarrow> startTime p > startTime q)"

definition owner :: "pod list \<Rightarrow> string \<Rightarrow> pod option" where
  "owner pods ip = foldl (\<lambda>o1 p. if claims p ip \<and> newer o1 p then Some p else o1) None pods"

definition owned :: "owners \<Rightarrow> (string \<Rightarrow> pod option) \<Rightarrow> bool" where
  "owned st own \<longleftrightarrow> gmap_ok (fst st) \<and> list_all (\<lambda>(ip, e). ie_ip e = ip) (fst st) \<and>
     (\<forall>ip. gget (fst st) ip = map_option (\<lambda>p. podEntry p ip) (own ip) \<and> gget (snd st) ip = map_option startTime (own ip))"

lemma claimIP_owned:
  assumes "owned st own"
  shows "owned (claimIP p st ip) (own(ip := if newer (own ip) p then Some p else own ip))"
proof -
  have v: "list_all (\<lambda>(ip, e). ie_ip e = ip) (gput ip (podEntry p ip) (fst st))"
    using assms by (auto simp: owned_def list_all_iff podEntry_def dest: gput_values)
  show ?thesis
    using assms v by (cases "own ip") (auto simp: owned_def claimIP_def newer_def gmap_simps)
qed

lemma claimIPs_owned:
  "owned st own \<Longrightarrow> owned (foldl (claimIP p) st ips) (\<lambda>ip. if ip \<in> set ips \<and> newer (own ip) p then Some p else own ip)"
proof (induction ips arbitrary: st own)
  case (Cons i ips)
  have "owned (foldl (claimIP p) (claimIP p st i) ips)
    (\<lambda>ip. if ip \<in> set ips \<and> newer ((own(i := if newer (own i) p then Some p else own i)) ip) p then Some p
          else (own(i := if newer (own i) p then Some p else own i)) ip)"
    by (rule Cons.IH [OF claimIP_owned [OF Cons.prems]])
  moreover have "(\<lambda>ip. if ip \<in> set ips \<and> newer ((own(i := if newer (own i) p then Some p else own i)) ip) p then Some p
          else (own(i := if newer (own i) p then Some p else own i)) ip) =
    (\<lambda>ip. if ip \<in> set (i # ips) \<and> newer (own ip) p then Some p else own ip)"
    by (auto simp: fun_eq_iff)
  ultimately show ?case by (simp only: foldl_Cons)
qed simp

lemma claimPod_owned:
  assumes "owned st own"
  shows "owned (claimPod st p) (\<lambda>ip. if claims p ip \<and> newer (own ip) p then Some p else own ip)"
proof (cases "pod_host_network p \<or> \<not> podServing p \<or> fst (workloadIdentity p) = []")
  case True
  then have "claimPod st p = st" "\<And>ip. \<not> claims p ip" by (auto simp: claimPod_def claims_serving)
  then show ?thesis using assms by simp
next
  case False
  then have "claimPod st p = foldl (claimIP p) st (podIPs p)" "\<And>ip. claims p ip \<longleftrightarrow> ip \<in> set (podIPs p)"
    by (auto simp: claimPod_def claims_serving)
  then show ?thesis using claimIPs_owned [OF assms] by simp
qed

lemma owner_snoc: "owner (xs @ [x]) ip = (if claims x ip \<and> newer (owner xs ip) x then Some x else owner xs ip)"
  by (simp add: owner_def)

lemma resolve_owned: "owned (foldl claimPod ([], []) pods) (owner pods)"
proof (induction pods rule: rev_induct)
  case Nil
  then show ?case by (simp add: owned_def owner_def)
next
  case (snoc p pods)
  have "owner (pods @ [p]) = (\<lambda>ip. if claims p ip \<and> newer (owner pods ip) p then Some p else owner pods ip)"
    by (simp add: fun_eq_iff owner_snoc)
  then show ?case using claimPod_owned [OF snoc.IH, of p] by simp
qed

lemma gput_new: "k \<notin> set (gkeys m) \<Longrightarrow> gput k v m = m @ [(k, v)]"
  by (induction m) auto

lemma index_of_index:
  "gmap_ok (acc @ m) \<Longrightarrow> list_all (\<lambda>(ip, e). ie_ip e = ip) m \<Longrightarrow>
   foldl (\<lambda>m e. gput (ie_ip e) e m) acc (map snd m) = acc @ m"
proof (induction m arbitrary: acc)
  case (Cons x m)
  then have "gput (ie_ip (snd x)) (snd x) acc = acc @ [x]"
    by (subst gput_new) (force simp: gmap_ok_def)+
  then show ?case using Cons.IH [of "acc @ [x]"] Cons.prems by simp
qed simp

lemma identityIndex_eq: "identityIndex w = fst (foldl claimPod ([], []) (iw_pods w))"
  using index_of_index [of "[]" "fst (foldl claimPod ([], []) (iw_pods w))"] resolve_owned [of "iw_pods w"]
  by (simp add: identityIndex_def indexEntries_def resolveIdentityEntries_def owned_def)

lemma identityIndex_owner:
  "gget (identityIndex w) ip = map_option (\<lambda>p. podEntry p ip) (owner (iw_pods w) ip)"
  "gmap_ok (identityIndex w)" "list_all (\<lambda>(ip, e). ie_ip e = ip) (identityIndex w)"
  unfolding identityIndex_eq using resolve_owned [of "iw_pods w"] by (simp_all add: owned_def)

text \<open>Position \<open>i\<close> holds the latest start among the claims, the first of equals.\<close>

definition wins :: "pod list \<Rightarrow> string \<Rightarrow> nat \<Rightarrow> bool" where
  "wins pods ip i \<longleftrightarrow> i < length pods \<and> claims (pods ! i) ip \<and>
     (\<forall>j < length pods. claims (pods ! j) ip \<longrightarrow>
        startTime (pods ! j) < startTime (pods ! i) \<or> startTime (pods ! j) = startTime (pods ! i) \<and> i \<le> j)"

lemma winsD:
  assumes "wins pods ip i" "j < length pods" "claims (pods ! j) ip"
  shows "startTime (pods ! j) < startTime (pods ! i) \<or> startTime (pods ! j) = startTime (pods ! i) \<and> i \<le> j"
  using assms unfolding wins_def by blast

lemma wins_unique:
  assumes "wins pods ip i" "wins pods ip j"
  shows "i = j"
proof -
  have "i < length pods" "claims (pods ! i) ip" "j < length pods" "claims (pods ! j) ip" using assms by (simp_all add: wins_def)
  then show ?thesis using winsD [OF assms(1), of j] winsD [OF assms(2), of i] by auto
qed

lemma wins_snoc:
  assumes "wins xs ip i" "claims x ip \<Longrightarrow> startTime x \<le> startTime (xs ! i)"
  shows "wins (xs @ [x]) ip i"
proof -
  have i: "i < length xs" "claims (xs ! i) ip" using assms(1) by (simp_all add: wins_def)
  have "startTime ((xs @ [x]) ! j) < startTime (xs ! i) \<or> startTime ((xs @ [x]) ! j) = startTime (xs ! i) \<and> i \<le> j"
    if "j < Suc (length xs)" "claims ((xs @ [x]) ! j) ip" for j
  proof (cases "j < length xs")
    case True
    then show ?thesis using winsD [OF assms(1), of j] that by (simp add: nth_append)
  next
    case False
    then have "j = length xs" using that by simp
    then show ?thesis using that assms(2) i by auto
  qed
  then show ?thesis using i by (simp add: wins_def nth_append)
qed

lemma wins_last:
  assumes "claims x ip" "\<And>p. p \<in> set xs \<Longrightarrow> claims p ip \<Longrightarrow> startTime p < startTime x"
  shows "wins (xs @ [x]) ip (length xs)"
  using assms by (auto simp: wins_def nth_append)

lemma owner_wins:
  "(owner pods ip = None \<longrightarrow> (\<forall>p \<in> set pods. \<not> claims p ip)) \<and>
   (\<forall>p. owner pods ip = Some p \<longrightarrow> (\<exists>i. wins pods ip i \<and> p = pods ! i))"
proof (induction pods rule: rev_induct)
  case Nil
  then show ?case by (simp add: owner_def)
next
  case (snoc x xs)
  show ?case
  proof (cases "claims x ip \<and> newer (owner xs ip) x")
    case True
    have "startTime p < startTime x" if p: "p \<in> set xs" "claims p ip" for p
    proof -
      obtain q where q: "owner xs ip = Some q" using p snoc.IH by (cases "owner xs ip") auto
      then obtain i where i: "wins xs ip i" "q = xs ! i" using snoc.IH by blast
      obtain j where j: "j < length xs" "p = xs ! j" using p(1) by (auto simp: in_set_conv_nth)
      have "startTime p \<le> startTime q" using winsD [OF i(1) j(1)] p(2) i(2) j(2) by auto
      then show ?thesis using True q by (simp add: newer_def)
    qed
    then have "wins (xs @ [x]) ip (length xs)" using True by (intro wins_last) simp_all
    then show ?thesis using True by (auto simp: owner_snoc intro!: exI [of _ "length xs"])
  next
    case False
    then have o: "owner (xs @ [x]) ip = owner xs ip" by (auto simp: owner_snoc)
    show ?thesis
    proof (cases "owner xs ip")
      case None
      then show ?thesis using False snoc.IH by (simp add: o newer_def)
    next
      case (Some p)
      then obtain i where i: "wins xs ip i" "p = xs ! i" using snoc.IH by blast
      have "claims x ip \<Longrightarrow> startTime x \<le> startTime (xs ! i)" using False Some i by (simp add: newer_def)
      then have "wins (xs @ [x]) ip i" by (rule wins_snoc [OF i(1)])
      moreover have "i < length xs" using i by (simp add: wins_def)
      ultimately show ?thesis using Some i by (auto simp: o nth_append)
    qed
  qed
qed

lemma resolve_owner_fact:
  "gget (identityIndex w) ip = Some e \<longleftrightarrow> (\<exists>i. wins (iw_pods w) ip i \<and> e = podEntry (iw_pods w ! i) ip)"
proof (cases "owner (iw_pods w) ip")
  case None
  then have "\<not> wins (iw_pods w) ip i" for i using owner_wins [of "iw_pods w" ip] by (auto simp: wins_def)
  then show ?thesis using None by (simp add: identityIndex_owner(1))
next
  case (Some p)
  then obtain i where i: "wins (iw_pods w) ip i" "p = iw_pods w ! i" using owner_wins [of "iw_pods w" ip] by blast
  have "gget (identityIndex w) ip = Some (podEntry p ip)" using Some by (simp add: identityIndex_owner(1))
  moreover have "(\<exists>j. wins (iw_pods w) ip j \<and> e = podEntry (iw_pods w ! j) ip) \<longleftrightarrow> e = podEntry p ip"
    using i wins_unique [OF i(1)] by metis
  ultimately show ?thesis by (simp add: eq_commute)
qed

text \<open>
  Claim C13. The recycling guard: an address belongs to the serving pod, off the host network,
  that claims it with the latest start; of equal starts the first listed. A pod that is
  terminating, not ready or not running never owns an address, and every claimed address has
  exactly this owner and no other entry.
\<close>

theorem resolve_owner:
  "gget (identityIndex w) ip = Some e \<longleftrightarrow> (\<exists>i. wins (iw_pods w) ip i \<and> e = podEntry (iw_pods w ! i) ip)"
  by (rule resolve_owner_fact)

section \<open>Deltas bring an agent up to date\<close>

text \<open>What an agent knows of an address, and what a delta does to an agent's table.\<close>

type_synonym agent_row = "string \<times> string \<times> string \<times> (string \<Rightarrow> string option)"

definition wireRow :: "wire_entry \<Rightarrow> agent_row" where
  "wireRow u = (we_workload u, we_namespace u, we_app u, gget (we_labels u))"

definition identityTable :: "identity_index \<Rightarrow> string \<Rightarrow> agent_row option" where
  "identityTable i ip = map_option (\<lambda>e. wireRow (wireEntry e)) (gget i ip)"

definition applyIdentity :: "identity_delta \<Rightarrow> (string \<Rightarrow> agent_row option) \<Rightarrow> string \<Rightarrow> agent_row option" where
  "applyIdentity d t ip =
     (if List.member (id_removes d) ip then None
      else case gget (map (\<lambda>u. (we_ip u, wireRow u)) (id_upserts d)) ip of None \<Rightarrow> t ip | Some r \<Rightarrow> Some r)"

text \<open>Maps without repeated keys, entries under their address, no empty label values.\<close>

definition entry_ok :: "identity_entry \<Rightarrow> bool" where
  "entry_ok e \<longleftrightarrow> gmap_ok (ie_labels e) \<and> list_all (\<lambda>(k, v). v \<noteq> []) (ie_labels e)"

definition index_ok :: "identity_index \<Rightarrow> bool" where
  "index_ok i \<longleftrightarrow> gmap_ok i \<and> list_all (\<lambda>(ip, e). ie_ip e = ip \<and> entry_ok e) i"

lemma option_eqI: "(\<And>v. a = Some v \<longleftrightarrow> b = Some v) \<Longrightarrow> a = b"
  by (cases a; cases b) auto

lemma same_size_map:
  assumes "gmap_ok m" "gmap_ok m'" "length m = length m'" "set m \<subseteq> set m'"
  shows "gget m = gget m'"
proof -
  have d: "distinct m" "distinct m'" using assms(1,2) by (simp_all add: gmap_ok_def distinct_map)
  then have "set m = set m'" using assms(3,4) by (intro card_subset_eq) (simp_all add: distinct_card)
  moreover have "gget x k = Some v \<longleftrightarrow> (k, v) \<in> set x" if "gmap_ok x" for x :: "('a, 'b) gmap" and k v
    using that by (simp add: gmap_ok_def)
  ultimately have "gget m k = Some v \<longleftrightarrow> gget m' k = Some v" for k v using assms(1,2) by simp
  then show ?thesis by (intro ext option_eqI)
qed

lemma gget_filter:
  "gmap_ok m \<Longrightarrow> gget (filter P m) k = (case gget m k of None \<Rightarrow> None | Some v \<Rightarrow> if P (k, v) then Some v else None)"
proof (induction m)
  case (Cons x m)
  have "gget m k = None" if "fst x = k" using Cons.prems that by (auto simp: gmap_ok_def map_of_eq_None_iff)
  then show ?case using Cons by (cases x) (auto simp: gmap_ok_def)
qed simp

lemma equalTo_row:
  assumes "equalTo e o1" "entry_ok e" "entry_ok o1"
  shows "wireRow (wireEntry e) = wireRow (wireEntry o1)"
proof -
  have "gget (ie_labels o1) k = Some v" if "(k, v) \<in> set (ie_labels e)" for k v
  proof -
    have "gstr (ie_labels o1) k = v" "v \<noteq> []" using assms that by (auto simp: equalTo_def entry_ok_def list_all_iff split: if_splits)
    then show ?thesis by (auto simp: gstr_def split: option.splits)
  qed
  then have "set (ie_labels e) \<subseteq> set (ie_labels o1)" by (auto dest: map_of_SomeD)
  then have "gget (ie_labels e) = gget (ie_labels o1)"
    using assms by (intro same_size_map) (auto simp: equalTo_def entry_ok_def split: if_splits)
  then show ?thesis using assms(1) by (auto simp: equalTo_def wireRow_def wireEntry_def split: if_splits)
qed

lemma upsert_rows:
  assumes "index_ok new"
  shows "gget (map (\<lambda>u. (we_ip u, wireRow u)) (id_upserts (identityChanges old new))) ip =
    (case gget new ip of
       None \<Rightarrow> None
     | Some e \<Rightarrow> if (case gget old ip of None \<Rightarrow> True | Some prev \<Rightarrow> \<not> equalTo prev e) then Some (wireRow (wireEntry e)) else None)"
proof -
  let ?P = "\<lambda>(ip, e). case gget old ip of None \<Rightarrow> True | Some prev \<Rightarrow> \<not> equalTo prev e"
  have "map (\<lambda>u. (we_ip u, wireRow u)) (id_upserts (identityChanges old new)) =
      map (\<lambda>(ip, e). (ip, wireRow (wireEntry e))) (filter ?P new)"
    using assms by (auto simp: identityChanges_def index_ok_def list_all_iff wireEntry_def)
  then have "gget (map (\<lambda>u. (we_ip u, wireRow u)) (id_upserts (identityChanges old new))) ip =
      map_option (\<lambda>e. wireRow (wireEntry e)) (gget (filter ?P new) ip)"
    by (simp add: map_of_map)
  moreover have "gget (filter ?P new) ip = (case gget new ip of None \<Rightarrow> None | Some e \<Rightarrow> if ?P (ip, e) then Some e else None)"
    using assms by (intro gget_filter) (simp add: index_ok_def)
  ultimately show ?thesis by (auto split: option.splits)
qed

lemma changes_apply:
  assumes "index_ok old" "index_ok new"
  shows "applyIdentity (identityChanges old new) (identityTable old) = identityTable new"
proof
  fix ip
  have rem: "List.member (id_removes (identityChanges old new)) ip \<longleftrightarrow> gget old ip \<noteq> None \<and> gget new ip = None"
    by (auto simp: identityChanges_def ghas_def map_of_eq_None_iff)
  have ok: "entry_ok e" if "gget i ip = Some e" "index_ok i" for i e
    using that by (auto simp: index_ok_def list_all_iff dest: map_of_SomeD)
  show "applyIdentity (identityChanges old new) (identityTable old) ip = identityTable new ip"
    using equalTo_row ok assms
    unfolding applyIdentity_def rem upsert_rows [OF assms(2)] identityTable_def
    by (cases "gget old ip"; cases "gget new ip") auto
qed

interpretation identities: delta_source identityTable identityDiff applyIdentity index_ok
proof
  fix i j d
  assume ij: "index_ok i" "index_ok j"
  show "identityDiff i j = Some d \<Longrightarrow> applyIdentity d (identityTable i) = identityTable j"
    using changes_apply [OF ij] by (auto simp: identityDiff_def Let_def split: if_splits)
  assume "identityDiff i j = None"
  then have "applyIdentity (identityChanges i j) (identityTable i) = identityTable i"
    by (auto simp: identityDiff_def Let_def fun_eq_iff applyIdentity_def split: if_splits)
  then show "identityTable i = identityTable j" using changes_apply [OF ij] by simp
qed

text \<open>Pod labels are maps, and no label that is kept has an empty value.\<close>

definition pods_plain :: "identity_world \<Rightarrow> bool" where
  "pods_plain w \<longleftrightarrow> list_all (\<lambda>p. gmap_ok (pod_labels p) \<and> list_all (\<lambda>(k, v). v \<noteq> []) (filterLabels (pod_labels p))) (iw_pods w)"

lemma gmap_ok_filter: "gmap_ok m \<Longrightarrow> gmap_ok (filter P m)"
  by (simp add: gmap_ok_def distinct_map_filter)

lemma identityIndex_ok:
  assumes "pods_plain w"
  shows "index_ok (identityIndex w)"
proof -
  have "entry_ok e" if e: "(ip, e) \<in> set (identityIndex w)" for ip e
  proof -
    have "gget (identityIndex w) ip = Some e" using e identityIndex_owner(2) [of w] by (simp add: gmap_ok_def)
    then obtain i where i: "wins (iw_pods w) ip i" "e = podEntry (iw_pods w ! i) ip" using resolve_owner_fact by blast
    let ?p = "iw_pods w ! i"
    have "?p \<in> set (iw_pods w)" using i(1) by (simp add: wins_def)
    then show ?thesis
      using assms i(2) by (auto simp: pods_plain_def list_all_iff podEntry_def entry_ok_def filterLabels_def intro: gmap_ok_filter)
  qed
  then show ?thesis using identityIndex_owner(2,3) [of w] by (auto simp: index_ok_def list_all_iff)
qed

lemma uploadNew_frame:
  "pr_index (uploadNew v c resp p) = pr_index p" "pr_deltas (uploadNew v c resp p) = pr_deltas p" "pr_seq (uploadNew v c resp p) = pr_seq p"
  "\<not> accepted resp \<Longrightarrow> uploadNew v c resp p = p"
  by (auto simp: uploadNew_def split: sum.splits)

lemma buildAndUpload_frame:
  "pr_index (buildAndUpload mw (Some w) resp p) = identityIndex w"
  "pr_deltas (buildAndUpload mw l resp p) = pr_deltas p" "pr_seq (buildAndUpload mw l resp p) = pr_seq p"
  by (auto simp: buildAndUpload_def Let_def uploadNew_frame identityIndex_def split: option.split)

text \<open>
  Claim C8. The delta stream is faithful between baselines, for pods whose labels, those that are
  kept, all have a value: an agent that starts from the table of the first listing and applies
  the accepted deltas, numbered without a gap, has at every moment the table the operator
  diffs against, whichever listings and posts failed; and when none failed and no flush is
  pending, it has the table of the current pods. (A kept label with an empty value is outside
  the claim: its replacement by another key is no change for the operator, \<open>equalTo_misses\<close>. A
  baseline in between moves the index too, \<open>baseline_swallows_delta\<close>.)
\<close>

theorem identity_agents_follow:
  assumes run: "identityRun mw es (identityStart mw True resp w) = Some l"
    and ev: "list_all (\<lambda>e. \<not> is_tick e) es" "\<forall>v \<in> insert w (worlds es). pods_plain v"
  shows "follow applyIdentity (identityTable (identityIndex w)) (pr_deltas (lp_prod l)) = identityTable (pr_index (lp_prod l)) \<and>
    consecutive 0 (pr_deltas (lp_prod l)) \<and>
    (list_all (\<lambda>e. \<not> lost e) es \<and> \<not> lp_dirty l \<and> \<not> lp_armed l \<longrightarrow>
       identityTable (pr_index (lp_prod l)) = identityTable (identityIndex (lp_world l)))"
proof -
  let ?l = "identityStart mw True resp w"
  have s: "pr_index (lp_prod ?l) = identityIndex w" "pr_deltas (lp_prod ?l) = []" "pr_seq (lp_prod ?l) = 0" "lp_world ?l = w"
    "identities.settled identityIndex ?l"
    by (simp_all add: identityStart_def buildAndUpload_frame identities.settled_def)
  have "identities.extends (lp_prod ?l) (lp_prod l) \<and>
    (identities.settled identityIndex ?l \<and> list_all (\<lambda>e. \<not> lost e) es \<longrightarrow> identities.settled identityIndex l)"
    using identities.run_follows [OF run [unfolded identityRun_def] ev(1)] ev(2) identityIndex_ok by (simp add: s(1,4))
  then show ?thesis using s by (auto simp: identities.extends_def identities.settled_def)
qed

section \<open>Limits\<close>

text \<open>
  A baseline between a change and its flush takes the change into the diff base, so no delta
  carries it, even when the upload of that baseline failed and no agent can learn of it.
\<close>

lemma equalTo_refl: "gmap_ok (ie_labels e) \<Longrightarrow> equalTo e e"
  by (auto simp: equalTo_def list_all_iff gstr_def gmap_ok_def)

lemma baseline_swallows_delta:
  assumes "pods_plain w"
  shows "flushDelta (Some w) r (buildAndUpload mw (Some w) None p) = p\<lparr>pr_index := identityIndex w\<rparr>"
proof -
  let ?i = "identityIndex w"
  have ok: "index_ok ?i" using assms by (rule identityIndex_ok)
  then have "gget ?i ip = Some e \<and> equalTo e e" if "(ip, e) \<in> set ?i" for ip e
    using that by (auto simp: index_ok_def gmap_ok_def list_all_iff entry_ok_def intro!: equalTo_refl)
  then have "identityDiff ?i ?i = None"
    by (auto simp: identityDiff_def identityChanges_def Let_def filter_empty_conv ghas_def map_of_eq_None_iff rev_image_eqI)
  moreover have "buildAndUpload mw (Some w) None p = p\<lparr>pr_index := ?i\<rparr>"
    by (simp add: buildAndUpload_def Let_def uploadNew_frame accepted_def identityIndex_def)
  ultimately show ?thesis by (simp add: flushDelta_def flushWith_def)
qed

text \<open>The version leaves the labels out, although the database holds them.\<close>

lemma identityVersion_labels: "identityVersion (map (\<lambda>e. e\<lparr>ie_labels := f e\<rparr>) es) = identityVersion es"
proof -
  have "versionRow (e\<lparr>ie_labels := f e\<rparr>) = versionRow e" for e by (simp add: versionRow_def)
  then show ?thesis by (simp add: identityVersion_def comp_def)
qed

text \<open>A label with an empty value is not missed: its replacement by another key is no change.\<close>

lemma equalTo_misses:
  "let e = podEntry (mk_pod ''web'' ''10.0.0.1'' []) ''10.0.0.1'' in
   equalTo (e\<lparr>ie_labels := [(''canary'', [])]\<rparr>) (e\<lparr>ie_labels := [(''tier'', ''db'')]\<rparr>)"
  by code_simp

section \<open>The theorems at work\<close>

text \<open>A terminating pod, and its address in the hands of a new one.\<close>

definition old_pod :: pod where
  "old_pod = (mk_pod ''job-1'' ''10.0.0.7'' [])\<lparr>pod_start := Some 5\<rparr>"

definition new_pod :: pod where
  "new_pod = (mk_pod ''web-1'' '' 10.0.0.7'' [])\<lparr>pod_start := Some 9\<rparr>"

definition pods_world :: "pod list \<Rightarrow> identity_world" where
  "pods_world ps = \<lparr>iw_pods = ps, iw_services = None, iw_ingresses = None\<rparr>"

lemma claims_pods: "claims old_pod ''10.0.0.7''" "claims new_pod ''10.0.0.7''"
  unfolding claims_def by code_simp+

lemma resolve_owner_witness:
  "\<exists>e. gget (identityIndex (pods_world [new_pod, old_pod])) ''10.0.0.7'' = Some e \<and> ie_workload e = ''web-1''"
proof -
  have "startTime old_pod = 5" "startTime new_pod = 9" by (simp_all add: startTime_def old_pod_def new_pod_def)
  then have "wins (iw_pods (pods_world [new_pod, old_pod])) ''10.0.0.7'' 0"
    using claims_pods by (auto simp: wins_def pods_world_def less_Suc_eq)
  moreover have "iw_pods (pods_world [new_pod, old_pod]) ! 0 = new_pod" by (simp add: pods_world_def)
  moreover have "ie_workload (podEntry new_pod ''10.0.0.7'') = ''web-1''" by code_simp
  ultimately show ?thesis using resolve_owner [of "pods_world [new_pod, old_pod]"] by metis
qed

definition null_writer :: "unit mmdb_writer" where
  "null_writer = \<lparr>mw_new = Inr (), mw_insert = (\<lambda>_ _ _. Inr ()), mw_bytes = (\<lambda>_. Inr [])\<rparr>"

lemma identity_agents_follow_witness:
  "\<exists>l. identityRun null_writer [Change (pods_world [old_pod]), TakeDirty, Fire True None, Change (pods_world [new_pod]), TakeDirty, Fire True (Some 200)]
       (identityStart null_writer True None (pods_world [])) = Some l \<and>
     follow applyIdentity (identityTable (identityIndex (pods_world []))) (pr_deltas (lp_prod l)) = identityTable (pr_index (lp_prod l))"
proof -
  let ?es = "[Change (pods_world [old_pod]), TakeDirty, Fire True None, Change (pods_world [new_pod]), TakeDirty, Fire True (Some 200)]"
  obtain l where l: "identityRun null_writer ?es (identityStart null_writer True None (pods_world [])) = Some l"
    by (simp add: identityRun_def identityStart_def)
  have "pods_plain (pods_world [])" "pods_plain (pods_world [old_pod])" "pods_plain (pods_world [new_pod])"
    by (simp_all add: pods_plain_def pods_world_def old_pod_def new_pod_def mk_pod_def filterLabels_def)
  then have "\<forall>v \<in> insert (pods_world []) (worlds ?es). pods_plain v" by (auto simp: worlds_def)
  then show ?thesis using identity_agents_follow [OF l] l by simp
qed

end
