(* ===== verification/Edges.thy ===== *)
theory Edges
  imports Workloads Producer Sha256
begin

text \<open>
  controllers/edge_producer.go: the edges that NetworkPolicies declare between workloads, as the
  lines of an allow-list, with their deltas and their baseline. Label selectors are of the
  Kubernetes library: \<open>sel\<close> turns one into a predicate on labels, or fails.
\<close>

section \<open>Network policies\<close>

datatype int_or_string = IntPort int | NamedPort string

record np_port =
  npp_port :: "int_or_string option"
  npp_end :: "int option"

record 's np_peer =
  npr_ip_block :: bool
  npr_ns_selector :: "'s option"
  npr_pod_selector :: "'s option"

record 's np_rule =
  nr_ports :: "np_port list"
  nr_peers :: "'s np_peer list"

record 's network_policy =
  np_ns :: string
  np_pod_selector :: 's
  np_types :: "string list"
  np_ingress :: "'s np_rule list"
  np_egress :: "'s np_rule list"

record 's edge_world =
  ew_policies :: "'s network_policy list"
  ew_pods :: "pod list"
  ew_namespaces :: "(string \<times> labels) list"

type_synonym 's selectors = "'s \<Rightarrow> (labels \<Rightarrow> bool) option"

section \<open>Pods and ports\<close>

definition podsMatching :: "pod list \<Rightarrow> string \<Rightarrow> (labels \<Rightarrow> bool) \<Rightarrow> pod list" where
  "podsMatching pods ns m = filter (\<lambda>p. \<not> (pod_ns p \<noteq> ns \<or> pod_host_network p) \<and> m (pod_labels p)) pods"

definition workloadSet :: "pod list \<Rightarrow> string list" where
  "workloadSet pods =
     foldl (\<lambda>st p. if fst (workloadIdentity p) \<noteq> [] then List.insert (fst (workloadIdentity p)) st else st) [] pods"

definition nsLabels :: "(string \<times> labels) list \<Rightarrow> (string, labels) gmap" where
  "nsLabels nss = foldl (\<lambda>m n. gput (fst n) (snd n) m) [] nss"

definition peerNamespaces :: "'s selectors \<Rightarrow> 's np_peer \<Rightarrow> string \<Rightarrow> (string, labels) gmap \<Rightarrow> string list option" where
  "peerNamespaces sel peer policyNs nsl =
     (case npr_ns_selector peer of
        None \<Rightarrow> Some [policyNs]
      | Some s \<Rightarrow> (case sel s of None \<Rightarrow> None | Some m \<Rightarrow> Some (map fst (filter (\<lambda>(ns, ls). m ls) nsl))))"

definition peerSelector :: "'s selectors \<Rightarrow> 's np_peer \<Rightarrow> (labels \<Rightarrow> bool) option" where
  "peerSelector sel peer = (case npr_pod_selector peer of None \<Rightarrow> Some (\<lambda>_. True) | Some s \<Rightarrow> sel s)"

definition peerPods :: "'s selectors \<Rightarrow> 's np_peer \<Rightarrow> string \<Rightarrow> pod list \<Rightarrow> (string, labels) gmap \<Rightarrow> pod list" where
  "peerPods sel peer policyNs pods nsl =
     (if npr_ip_block peer then []
      else case peerNamespaces sel peer policyNs nsl of
        None \<Rightarrow> []
      | Some namespaces \<Rightarrow>
          (case peerSelector sel peer of
             None \<Rightarrow> []
           | Some m \<Rightarrow> concat (map (\<lambda>ns. podsMatching pods ns m) namespaces)))"

definition podRefs :: "pod list \<Rightarrow> string list" where
  "podRefs pods =
     foldl (\<lambda>refs p. if fst (workloadIdentity p) = [] \<or> List.member refs (ref_of (pod_ns p) (fst (workloadIdentity p))) then refs
                     else refs @ [ref_of (pod_ns p) (fst (workloadIdentity p))]) [] pods"

definition peerWorkloadRefs :: "'s selectors \<Rightarrow> 's np_peer \<Rightarrow> string \<Rightarrow> pod list \<Rightarrow> (string, labels) gmap \<Rightarrow> string list" where
  "peerWorkloadRefs sel peer policyNs pods nsl = podRefs (peerPods sel peer policyNs pods nsl)"

definition add_new :: "'a list \<Rightarrow> 'a \<Rightarrow> 'a list" where
  "add_new xs x = (if List.member xs x then xs else xs @ [x])"

definition resolveNamedPort :: "pod list \<Rightarrow> string \<Rightarrow> int list" where
  "resolveNamedPort pods name =
     foldl add_new [] (map cp_port (filter (\<lambda>cp. cp_name cp = name) (concat (map (\<lambda>p. concat (pod_ports p)) pods))))"

definition portString :: "pod list \<Rightarrow> np_port \<Rightarrow> string list" where
  "portString dstPods p =
     (case npp_port p of
        None \<Rightarrow> [''*'']
      | Some (IntPort n) \<Rightarrow> [show_int n]
      | Some (NamedPort name) \<Rightarrow>
          (let nums = resolveNamedPort dstPods name in if nums = [] then [''*''] else map show_int nums))"

definition portStrings :: "np_port list \<Rightarrow> pod list \<Rightarrow> string list" where
  "portStrings ports dstPods =
     (if ports = [] then [''*''] else foldl add_new [] (concat (map (portString dstPods) ports)))"

section \<open>The walk over the policies\<close>

definition policyHasEgress :: "'s network_policy \<Rightarrow> bool" where
  "policyHasEgress np \<longleftrightarrow> List.member (np_types np) ''Egress'' \<or> np_egress np \<noteq> []"

definition policyHasIngress :: "'s network_policy \<Rightarrow> bool" where
  "policyHasIngress np \<longleftrightarrow> np_types np = [] \<or> List.member (np_types np) ''Ingress''"

text \<open>The calls of the callbacks, in order.\<close>

datatype walk = Emit string string "string list" | GovDst string | GovSrc string

definition everyone :: string where
  "everyone = ''*/*''"

definition walkIngress :: "'s selectors \<Rightarrow> 's edge_world \<Rightarrow> 's network_policy \<Rightarrow> pod list \<Rightarrow> walk list" where
  "walkIngress sel w np selPods =
     (let wls = workloadSet selPods; nsl = nsLabels (ew_namespaces w) in
      map (\<lambda>wl. GovDst (ref_of (np_ns np) wl)) wls @
      concat (map (\<lambda>rule.
        let ports = portStrings (nr_ports rule) selPods;
            srcRefs = (if nr_peers rule = [] then [everyone]
                       else concat (map (\<lambda>peer. peerWorkloadRefs sel peer (np_ns np) (ew_pods w) nsl) (nr_peers rule)))
        in concat (map (\<lambda>dstWl. map (\<lambda>src. Emit src (ref_of (np_ns np) dstWl) ports) srcRefs) wls)) (np_ingress np)))"

definition walkEgress :: "'s selectors \<Rightarrow> 's edge_world \<Rightarrow> 's network_policy \<Rightarrow> pod list \<Rightarrow> walk list" where
  "walkEgress sel w np selPods =
     (let wls = workloadSet selPods; nsl = nsLabels (ew_namespaces w) in
      map (\<lambda>wl. GovSrc (ref_of (np_ns np) wl)) wls @
      concat (map (\<lambda>rule.
        let toPods = concat (map (\<lambda>peer. peerPods sel peer (np_ns np) (ew_pods w) nsl) (nr_peers rule));
            dstRefs = (if nr_peers rule = [] then [everyone]
                       else concat (map (\<lambda>peer. peerWorkloadRefs sel peer (np_ns np) (ew_pods w) nsl) (nr_peers rule)));
            ports = portStrings (nr_ports rule) toPods
        in concat (map (\<lambda>srcWl. map (\<lambda>dst. Emit (ref_of (np_ns np) srcWl) dst ports) dstRefs) wls)) (np_egress np)))"

definition walkPolicy :: "'s selectors \<Rightarrow> 's edge_world \<Rightarrow> 's network_policy \<Rightarrow> walk list" where
  "walkPolicy sel w np =
     (case sel (np_pod_selector np) of
        None \<Rightarrow> []
      | Some m \<Rightarrow>
          let selPods = podsMatching (ew_pods w) (np_ns np) m in
          if workloadSet selPods = [] then []
          else (if policyHasIngress np then walkIngress sel w np selPods else []) @
               (if policyHasEgress np then walkEgress sel w np selPods else []))"

definition walkPolicyEdges :: "'s selectors \<Rightarrow> 's edge_world \<Rightarrow> walk list" where
  "walkPolicyEdges sel w = concat (map (walkPolicy sel w) (ew_policies w))"

section \<open>The allow-list\<close>

definition edgeLine :: "string \<Rightarrow> string \<Rightarrow> string \<Rightarrow> string" where
  "edgeLine src dst port = ''E '' @ src @ '' > '' @ dst @ '' : '' @ port"

fun edgesOf :: "walk \<Rightarrow> string list" where
  "edgesOf (Emit src dst ports) = map (edgeLine src dst) ports"
| "edgesOf _ = []"

fun govDstOf :: "walk \<Rightarrow> string list" where
  "govDstOf (GovDst ref) = [ref]"
| "govDstOf _ = []"

fun govSrcOf :: "walk \<Rightarrow> string list" where
  "govSrcOf (GovSrc ref) = [ref]"
| "govSrcOf _ = []"

definition computeEdgeLines :: "'s selectors \<Rightarrow> 's edge_world \<Rightarrow> string list \<times> nat" where
  "computeEdgeLines sel w =
     (let calls = walkPolicyEdges sel w;
          edges = foldl add_new [] (concat (map edgesOf calls));
          governedDst = foldl add_new [] (concat (map govDstOf calls));
          governedSrc = foldl add_new [] (concat (map govSrcOf calls))
      in (sort (edges @ map ((@) ''G '') governedDst @ map ((@) ''S '') governedSrc), length edges))"

definition edgeHeader :: string where
  "edgeHeader = ''# NetworkPolicy-derived declared-edge allow-list'' @ nl"

definition buildEdgeDoc :: "'s selectors \<Rightarrow> 's edge_world \<Rightarrow> string \<times> string \<times> nat" where
  "buildEdgeDoc sel w =
     (case computeEdgeLines sel w of (ls, edgeCount) \<Rightarrow>
        (edgeHeader @ concat (map (\<lambda>l. l @ nl) ls), ''edges-'' @ take 16 (digest (join nl ls)), edgeCount))"

section \<open>Deltas and baseline\<close>

record edge_delta =
  ed_upserts :: "string list"
  ed_removes :: "string list"

record 's edge_api =
  ea_policies :: "'s network_policy list option"
  ea_pods :: "pod list option"
  ea_namespaces :: "(string \<times> labels) list option"

definition edgeInputs :: "'s edge_api \<Rightarrow> string + 's edge_world" where
  "edgeInputs a =
     (case ea_policies a of
        None \<Rightarrow> Inl ''list networkpolicies''
      | Some nps \<Rightarrow>
          (case ea_pods a of
             None \<Rightarrow> Inl ''list pods''
           | Some pods \<Rightarrow>
               (case ea_namespaces a of
                  None \<Rightarrow> Inl ''list namespaces''
                | Some nss \<Rightarrow> Inr \<lparr>ew_policies = nps, ew_pods = pods, ew_namespaces = nss\<rparr>)))"

definition lineSet :: "string list \<Rightarrow> string list" where
  "lineSet ls = foldl add_new [] ls"

definition edgeIndex :: "'s selectors \<Rightarrow> 's edge_world \<Rightarrow> string list" where
  "edgeIndex sel w = lineSet (fst (computeEdgeLines sel w))"

definition edgeDiff :: "string list \<Rightarrow> string list \<Rightarrow> edge_delta option" where
  "edgeDiff old new =
     (let upserts = filter (\<lambda>l. \<not> List.member old l) new; removes = filter (\<lambda>l. \<not> List.member new l) old
      in if upserts = [] \<and> removes = [] then None else Some \<lparr>ed_upserts = upserts, ed_removes = removes\<rparr>)"

type_synonym edge_producer = "(string list, edge_delta, string) producer"

definition edgeFlushDelta :: "'s selectors \<Rightarrow> 's edge_api \<Rightarrow> int option \<Rightarrow> edge_producer \<Rightarrow> edge_producer" where
  "edgeFlushDelta sel a resp p =
     flushWith edgeDiff (case edgeInputs a of Inl _ \<Rightarrow> None | Inr w \<Rightarrow> Some (edgeIndex sel w)) resp p"

definition edgePostDelta :: "endpoint_cfg \<Rightarrow> edge_delta \<Rightarrow> edge_delta request" where
  "edgePostDelta = deltaRequest ''/policy-edges/delta''"

definition edgeBuildAndUpload :: "'s selectors \<Rightarrow> 's edge_world option \<Rightarrow> int option \<Rightarrow> edge_producer \<Rightarrow> edge_producer" where
  "edgeBuildAndUpload sel inputs resp p =
     (case inputs of
        None \<Rightarrow> p
      | Some w \<Rightarrow>
          (case buildEdgeDoc sel w of (doc, version, edges) \<Rightarrow>
             uploadNew version (Inr doc) resp (p\<lparr>pr_index := edgeIndex sel w\<rparr>)))"

definition edgeUpload :: "endpoint_cfg \<Rightarrow> string \<Rightarrow> string \<Rightarrow> string request" where
  "edgeUpload = uploadRequest ''/policy-edges/upload'' ''text/plain''"

definition edgeRun ::
  "'s selectors \<Rightarrow> 's edge_world event list \<Rightarrow> ('s edge_world, string list, edge_delta, string) loop
    \<Rightarrow> ('s edge_world, string list, edge_delta, string) loop option" where
  "edgeRun sel = loopRun (edgeIndex sel) edgeDiff (edgeBuildAndUpload sel)"

definition edgeStart ::
  "'s selectors \<Rightarrow> bool \<Rightarrow> int option \<Rightarrow> 's edge_world \<Rightarrow> ('s edge_world, string list, edge_delta, string) loop" where
  "edgeStart sel ok resp w =
     \<lparr>lp_world = w, lp_dirty = False, lp_armed = False,
      lp_prod = edgeBuildAndUpload sel (if ok then Some w else None) resp
        \<lparr>pr_seq = 0, pr_index = [], pr_version = [], pr_deltas = [], pr_uploads = []\<rparr>\<rparr>"

section \<open>Agents follow the edges\<close>

lemma set_add_new: "set (foldl add_new acc xs) = set acc \<union> set xs"
  by (induction xs arbitrary: acc) (auto simp: add_new_def)

definition applyEdges :: "edge_delta \<Rightarrow> string set \<Rightarrow> string set" where
  "applyEdges d t = (t - set (ed_removes d)) \<union> set (ed_upserts d)"

interpretation edges: delta_source set edgeDiff applyEdges "\<lambda>_. True"
  by unfold_locales (auto simp: edgeDiff_def applyEdges_def Let_def filter_empty_conv split: if_splits)

section \<open>What the lines mean\<close>

text \<open>
  The meaning of a peer, of the ports of a rule and of a policy. It follows the documentation of
  NetworkPolicy except for three conventions of the code: IP blocks select no pod; a named port
  that no container at the destination carries is any port; and the end of a port range
  (\<^verbatim>\<open>endPort\<close>) is not read, so that a range counts with its first port only.
\<close>

definition peer_selects :: "'s selectors \<Rightarrow> 's edge_world \<Rightarrow> string \<Rightarrow> 's np_peer \<Rightarrow> pod \<Rightarrow> bool" where
  "peer_selects sel w ns peer p \<longleftrightarrow> p \<in> set (ew_pods w) \<and> \<not> npr_ip_block peer \<and> \<not> pod_host_network p \<and>
     (case npr_ns_selector peer of
        None \<Rightarrow> pod_ns p = ns
      | Some s \<Rightarrow> \<exists>m ls. sel s = Some m \<and> gget (nsLabels (ew_namespaces w)) (pod_ns p) = Some ls \<and> m ls) \<and>
     (case npr_pod_selector peer of None \<Rightarrow> True | Some s \<Rightarrow> \<exists>m. sel s = Some m \<and> m (pod_labels p))"

definition rule_ref :: "'s selectors \<Rightarrow> 's edge_world \<Rightarrow> string \<Rightarrow> 's np_rule \<Rightarrow> string \<Rightarrow> bool" where
  "rule_ref sel w ns rule r \<longleftrightarrow>
     (if nr_peers rule = [] then r = ''*/*''
      else \<exists>peer p. peer \<in> set (nr_peers rule) \<and> peer_selects sel w ns peer p \<and>
        fst (workloadIdentity p) \<noteq> [] \<and> r = ref_of (pod_ns p) (fst (workloadIdentity p)))"

definition carries :: "pod \<Rightarrow> string \<Rightarrow> int \<Rightarrow> bool" where
  "carries p name n \<longleftrightarrow> (\<exists>cp. cp \<in> set (concat (pod_ports p)) \<and> cp_name cp = name \<and> cp_port cp = n)"

definition rule_port :: "(pod \<Rightarrow> bool) \<Rightarrow> 's np_rule \<Rightarrow> string \<Rightarrow> bool" where
  "rule_port dst rule s \<longleftrightarrow>
     (if nr_ports rule = [] then s = ''*''
      else \<exists>port. port \<in> set (nr_ports rule) \<and>
        (case npp_port port of
           None \<Rightarrow> s = ''*''
         | Some (IntPort n) \<Rightarrow> s = show_int n
         | Some (NamedPort name) \<Rightarrow>
             (\<exists>p n. dst p \<and> carries p name n \<and> s = show_int n) \<or> (\<nexists>p n. dst p \<and> carries p name n) \<and> s = ''*''))"

definition selected :: "'s selectors \<Rightarrow> 's edge_world \<Rightarrow> 's network_policy \<Rightarrow> pod \<Rightarrow> bool" where
  "selected sel w np p \<longleftrightarrow> p \<in> set (ew_pods w) \<and> pod_ns p = np_ns np \<and> \<not> pod_host_network p \<and>
     (\<exists>m. sel (np_pod_selector np) = Some m \<and> m (pod_labels p))"

text \<open>The lines for a governed workload, as a destination and as a source.\<close>

definition ingress_line :: "'s selectors \<Rightarrow> 's edge_world \<Rightarrow> 's network_policy \<Rightarrow> (pod \<Rightarrow> bool) \<Rightarrow> string \<Rightarrow> string \<Rightarrow> bool" where
  "ingress_line sel w np dst r l \<longleftrightarrow> l = ''G '' @ r \<or>
     (\<exists>rule src port. rule \<in> set (np_ingress np) \<and> rule_ref sel w (np_ns np) rule src \<and>
        rule_port dst rule port \<and> l = edgeLine src r port)"

definition egress_line :: "'s selectors \<Rightarrow> 's edge_world \<Rightarrow> 's network_policy \<Rightarrow> string \<Rightarrow> string \<Rightarrow> bool" where
  "egress_line sel w np r l \<longleftrightarrow> l = ''S '' @ r \<or>
     (\<exists>rule dst port. rule \<in> set (np_egress np) \<and> rule_ref sel w (np_ns np) rule dst \<and>
        rule_port (\<lambda>p. \<exists>peer. peer \<in> set (nr_peers rule) \<and> peer_selects sel w (np_ns np) peer p) rule port \<and>
        l = edgeLine r dst port)"

definition policy_line :: "'s selectors \<Rightarrow> 's edge_world \<Rightarrow> 's network_policy \<Rightarrow> string \<Rightarrow> bool" where
  "policy_line sel w np l \<longleftrightarrow> (\<exists>p r. selected sel w np p \<and> fst (workloadIdentity p) \<noteq> [] \<and>
     r = ref_of (np_ns np) (fst (workloadIdentity p)) \<and>
     (policyHasIngress np \<and> ingress_line sel w np (selected sel w np) r l \<or>
      policyHasEgress np \<and> egress_line sel w np r l))"

lemma set_workloadSet: "set (workloadSet pods) = {fst (workloadIdentity p) | p. p \<in> set pods \<and> fst (workloadIdentity p) \<noteq> []}"
proof -
  have "set (foldl (\<lambda>st p. if fst (workloadIdentity p) \<noteq> [] then List.insert (fst (workloadIdentity p)) st else st) acc pods) =
      set acc \<union> {fst (workloadIdentity p) | p. p \<in> set pods \<and> fst (workloadIdentity p) \<noteq> []}" for acc
    by (induction pods arbitrary: acc) auto
  then show ?thesis by (simp add: workloadSet_def)
qed

lemma set_podRefs:
  "set (podRefs pods) = {ref_of (pod_ns p) (fst (workloadIdentity p)) | p. p \<in> set pods \<and> fst (workloadIdentity p) \<noteq> []}"
proof -
  have "set (foldl (\<lambda>refs p. if fst (workloadIdentity p) = [] \<or> List.member refs (ref_of (pod_ns p) (fst (workloadIdentity p))) then refs
        else refs @ [ref_of (pod_ns p) (fst (workloadIdentity p))]) acc pods) =
      set acc \<union> {ref_of (pod_ns p) (fst (workloadIdentity p)) | p. p \<in> set pods \<and> fst (workloadIdentity p) \<noteq> []}" for acc
    by (induction pods arbitrary: acc) auto
  then show ?thesis by (simp add: podRefs_def)
qed

lemma gmap_ok_nsLabels: "gmap_ok (nsLabels nss)"
proof -
  have "gmap_ok m \<Longrightarrow> gmap_ok (foldl (\<lambda>m n. gput (fst n) (snd n) m) m nss)" for m
    by (induction nss arbitrary: m) auto
  then show ?thesis by (simp add: nsLabels_def)
qed

lemma set_podsMatching: "p \<in> set (podsMatching pods ns m) \<longleftrightarrow> p \<in> set pods \<and> pod_ns p = ns \<and> \<not> pod_host_network p \<and> m (pod_labels p)"
  by (auto simp: podsMatching_def)

lemma set_podsIn:
  "p \<in> set (concat (map (\<lambda>ns. podsMatching pods ns m) nss)) \<longleftrightarrow>
   p \<in> set pods \<and> pod_ns p \<in> set nss \<and> \<not> pod_host_network p \<and> m (pod_labels p)"
  by (auto simp: set_podsMatching)

lemma set_matchingNs:
  "gmap_ok nsl \<Longrightarrow> n \<in> set (map fst (filter (\<lambda>(ns, ls). m ls) nsl)) \<longleftrightarrow> (\<exists>ls. gget nsl n = Some ls \<and> m ls)"
  by (force simp: gmap_ok_def)

lemma peerNamespaces_iff:
  "gmap_ok nsl \<Longrightarrow> (\<exists>nss. peerNamespaces sel peer ns nsl = Some nss \<and> n \<in> set nss) \<longleftrightarrow>
   (case npr_ns_selector peer of None \<Rightarrow> n = ns | Some s \<Rightarrow> \<exists>m ls. sel s = Some m \<and> gget nsl n = Some ls \<and> m ls)"
  unfolding peerNamespaces_def
  by (cases "npr_ns_selector peer"; cases "sel (the (npr_ns_selector peer))")
    (simp_all add: set_matchingNs del: set_map set_filter)

lemma peerSelector_iff:
  "(\<exists>m. peerSelector sel peer = Some m \<and> m ls) \<longleftrightarrow>
   (case npr_pod_selector peer of None \<Rightarrow> True | Some s \<Rightarrow> \<exists>m. sel s = Some m \<and> m ls)"
  by (simp add: peerSelector_def split: option.split)

lemma set_peerPods:
  "p \<in> set (peerPods sel peer ns (ew_pods w) (nsLabels (ew_namespaces w))) \<longleftrightarrow> peer_selects sel w ns peer p"
proof -
  let ?nsl = "nsLabels (ew_namespaces w)"
  have "p \<in> set (peerPods sel peer ns (ew_pods w) ?nsl) \<longleftrightarrow>
      p \<in> set (ew_pods w) \<and> \<not> npr_ip_block peer \<and> \<not> pod_host_network p \<and>
      (\<exists>nss. peerNamespaces sel peer ns ?nsl = Some nss \<and> pod_ns p \<in> set nss) \<and>
      (\<exists>m. peerSelector sel peer = Some m \<and> m (pod_labels p))"
    unfolding peerPods_def
    by (cases "peerNamespaces sel peer ns ?nsl"; cases "peerSelector sel peer") (auto simp: set_podsMatching)
  then show ?thesis
    unfolding peer_selects_def peerNamespaces_iff [OF gmap_ok_nsLabels] peerSelector_iff .
qed

lemma peer_refs:
  "r \<in> set (peerWorkloadRefs sel peer ns (ew_pods w) (nsLabels (ew_namespaces w))) \<longleftrightarrow>
   (\<exists>p. peer_selects sel w ns peer p \<and> fst (workloadIdentity p) \<noteq> [] \<and> r = ref_of (pod_ns p) (fst (workloadIdentity p)))"
  by (auto simp: peerWorkloadRefs_def set_podRefs set_peerPods)

lemma set_resolveNamedPort: "n \<in> set (resolveNamedPort ds name) \<longleftrightarrow> (\<exists>p. p \<in> set ds \<and> carries p name n)"
  unfolding resolveNamedPort_def set_add_new carries_def by auto

lemma set_portString:
  "s \<in> set (portString ds port) \<longleftrightarrow>
     (case npp_port port of
        None \<Rightarrow> s = ''*''
      | Some (IntPort n) \<Rightarrow> s = show_int n
      | Some (NamedPort name) \<Rightarrow>
          (\<exists>p n. p \<in> set ds \<and> carries p name n \<and> s = show_int n) \<or> (\<nexists>p n. p \<in> set ds \<and> carries p name n) \<and> s = ''*'')"
proof -
  have "s \<in> set (let nums = resolveNamedPort ds name in if nums = [] then [''*''] else map show_int nums) \<longleftrightarrow>
      (\<exists>p n. p \<in> set ds \<and> carries p name n \<and> s = show_int n) \<or> (\<nexists>p n. p \<in> set ds \<and> carries p name n) \<and> s = ''*''" for name
  proof (cases "resolveNamedPort ds name = []")
    case True
    then have "\<nexists>p n. p \<in> set ds \<and> carries p name n" using set_resolveNamedPort [of _ ds name] by auto
    then show ?thesis using True by auto
  next
    case False
    then have "\<exists>p n. p \<in> set ds \<and> carries p name n" using set_resolveNamedPort [of _ ds name] by (metis list.set_intros(1) neq_Nil_conv)
    moreover have "s \<in> set (map show_int (resolveNamedPort ds name)) \<longleftrightarrow> (\<exists>n. (\<exists>p. p \<in> set ds \<and> carries p name n) \<and> s = show_int n)"
      unfolding set_map image_iff Bex_def set_resolveNamedPort ..
    ultimately show ?thesis using False by (simp add: Let_def) blast
  qed
  then show ?thesis unfolding portString_def by (simp split: option.split int_or_string.split)
qed

lemma set_portStrings: "s \<in> set (portStrings (nr_ports rule) ds) \<longleftrightarrow> rule_port (\<lambda>p. p \<in> set ds) rule s"
  by (simp add: portStrings_def rule_port_def set_add_new set_portString Bex_def)

fun callLine :: "walk \<Rightarrow> string \<Rightarrow> bool" where
  "callLine (Emit src dst ports) l \<longleftrightarrow> (\<exists>port. port \<in> set ports \<and> l = edgeLine src dst port)"
| "callLine (GovDst r) l \<longleftrightarrow> l = ''G '' @ r"
| "callLine (GovSrc r) l \<longleftrightarrow> l = ''S '' @ r"

lemma set_edge_lines: "l \<in> set (fst (computeEdgeLines sel w)) \<longleftrightarrow> (\<exists>c \<in> set (walkPolicyEdges sel w). callLine c l)"
proof -
  have c: "callLine c l \<longleftrightarrow> l \<in> set (edgesOf c) \<or> (\<exists>r. r \<in> set (govDstOf c) \<and> l = ''G '' @ r) \<or> (\<exists>r. r \<in> set (govSrcOf c) \<and> l = ''S '' @ r)" for c
    by (cases c) auto
  show ?thesis
    unfolding computeEdgeLines_def Let_def c by (simp add: set_add_new) blast
qed

definition rule_refs :: "'s selectors \<Rightarrow> 's edge_world \<Rightarrow> string \<Rightarrow> 's np_rule \<Rightarrow> string list" where
  "rule_refs sel w ns rule =
     (if nr_peers rule = [] then [everyone]
      else concat (map (\<lambda>peer. peerWorkloadRefs sel peer ns (ew_pods w) (nsLabels (ew_namespaces w))) (nr_peers rule)))"

lemma set_rule_refs: "r \<in> set (rule_refs sel w ns rule) \<longleftrightarrow> rule_ref sel w ns rule r"
  by (auto simp: rule_refs_def rule_ref_def everyone_def peer_refs)

lemma walkIngress_calls:
  "(\<exists>c \<in> set (walkIngress sel w np ps). callLine c l) \<longleftrightarrow>
   (\<exists>wl. wl \<in> set (workloadSet ps) \<and> ingress_line sel w np (\<lambda>p. p \<in> set ps) (ref_of (np_ns np) wl) l)"
  unfolding walkIngress_def ingress_line_def Let_def rule_refs_def [symmetric] set_rule_refs [symmetric] set_portStrings [symmetric]
  by (simp add: bex_Un) blast

lemma walkEgress_calls:
  "(\<exists>c \<in> set (walkEgress sel w np ps). callLine c l) \<longleftrightarrow>
   (\<exists>wl. wl \<in> set (workloadSet ps) \<and> egress_line sel w np (ref_of (np_ns np) wl) l)"
proof -
  let ?to = "\<lambda>rule. concat (map (\<lambda>peer. peerPods sel peer (np_ns np) (ew_pods w) (nsLabels (ew_namespaces w))) (nr_peers rule))"
  have to: "p \<in> set (?to rule) \<longleftrightarrow> (\<exists>peer. peer \<in> set (nr_peers rule) \<and> peer_selects sel w (np_ns np) peer p)" for p rule
    by (auto simp: set_peerPods)
  show ?thesis
    unfolding walkEgress_def egress_line_def Let_def rule_refs_def [symmetric] set_rule_refs [symmetric] to [symmetric]
      set_portStrings [symmetric]
    by (simp add: bex_Un) blast
qed

lemma walkPolicy_calls:
  "(\<exists>c \<in> set (walkPolicy sel w np). callLine c l) \<longleftrightarrow> policy_line sel w np l"
proof (cases "sel (np_pod_selector np)")
  case None
  then show ?thesis by (simp add: walkPolicy_def policy_line_def selected_def)
next
  case (Some m)
  let ?ps = "podsMatching (ew_pods w) (np_ns np) m"
  have ps: "p \<in> set ?ps \<longleftrightarrow> selected sel w np p" for p
    using Some by (auto simp: set_podsMatching selected_def)
  have wls: "wl \<in> set (workloadSet ?ps) \<longleftrightarrow> (\<exists>p. selected sel w np p \<and> fst (workloadIdentity p) \<noteq> [] \<and> wl = fst (workloadIdentity p))" for wl
    by (auto simp: set_workloadSet ps)
  have "(\<exists>c \<in> set (walkPolicy sel w np). callLine c l) \<longleftrightarrow>
      (policyHasIngress np \<and> (\<exists>c \<in> set (walkIngress sel w np ?ps). callLine c l)) \<or>
      (policyHasEgress np \<and> (\<exists>c \<in> set (walkEgress sel w np ?ps). callLine c l))"
  proof (cases "workloadSet ?ps = []")
    case True
    then have "\<not> (\<exists>c \<in> set (walkIngress sel w np ?ps). callLine c l)" "\<not> (\<exists>c \<in> set (walkEgress sel w np ?ps). callLine c l)"
      unfolding walkIngress_calls walkEgress_calls by simp_all
    then show ?thesis using Some True by (simp add: walkPolicy_def Let_def)
  next
    case False
    then show ?thesis using Some by (auto simp: walkPolicy_def Let_def)
  qed
  then show ?thesis unfolding walkIngress_calls walkEgress_calls wls ps policy_line_def by blast
qed

text \<open>
  Claim C6. What the allow-list holds, line by line: a line is in it exactly when some policy
  with a selected workload governs that workload (as the destination of its ingress rules, as
  the source of its egress rules) or yields the edge, from or to a workload with a pod, off the host
  network, that a peer of the rule selects, or anyone when the rule names no peer, at a port as
  the code reads it: a number is itself; a name is each container port of that name at the
  destination, and any port when no container there carries it; a rule without ports, and a
  port without number or name, is any port. The end of a port range is not read, of a range only
  the first port is in the list, and an IP block selects no workload: with ranges and IP blocks
  the list is narrower than the policy, with an unresolved named port it is wider. (The scope
  comment of the source says less, see the findings.)
\<close>

theorem edge_lines_exact:
  "l \<in> set (fst (computeEdgeLines sel w)) \<longleftrightarrow> (\<exists>np. np \<in> set (ew_policies w) \<and> policy_line sel w np l)"
  unfolding set_edge_lines walkPolicy_calls [symmetric] by (auto simp: walkPolicyEdges_def)

section \<open>The document\<close>

text \<open>What an agent reads: the lines that are neither empty nor comments.\<close>

definition readEdgeDoc :: "string \<Rightarrow> string list" where
  "readEdgeDoc doc = filter (\<lambda>l. l \<noteq> [] \<and> hd l \<noteq> CHR ''#'') (split_on (CHR 0x0A) doc)"

lemma split_on_lines:
  "list_all (\<lambda>l. CHR 0x0A \<notin> set l) ls \<Longrightarrow> split_on (CHR 0x0A) (concat (map (\<lambda>l. l @ nl) ls)) = ls @ [[]]"
  by (induction ls) (simp_all add: split_on_sep)

lemma edge_line_head: "l \<in> set (fst (computeEdgeLines sel w)) \<Longrightarrow> l \<noteq> [] \<and> hd l \<noteq> CHR ''#''"
  unfolding set_edge_lines by (elim bexE, rename_tac c, case_tac c) (auto simp: edgeLine_def)

lemma edge_doc_lines:
  assumes "list_all (\<lambda>l. CHR 0x0A \<notin> set l) (fst (computeEdgeLines sel w))"
  shows "readEdgeDoc (fst (buildEdgeDoc sel w)) = fst (computeEdgeLines sel w)"
proof -
  let ?ls = "fst (computeEdgeLines sel w)" and ?h = "''# NetworkPolicy-derived declared-edge allow-list''"
  have "fst (buildEdgeDoc sel w) = ?h @ CHR 0x0A # concat (map (\<lambda>l. l @ nl) ?ls)"
    by (simp add: buildEdgeDoc_def edgeHeader_def split: prod.split)
  moreover have h: "CHR 0x0A \<notin> set ?h" by simp
  ultimately have "split_on (CHR 0x0A) (fst (buildEdgeDoc sel w)) = ?h # ?ls @ [[]]"
    using split_on_sep [OF h, of "concat (map (\<lambda>l. l @ nl) ?ls)"] split_on_lines [OF assms] by metis
  moreover have "filter (\<lambda>l. l \<noteq> [] \<and> hd l \<noteq> CHR ''#'') ?ls = ?ls"
    using edge_line_head by (intro filter_True) blast
  ultimately show ?thesis by (simp add: readEdgeDoc_def)
qed

lemma set_edgeIndex: "set (edgeIndex sel w) = set (fst (computeEdgeLines sel w))"
  by (simp add: edgeIndex_def lineSet_def set_add_new)

text \<open>
  Claim C35. The uploaded document and the deltas agree: unless a name holds a newline, reading
  the document gives back exactly the lines it was built from, which are the lines the deltas
  are about.
\<close>

theorem edge_doc_roundtrip:
  assumes "list_all (\<lambda>l. CHR 0x0A \<notin> set l) (fst (computeEdgeLines sel w))"
  shows "readEdgeDoc (fst (buildEdgeDoc sel w)) = fst (computeEdgeLines sel w) \<and>
    set (edgeIndex sel w) = set (readEdgeDoc (fst (buildEdgeDoc sel w)))"
  by (simp add: edge_doc_lines [OF assms] set_edgeIndex)

section \<open>Agents that follow\<close>

text \<open>The producer starts with a baseline: its document is uploaded when the download-api accepts.\<close>

lemma edgeStart_prod:
  "pr_index (lp_prod (edgeStart sel True resp w)) = edgeIndex sel w"
  "pr_deltas (lp_prod (edgeStart sel True resp w)) = []" "pr_seq (lp_prod (edgeStart sel True resp w)) = 0"
  "lp_world (edgeStart sel True resp w) = w"
  "accepted resp \<Longrightarrow> pr_uploads (lp_prod (edgeStart sel True resp w)) = [(fst (snd (buildEdgeDoc sel w)), fst (buildEdgeDoc sel w))]"
  by (simp_all add: edgeStart_def edgeBuildAndUpload_def uploadNew_def buildEdgeDoc_def split: prod.split)

text \<open>
  Claim C25. Between two baselines a change of policies, pods or namespaces is not forgotten.
  Take a producer whose first baseline was accepted, and any run of changes and flushes with no
  further baseline, whatever listings and posts failed in it, after which a change is noted.
  Then at most two steps of the loop, with a download-api that accepts, leave nothing pending,
  and an agent that has read the uploaded document and applied all accepted deltas, which are
  numbered without a gap, has exactly the allow-list of the current cluster, the changes of
  flushes that failed before included. (A failed flush is not repeated by itself, and
  a baseline in between can swallow a change: see the limits in this theory and in Identity. No name
  at the start holds a newline.)
\<close>

theorem edges_catch_up:
  assumes run: "edgeRun sel es (edgeStart sel True resp w) = Some l" "accepted resp"
    and ev: "list_all (\<lambda>e. \<not> is_tick e) es" and noted: "lp_dirty l \<or> lp_armed l"
    and names: "list_all (\<lambda>l. CHR 0x0A \<notin> set l) (fst (computeEdgeLines sel w))"
  shows "\<exists>fin l' version doc. set fin \<subseteq> {TakeDirty, Fire True (Some 200)} \<and> length fin \<le> 2 \<and>
    edgeRun sel fin l = Some l' \<and> \<not> lp_dirty l' \<and> \<not> lp_armed l' \<and>
    pr_uploads (lp_prod l') = [(version, doc)] \<and> consecutive 0 (pr_deltas (lp_prod l')) \<and>
    follow applyEdges (set (readEdgeDoc doc)) (pr_deltas (lp_prod l')) = set (fst (computeEdgeLines sel (lp_world l)))"
proof -
  let ?start = "edgeStart sel True resp w"
  have before: "edges.extends (lp_prod ?start) (lp_prod l)"
    using edges.run_follows [OF run(1) [unfolded edgeRun_def] ev] by simp
  obtain fin l' where fin: "set fin \<subseteq> {TakeDirty, Fire True (Some 200)}" "length fin \<le> 2" "edgeRun sel fin l = Some l'"
    and after: "edges.extends (lp_prod l) (lp_prod l')" "set (pr_index (lp_prod l')) = set (edgeIndex sel (lp_world l))"
    and rest: "\<not> lp_dirty l'" "\<not> lp_armed l'"
    using edges.catches_up [OF noted, where compute = "edgeIndex sel" and resp = "Some 200" and baseline = "edgeBuildAndUpload sel"]
    unfolding edgeRun_def by (auto simp: accepted_def)
  have "edges.extends (lp_prod ?start) (lp_prod l')" by (rule edges.extends_trans [OF before after(1)])
  then have follows: "consecutive 0 (pr_deltas (lp_prod l'))"
    "follow applyEdges (set (fst (computeEdgeLines sel w))) (pr_deltas (lp_prod l')) = set (fst (computeEdgeLines sel (lp_world l)))"
    unfolding edges.extends_def edgeStart_prod after(2) set_edgeIndex by auto
  have "list_all (\<lambda>e. \<not> is_tick e) fin" using fin(1) by (auto simp: list_all_iff)
  then have "pr_uploads (lp_prod l') = pr_uploads (lp_prod ?start)"
    using loopRun_uploads [OF run(1) [unfolded edgeRun_def] ev] loopRun_uploads [OF fin(3) [unfolded edgeRun_def]] by simp
  then have "pr_uploads (lp_prod l') = [(fst (snd (buildEdgeDoc sel w)), fst (buildEdgeDoc sel w))]"
    using edgeStart_prod(5) [OF run(2)] by metis
  then show ?thesis using fin rest follows edge_doc_lines [OF names] by metis
qed

section \<open>The theorems at work\<close>

definition matchLabels :: "labels selectors" where
  "matchLabels s = Some (\<lambda>ls. list_all (\<lambda>(k, v). gstr ls k = v) s)"

definition web_pod :: pod where
  "web_pod = (mk_pod ''web'' ''10.0.0.2'' [])\<lparr>pod_labels := [(''app'', ''web'')], pod_ports := [[\<lparr>cp_name = ''http'', cp_port = 8080\<rparr>]]\<rparr>"

definition api_pod :: pod where
  "api_pod = (mk_pod ''api'' ''10.0.0.3'' [])\<lparr>pod_labels := [(''app'', ''api'')]\<rparr>"

definition policy_world :: "labels np_peer \<Rightarrow> labels edge_world" where
  "policy_world peer =
     \<lparr>ew_policies = [\<lparr>np_ns = ''ns'', np_pod_selector = [(''app'', ''web'')], np_types = [],
        np_ingress = [\<lparr>nr_ports = [\<lparr>npp_port = Some (NamedPort ''http''), npp_end = None\<rparr>], nr_peers = [peer]\<rparr>], np_egress = []\<rparr>],
      ew_pods = [web_pod, api_pod], ew_namespaces = [(''ns'', [])]\<rparr>"

definition api_peer :: "labels np_peer" where
  "api_peer = \<lparr>npr_ip_block = False, npr_ns_selector = None, npr_pod_selector = Some [(''app'', ''api'')]\<rparr>"

definition quiet_world :: "labels edge_world" where
  "quiet_world = \<lparr>ew_policies = [], ew_pods = [web_pod, api_pod], ew_namespaces = [(''ns'', [])]\<rparr>"

lemma policy_world_lines:
  "fst (computeEdgeLines matchLabels (policy_world api_peer)) = [''E ns/api > ns/web : 8080'', ''G ns/web'']"
  by code_simp

lemma edge_doc_roundtrip_witness:
  "readEdgeDoc (fst (buildEdgeDoc matchLabels (policy_world api_peer))) = [''E ns/api > ns/web : 8080'', ''G ns/web'']"
proof -
  have "list_all (\<lambda>l. CHR 0x0A \<notin> set l) (fst (computeEdgeLines matchLabels (policy_world api_peer)))"
    unfolding policy_world_lines by simp
  then show ?thesis using edge_doc_roundtrip [of matchLabels "policy_world api_peer"] unfolding policy_world_lines by blast
qed

lemma edges_catch_up_witness:
  "\<exists>l fin l' version doc.
     edgeRun matchLabels [Change (policy_world api_peer), TakeDirty, Fire True None, Change (policy_world api_peer)]
       (edgeStart matchLabels True (Some 200) quiet_world) = Some l \<and>
     edgeRun matchLabels fin l = Some l' \<and> pr_uploads (lp_prod l') = [(version, doc)] \<and>
     follow applyEdges (set (readEdgeDoc doc)) (pr_deltas (lp_prod l')) = {''E ns/api > ns/web : 8080'', ''G ns/web''}"
proof -
  let ?es = "[Change (policy_world api_peer), TakeDirty, Fire True None, Change (policy_world api_peer)]"
  have flush: "flushWith edgeDiff (Some i) None p = p" for i and p :: edge_producer
    by (simp add: flushWith_def accepted_def Let_def split: option.split)
  obtain l where l: "edgeRun matchLabels ?es (edgeStart matchLabels True (Some 200) quiet_world) = Some l"
    and w: "lp_world l = policy_world api_peer" and noted: "lp_dirty l \<or> lp_armed l"
    by (simp add: edgeRun_def edgeStart_def flush)
  have "fst (computeEdgeLines matchLabels quiet_world) = []" by code_simp
  then have names: "list_all (\<lambda>l. CHR 0x0A \<notin> set l) (fst (computeEdgeLines matchLabels quiet_world))" by simp
  have "accepted (Some 200)" "list_all (\<lambda>e. \<not> is_tick e) ?es" by (simp_all add: accepted_def)
  then obtain fin l' version doc where "edgeRun matchLabels fin l = Some l'" "pr_uploads (lp_prod l') = [(version, doc)]"
    "follow applyEdges (set (readEdgeDoc doc)) (pr_deltas (lp_prod l')) = set (fst (computeEdgeLines matchLabels (lp_world l)))"
    using edges_catch_up [OF l _ _ noted names] by blast
  moreover have "set (fst (computeEdgeLines matchLabels (lp_world l))) = {''E ns/api > ns/web : 8080'', ''G ns/web''}"
    unfolding w policy_world_lines by (simp only: list.set)
  ultimately show ?thesis using l by metis
qed

section \<open>Limits\<close>

text \<open>
  A rule whose only peers are IP blocks yields no edge, yet its workload is governed, so every
  flow to it is outside the list; and the end of a port range is not read.
\<close>

lemma ip_block_governed:
  "fst (computeEdgeLines matchLabels (policy_world \<lparr>npr_ip_block = True, npr_ns_selector = None, npr_pod_selector = None\<rparr>))
     = [''G ns/web'']"
  by code_simp

lemma port_range_start_only: "portStrings [\<lparr>npp_port = Some (IntPort 8000), npp_end = Some 9000\<rparr>] ds = [''8000'']"
proof -
  have "show_int 8000 = ''8000''" by code_simp
  then show ?thesis by (simp add: portStrings_def portString_def add_new_def)
qed

end
