(* ===== verification/Startup.thy ===== *)
theory Startup
  imports Backends ConfigSync ConfigHash Producer
begin

text \<open>
  main.go: the flags with their defaults, the parsing of list-valued flags, the checks of the flag
  combinations, the one-shot modes and the components a run registers, in order, each with the
  configuration its theory uses; and the status leader gate of controllers/leader.go. The outcome
  of each registration and of the client library is part of the environment; a run ends in an
  exit code or in the manager with its components. Durations are nanoseconds.
\<close>

section \<open>Flag values\<close>

definition trimmed_items :: "string \<Rightarrow> string list" where
  "trimmed_items value = filter (\<lambda>s. s \<noteq> []) (map trim_space (split_on (CHR '','') value))"

definition parseCSV :: "string \<Rightarrow> string list" where
  "parseCSV value = trimmed_items value"

text \<open>Sets of keys; a nil map is \<open>None\<close>.\<close>

definition parseKeySetOrNil :: "string \<Rightarrow> string list option" where
  "parseKeySetOrNil value = (let out = remdups (trimmed_items value) in if out = [] then None else Some out)"

definition parseKeySet :: "string \<Rightarrow> string list option" where
  "parseKeySet value =
     (if split_on (CHR '','') value = [] then None
      else let entries = remdups (trimmed_items value) in if entries = [] then None else Some entries)"

definition parseNamespacedName :: "string \<Rightarrow> string + string \<times> string" where
  "parseNamespacedName value =
     (if trim_space value = [] then Inr ([], [])
      else case split_first (CHR ''/'') value of
        None \<Rightarrow> Inl (''expected namespace/name, got '' @ value)
      | Some (ns, name) \<Rightarrow>
          if trim_space ns = [] \<or> trim_space name = [] then Inl (''expected namespace/name, got '' @ value)
          else Inr (trim_space ns, trim_space name))"

fun parseNamespacedNameList :: "string list \<Rightarrow> string + (string \<times> string) list" where
  "parseNamespacedNameList [] = Inr []"
| "parseNamespacedNameList (v # vs) =
     (case parseNamespacedName v of
        Inl e \<Rightarrow> Inl e
      | Inr nn \<Rightarrow>
          if snd nn = [] then Inl (''expected namespace/name, got '' @ v)
          else case parseNamespacedNameList vs of Inl e \<Rightarrow> Inl e | Inr nns \<Rightarrow> Inr (nn # nns))"

text \<open>\<open>lp\<close> is the parser of the Kubernetes library; an empty selector is everything.\<close>

definition parseLabelSelector :: "(string \<Rightarrow> string + 's) \<Rightarrow> 's \<Rightarrow> string \<Rightarrow> string + 's" where
  "parseLabelSelector lp everything value = (if trim_space value = [] then Inr everything else lp value)"

section \<open>Flags\<close>

text \<open>
  \<open>fl_set\<close> holds the names of the flags given on the command line, those \<^verbatim>\<open>flag.Visit\<close> lists; the
  other fields are the values after parsing, so a flag that is not in the list has its default.
\<close>

record flags =
  fl_set :: "string list"
  fl_metrics :: string
  fl_probe :: string
  fl_leader_elect :: bool
  fl_namespace :: string
  fl_selector :: string
  fl_annotation :: string
  fl_ignored_cm :: string
  fl_ignored_secret :: string
  fl_ingress :: bool
  fl_resolver :: bool
  fl_netvars :: bool
  fl_hot_exclude :: bool
  fl_per_workload :: bool
  fl_render_once :: bool
  fl_class :: string
  fl_out :: string
  fl_out_cm :: string
  fl_endpoints :: bool
  fl_cluster_ips :: bool
  fl_domain :: string
  fl_identity :: bool
  fl_api_url :: string
  fl_cluster_id :: string
  fl_identity_interval :: int
  fl_edges :: bool
  fl_edge_interval :: int
  fl_certs_out :: string
  fl_out_secret :: string
  fl_gateway_api :: bool
  fl_status_addr :: string
  fl_reload_name :: string
  fl_debounce :: int
  fl_status_election :: bool
  fl_config_sync :: bool
  fl_watch :: "string list"
  fl_out_dir :: string
  fl_sync_keys :: string
  fl_sync_once :: bool
  fl_ensure_files :: string
  fl_election_id :: string
  fl_election_ns :: string

text \<open>No flag given.\<close>

definition default_flags :: flags where
  "default_flags =
     \<lparr>fl_set = [], fl_metrics = '':8080'', fl_probe = '':8081'', fl_leader_elect = False, fl_namespace = [],
      fl_selector = ''app.kubernetes.io/name=synapse'', fl_annotation = ''synapse.gen0sec.com/config-hash'',
      fl_ignored_cm = ''upstreams.yaml'', fl_ignored_secret = [], fl_ingress = False, fl_resolver = False, fl_netvars = False,
      fl_hot_exclude = False, fl_per_workload = False, fl_render_once = False, fl_class = ''synapse'',
      fl_out = ''/shared/upstreams.yaml'', fl_out_cm = [], fl_endpoints = False, fl_cluster_ips = False,
      fl_domain = ''cluster.local'', fl_identity = False, fl_api_url = ''https://api.gen0sec.com/v1'', fl_cluster_id = [],
      fl_identity_interval = 300000000000, fl_edges = False, fl_edge_interval = 300000000000, fl_certs_out = [],
      fl_out_secret = [], fl_gateway_api = False, fl_status_addr = [], fl_reload_name = ''synapse'', fl_debounce = 500000000,
      fl_status_election = False, fl_config_sync = False, fl_watch = [], fl_out_dir = ''/shared'', fl_sync_keys = [],
      fl_sync_once = False, fl_ensure_files = ''upstreams.yaml'', fl_election_id = ''synapse-ingress-status'',
      fl_election_ns = []\<rparr>"

definition flagWasSet :: "flags \<Rightarrow> string \<Rightarrow> bool" where
  "flagWasSet f name \<longleftrightarrow> List.member (fl_set f) name"

record parsed =
  pa_out_cm :: "string \<times> string"
  pa_out_secret :: "string \<times> string"
  pa_sources :: "(string \<times> string) list"

definition parseFlags :: "flags \<Rightarrow> string + parsed" where
  "parseFlags f =
     (case parseNamespacedName (fl_out_cm f) of
        Inl e \<Rightarrow> Inl e
      | Inr cm \<Rightarrow>
          (case parseNamespacedName (fl_out_secret f) of
             Inl e \<Rightarrow> Inl e
           | Inr secret \<Rightarrow>
               (case parseNamespacedNameList (fl_watch f) of
                  Inl e \<Rightarrow> Inl e
                | Inr sources \<Rightarrow> Inr \<lparr>pa_out_cm = cm, pa_out_secret = secret, pa_sources = sources\<rparr>)))"

definition configSyncConflict :: "flags \<Rightarrow> (string \<times> string) list \<Rightarrow> string option" where
  "configSyncConflict f sources =
     (if \<not> fl_config_sync f then None
      else if fl_ingress f then Some ''--config-sync cannot be combined with --ingress-mode''
      else if fl_resolver f \<or> fl_netvars f then Some ''--config-sync cannot be combined with the resolver controllers''
      else if fl_leader_elect f then Some ''--config-sync must not use --leader-elect (it runs once per proxy pod)''
      else if sources = [] then Some ''--config-sync requires at least one --watch-configmap namespace/name''
      else None)"

definition bindAddresses :: "flags \<Rightarrow> string \<times> string" where
  "bindAddresses f =
     (if fl_config_sync f then
        (if flagWasSet f ''metrics-bind-address'' then fl_metrics f else ''0'',
         if flagWasSet f ''health-probe-bind-address'' then fl_probe f else ''0'')
      else (fl_metrics f, fl_probe f))"

text \<open>The informer scope of a sidecar: per namespace one name, or (\<open>None\<close>) every name.\<close>

definition addScope :: "(string, string option) gmap \<Rightarrow> string \<times> string \<Rightarrow> (string, string option) gmap" where
  "addScope byNS src =
     (if ghas byNS (fst src) then gput (fst src) None byNS else gput (fst src) (Some (snd src)) byNS)"

definition cacheScope :: "(string \<times> string) list \<Rightarrow> (string, string option) gmap" where
  "cacheScope sources = foldl addScope [] sources"

section \<open>A run\<close>

datatype component =
  ConfigSyncController sync_cfg string int | ConfigSyncPrimer | StatusElection string string string
| IngressController ing_cfg string int | RenderPrimer | ConfigHashController hash_cfg
| UpstreamsResolver string | NetVarsResolver | IdentityProducer endpoint_cfg int | EdgeProducer endpoint_cfg int

definition keys_of :: "string list option \<Rightarrow> string list" where
  "keys_of ks = (case ks of None \<Rightarrow> [] | Some s \<Rightarrow> s)"

text \<open>A one-shot has no signaler; the answer of a new leader gate is no.\<close>

definition syncConfig :: "flags \<Rightarrow> parsed \<Rightarrow> bool \<Rightarrow> sync_cfg" where
  "syncConfig f pa signaler =
     \<lparr>sy_sources = pa_sources pa, sy_dir = fl_out_dir f, sy_keys = keys_of (parseKeySetOrNil (fl_sync_keys f)), sy_signaler = signaler\<rparr>"

definition onceConfig :: "flags \<Rightarrow> parsed \<Rightarrow> ing_cfg" where
  "onceConfig f pa =
     \<lparr>cf_class = fl_class f, cf_out_path = fl_out f, cf_certs_dir = fl_certs_out f, cf_certs_secret = pa_out_secret pa,
      cf_domain = fl_domain f, cf_signal_reload = False, cf_gateway_api = fl_gateway_api f, cf_status_addrs = [],
      cf_recorder = False, cf_leader = None, cf_out_cm = pa_out_cm pa, cf_resolve_ips = fl_cluster_ips f,
      cf_resolve_eps = fl_endpoints f\<rparr>"

definition ingressConfig :: "flags \<Rightarrow> parsed \<Rightarrow> ing_cfg" where
  "ingressConfig f pa =
     (onceConfig f pa)\<lparr>cf_signal_reload := (snd (pa_out_cm pa) = []), cf_status_addrs := parseCSV (fl_status_addr f),
       cf_recorder := True, cf_leader := if fl_status_election f then Some False else None\<rparr>"

definition hashConfig :: "flags \<Rightarrow> hash_cfg" where
  "hashConfig f =
     \<lparr>hc_annotation = fl_annotation f, hc_ignored_cm = keys_of (parseKeySet (fl_ignored_cm f)),
      hc_ignored_secret = keys_of (parseKeySet (fl_ignored_secret f)), hc_exclude_ids = fl_hot_exclude f,
      hc_per_workload = fl_per_workload f\<rparr>"

definition apiConfig :: "(string \<Rightarrow> string) \<Rightarrow> flags \<Rightarrow> endpoint_cfg" where
  "apiConfig getenv f = \<lparr>ec_url = fl_api_url f, ec_key = getenv ''SYNAPSE_API_KEY'', ec_cluster = fl_cluster_id f\<rparr>"

text \<open>\<^verbatim>\<open>NewStatusLeaderElection\<close>: the namespace and the identity have defaults.\<close>

definition newStatusLeaderElection :: "string \<Rightarrow> string \<Rightarrow> string \<Rightarrow> string \<Rightarrow> component" where
  "newStatusLeaderElection hostname ns name ident =
     StatusElection (if ns = [] then ''default'' else ns) name (if ident = [] then hostname else ident)"

definition registrations :: "(string \<Rightarrow> string) \<Rightarrow> string \<Rightarrow> flags \<Rightarrow> parsed \<Rightarrow> component list" where
  "registrations getenv hostname f pa =
     (if fl_config_sync f
      then [ConfigSyncController (syncConfig f pa True) (fl_reload_name f) (fl_debounce f), ConfigSyncPrimer] else []) @
     (if fl_ingress f then
        (if fl_status_election f
         then [newStatusLeaderElection hostname (if fl_election_ns f = [] then getenv ''POD_NAMESPACE'' else fl_election_ns f)
                 (fl_election_id f) (getenv ''POD_NAME'')]
         else []) @
        [IngressController (ingressConfig f pa) (fl_reload_name f) (fl_debounce f), RenderPrimer]
      else if fl_config_sync f then []
      else [ConfigHashController (hashConfig f)]) @
     (if fl_resolver f then [UpstreamsResolver (fl_domain f)] else []) @
     (if fl_netvars f then [NetVarsResolver] else []) @
     (if fl_identity f then [IdentityProducer (apiConfig getenv f) (fl_identity_interval f)] else []) @
     (if fl_edges f then [EdgeProducer (apiConfig getenv f) (fl_edge_interval f)] else [])"

record 's startup_env =
  en_getenv :: "string \<Rightarrow> string"
  en_hostname :: string
  en_client :: bool
  en_ensure_files :: "sync_cfg \<Rightarrow> string list \<Rightarrow> bool"
  en_render_once :: "ing_cfg \<Rightarrow> bool"
  en_parse_selector :: "string \<Rightarrow> string + 's"
  en_everything :: 's
  en_manager :: bool
  en_register :: "component \<Rightarrow> bool"
  en_health :: bool
  en_ready :: bool
  en_start :: bool

text \<open>
  The manager that was started: its bind addresses, whether it elects a leader, the namespace and
  the ConfigMaps its informers are limited to, its components, and whether the readiness check is
  the one of the ingress controller.
\<close>

record manager =
  mg_addresses :: "string \<times> string"
  mg_leader :: bool
  mg_namespace :: "string option"
  mg_scope :: "(string, string option) gmap option"
  mg_components :: "component list"
  mg_ingress_ready :: bool

datatype outcome = Exit int | Ran manager int

text \<open>A failure of the first projection is logged; the floor of files decides.\<close>

definition syncOnceRun :: "'s startup_env \<Rightarrow> flags \<Rightarrow> parsed \<Rightarrow> int" where
  "syncOnceRun en f pa =
     (if \<not> en_client en then 1
      else if \<not> en_ensure_files en (syncConfig f pa False) (split_on (CHR '','') (fl_ensure_files f)) then 1 else 0)"

definition renderOnceRun :: "'s startup_env \<Rightarrow> flags \<Rightarrow> parsed \<Rightarrow> int" where
  "renderOnceRun en f pa = (if \<not> en_client en then 1 else if \<not> en_render_once en (onceConfig f pa) then 1 else 0)"

definition startManager :: "'s startup_env \<Rightarrow> flags \<Rightarrow> parsed \<Rightarrow> outcome" where
  "startManager en f pa =
     (if trim_space (fl_annotation f) = [] then Exit 1
      else case parseLabelSelector (en_parse_selector en) (en_everything en) (fl_selector f) of
        Inl _ \<Rightarrow> Exit 1
      | Inr _ \<Rightarrow>
          if \<not> en_manager en then Exit 1
          else let components = registrations (en_getenv en) (en_hostname en) f pa in
            if \<not> list_all (en_register en) components then Exit 1
            else if \<not> en_health en then Exit 1
            else if \<not> en_ready en then Exit 1
            else Ran \<lparr>mg_addresses = bindAddresses f, mg_leader = fl_leader_elect f,
                      mg_namespace = if fl_namespace f = [] then None else Some (fl_namespace f),
                      mg_scope = if fl_config_sync f then Some (cacheScope (pa_sources pa)) else None,
                      mg_components = components, mg_ingress_ready = fl_ingress f\<rparr>
                   (if en_start en then 0 else 1))"

definition main :: "'s startup_env \<Rightarrow> flags \<Rightarrow> outcome" where
  "main en f =
     (case parseFlags f of
        Inl _ \<Rightarrow> Exit 1
      | Inr pa \<Rightarrow>
          (case configSyncConflict f (pa_sources pa) of
             Some _ \<Rightarrow> Exit 1
           | None \<Rightarrow>
               if fl_config_sync f \<and> fl_sync_once f then Exit (syncOnceRun en f pa)
               else if fl_ingress f \<and> fl_render_once f then Exit (renderOnceRun en f pa)
               else startManager en f pa))"

section \<open>The sidecar\<close>

lemma cacheScope_covers:
  "(ns, n) \<in> set sources \<Longrightarrow> gget (cacheScope sources) ns = Some None \<or> gget (cacheScope sources) ns = Some (Some n)"
proof (induction sources rule: rev_induct)
  case (snoc s sources)
  show ?case
    using snoc by (auto simp: cacheScope_def addScope_def gmap_simps ghas_def)
qed simp

fun sidecar_component :: "component \<Rightarrow> bool" where
  "sidecar_component (ConfigSyncController _ _ _) = True"
| "sidecar_component ConfigSyncPrimer = True"
| "sidecar_component (IdentityProducer _ _) = True"
| "sidecar_component (EdgeProducer _ _) = True"
| "sidecar_component _ = False"

text \<open>
  Claim C18. A config-sync sidecar keeps to itself: when the program runs with it, no controller that
  elects a leader or writes cluster state is registered (ingress, resolvers, config hash, status
  election), the manager does not elect, there is something to watch, and the informers see
  every watched ConfigMap. The ports of the pod are left free: the metrics server and the probes
  listen where their flag says when that very flag was given on the command line, whatever
  other flags were, and nowhere otherwise.
\<close>

theorem sidecar_alone:
  assumes "main en f = Ran mg code" "fl_config_sync f"
  shows "list_all sidecar_component (mg_components mg) \<and> \<not> mg_leader mg \<and>
    mg_addresses mg =
      (if ''metrics-bind-address'' \<in> set (fl_set f) then fl_metrics f else ''0'',
       if ''health-probe-bind-address'' \<in> set (fl_set f) then fl_probe f else ''0'') \<and>
    (\<exists>sources scope. parseNamespacedNameList (fl_watch f) = Inr sources \<and> sources \<noteq> [] \<and> mg_scope mg = Some scope \<and>
      (\<forall>(ns, n) \<in> set sources. gget scope ns = Some None \<or> gget scope ns = Some (Some n)))"
proof -
  obtain pa where pa: "parseFlags f = Inr pa" "configSyncConflict f (pa_sources pa) = None" "startManager en f pa = Ran mg code"
    using assms by (auto simp: main_def split: sum.splits option.splits if_splits)
  have c: "\<not> fl_ingress f" "\<not> fl_resolver f" "\<not> fl_netvars f" "\<not> fl_leader_elect f" "pa_sources pa \<noteq> []"
    using pa(2) assms(2) by (auto simp: configSyncConflict_def split: if_splits)
  have m: "mg_components mg = registrations (en_getenv en) (en_hostname en) f pa" "mg_leader mg = fl_leader_elect f"
    "mg_addresses mg = bindAddresses f"
    "mg_scope mg = Some (cacheScope (pa_sources pa))"
    using pa(3) assms(2) by (auto simp: startManager_def Let_def split: if_splits sum.splits)
  have s: "parseNamespacedNameList (fl_watch f) = Inr (pa_sources pa)"
    using pa(1) by (auto simp: parseFlags_def split: sum.splits)
  have "list_all sidecar_component (mg_components mg)"
    using c assms(2) by (simp add: m registrations_def)
  moreover have "mg_addresses mg =
      (if ''metrics-bind-address'' \<in> set (fl_set f) then fl_metrics f else ''0'',
       if ''health-probe-bind-address'' \<in> set (fl_set f) then fl_probe f else ''0'')"
    using assms(2) by (simp add: m bindAddresses_def flagWasSet_def)
  moreover have "\<forall>(ns, n) \<in> set (pa_sources pa). gget (cacheScope (pa_sources pa)) ns = Some None \<or>
      gget (cacheScope (pa_sources pa)) ns = Some (Some n)"
    using cacheScope_covers by blast
  ultimately show ?thesis using c m s by auto
qed

definition sidecar_flags :: flags where
  "sidecar_flags = default_flags\<lparr>fl_set := [''label-selector'', ''config-hash-annotation'', ''config-sync'',
       ''watch-configmap'', ''health-probe-bind-address''],
     fl_selector := [], fl_annotation := ''hash'', fl_config_sync := True, fl_probe := '':9000'',
     fl_watch := [''ns/a'', ''ns/b'', ''other/c'']\<rparr>"

definition calm_env :: "unit startup_env" where
  "calm_env = \<lparr>en_getenv = (\<lambda>_. []), en_hostname = ''host'', en_client = True, en_ensure_files = (\<lambda>_ _. True),
     en_render_once = (\<lambda>_. True), en_parse_selector = (\<lambda>_. Inr ()), en_everything = (), en_manager = True,
     en_register = (\<lambda>_. True), en_health = True, en_ready = True, en_start = True\<rparr>"

lemma sidecar_main: "\<exists>mg. main calm_env sidecar_flags = Ran mg 0"
proof -
  have "parseFlags sidecar_flags =
      Inr \<lparr>pa_out_cm = ([], []), pa_out_secret = ([], []), pa_sources = [(''ns'', ''a''), (''ns'', ''b''), (''other'', ''c'')]\<rparr>"
    by code_simp
  moreover have "trim_space ''hash'' = ''hash''" "trim_space [] = []" by code_simp+
  ultimately show ?thesis
    by (simp add: main_def configSyncConflict_def startManager_def calm_env_def parseLabelSelector_def sidecar_flags_def
      default_flags_def Let_def list.pred_True)
qed

lemma sidecar_alone_witness:
  "\<exists>mg. main calm_env sidecar_flags = Ran mg 0 \<and> \<not> mg_leader mg \<and> mg_addresses mg = (''0'', '':9000'')"
proof -
  obtain mg where r: "main calm_env sidecar_flags = Ran mg 0" using sidecar_main by blast
  then show ?thesis using sidecar_alone [OF r] by (simp add: sidecar_flags_def default_flags_def)
qed

section \<open>The status leader gate\<close>

text \<open>The gate is a flag; the callbacks of the election and the return of \<^verbatim>\<open>RunOrDie\<close> set it.\<close>

datatype lease_event = StartedLeading | StoppedLeading | ElectionReturned

definition gateStep :: "bool \<Rightarrow> lease_event \<Rightarrow> bool" where
  "gateStep flag e = (case e of StartedLeading \<Rightarrow> True | StoppedLeading \<Rightarrow> False | ElectionReturned \<Rightarrow> False)"

text \<open>
  \<^verbatim>\<open>Start\<close>: without a client it fails; otherwise it contends until its context ends, and what
  happens until then is a list of events, each round ending in a return.
\<close>

definition leaderStart :: "bool \<Rightarrow> bool \<Rightarrow> lease_event list list \<Rightarrow> string option \<times> bool" where
  "leaderStart client flag rounds =
     (if \<not> client then (Some ''client'', flag)
      else (None, foldl (\<lambda>fl events. foldl gateStep fl (events @ [ElectionReturned])) flag rounds))"

lemma leaderStart_ends_follower: "rounds \<noteq> [] \<Longrightarrow> snd (leaderStart True flag rounds) = False"
  by (induction rounds rule: rev_induct) (simp_all add: leaderStart_def gateStep_def)

lemma gate_last: "es \<noteq> [] \<Longrightarrow> foldl gateStep flag es = (last es = StartedLeading)"
  by (induction es rule: rev_induct) (auto simp: gateStep_def split: lease_event.split)

end
