(* ===== verification/Writers.thy ===== *)
theory Writers
  imports FileSys
begin

text \<open>
  \<open>writeIfChanged\<close> at the granularity of system calls, over names and inodes, for more than one
  writer at a time. Theory FileSys runs each call to its end, which is what one reconcile at a time
  does; but the primer of the ingress controller (and of the sidecar) is a second writer that the
  manager starts together with the controller, on the same path and the same temporary file.
\<close>

section \<open>A writer\<close>

text \<open>Directory entries, and the contents of the inodes they point to.\<close>

record disk =
  dk_names :: "(string, nat) gmap"
  dk_inodes :: "string list"

definition readName :: "disk \<Rightarrow> string \<Rightarrow> string option" where
  "readName d p = map_option (\<lambda>i. dk_inodes d ! i) (gget (dk_names d) p)"

datatype phase = Checking | Opening | Writing nat | Renaming | Unchanged | Replaced | Broken

text \<open>
  The next system call: read and compare; open the temporary file, truncating it when it exists;
  write from offset 0; rename.
\<close>

fun writerStep :: "string \<Rightarrow> string \<Rightarrow> disk \<times> phase \<Rightarrow> disk \<times> phase" where
  "writerStep path content (d, Checking) = (d, if readName d path = Some content then Unchanged else Opening)"
| "writerStep path content (d, Opening) =
     (case gget (dk_names d) (path @ ''.tmp'') of
        Some i \<Rightarrow> (d\<lparr>dk_inodes := (dk_inodes d)[i := []]\<rparr>, Writing i)
      | None \<Rightarrow> (d\<lparr>dk_names := gput (path @ ''.tmp'') (length (dk_inodes d)) (dk_names d),
                  dk_inodes := dk_inodes d @ [[]]\<rparr>, Writing (length (dk_inodes d))))"
| "writerStep path content (d, Writing i) =
     (d\<lparr>dk_inodes := (dk_inodes d)[i := content @ drop (length content) (dk_inodes d ! i)]\<rparr>, Renaming)"
| "writerStep path content (d, Renaming) =
     (case gget (dk_names d) (path @ ''.tmp'') of
        Some i \<Rightarrow> (d\<lparr>dk_names := gput path i (gdel (path @ ''.tmp'') (dk_names d))\<rparr>, Replaced)
      | None \<Rightarrow> (d, Broken))"
| "writerStep path content (d, ph) = (d, ph)"

text \<open>Two writers of a path, taking turns as the schedule says.\<close>

fun turn :: "string \<Rightarrow> string \<Rightarrow> string \<Rightarrow> disk \<times> phase \<times> phase \<Rightarrow> bool \<Rightarrow> disk \<times> phase \<times> phase" where
  "turn path c1 c2 (d, p1, p2) first =
     (if first then (case writerStep path c1 (d, p1) of (d', q) \<Rightarrow> (d', q, p2))
      else (case writerStep path c2 (d, p2) of (d', q) \<Rightarrow> (d', p1, q)))"

definition turns :: "string \<Rightarrow> string \<Rightarrow> string \<Rightarrow> disk \<Rightarrow> bool list \<Rightarrow> disk \<times> phase \<times> phase" where
  "turns path c1 c2 d sched = foldl (turn path c1 c2) (d, Checking, Checking) sched"

definition oneFile :: "string \<Rightarrow> string \<Rightarrow> disk" where
  "oneFile path content = \<lparr>dk_names = [(path, 0)], dk_inodes = [content]\<rparr>"

section \<open>One writer is atomic\<close>

text \<open>Every name has an inode of its own.\<close>

definition disk_ok :: "disk \<Rightarrow> bool" where
  "disk_ok d \<longleftrightarrow> (\<forall>p i. gget (dk_names d) p = Some i \<longrightarrow> i < length (dk_inodes d)) \<and>
     (\<forall>p q i. gget (dk_names d) p = Some i \<longrightarrow> gget (dk_names d) q = Some i \<longrightarrow> p = q)"

text \<open>What holds between two system calls of a writer that is alone.\<close>

definition alone_inv :: "string \<Rightarrow> string \<Rightarrow> string option \<Rightarrow> disk \<times> phase \<Rightarrow> bool" where
  "alone_inv path content old s \<longleftrightarrow> (case s of (d, ph) \<Rightarrow>
     disk_ok d \<and>
     (case ph of
        Writing i \<Rightarrow> readName d path = old \<and> gget (dk_names d) (path @ ''.tmp'') = Some i \<and> dk_inodes d ! i = []
      | Renaming \<Rightarrow> readName d path = old \<and> readName d (path @ ''.tmp'') = Some content
      | Replaced \<Rightarrow> readName d path = Some content
      | Broken \<Rightarrow> False
      | Unchanged \<Rightarrow> readName d path = old \<and> old = Some content
      | _ \<Rightarrow> readName d path = old))"

lemma readName_other:
  assumes "disk_ok d" "gget (dk_names d) q = Some i" "p \<noteq> q"
  shows "readName (d\<lparr>dk_inodes := (dk_inodes d)[i := c]\<rparr>) p = readName d p"
  using assms by (auto simp: readName_def disk_ok_def nth_list_update intro!: option.map_cong0)

lemma alone_step:
  assumes "alone_inv path content old s"
  shows "alone_inv path content old (writerStep path content s)"
proof -
  obtain d ph where s: "s = (d, ph)" by fastforce
  have ok: "disk_ok d" using assms by (simp_all add: alone_inv_def s)
  show ?thesis
  proof (cases ph)
    case Checking
    then show ?thesis using assms by (simp add: alone_inv_def s)
  next
    case Opening
    show ?thesis
    proof (cases "gget (dk_names d) (path @ ''.tmp'')")
      case None
      then show ?thesis
        using assms ok Opening
        by (cases "gget (dk_names d) path")
          (auto simp: alone_inv_def s disk_ok_def readName_def gmap_simps nth_append less_Suc_eq split: if_splits)
    next
      case (Some i)
      then show ?thesis
        using assms ok Opening readName_other [OF ok Some, of path "[]"]
        by (auto simp: alone_inv_def s disk_ok_def)
    qed
  next
    case (Writing i)
    then have i: "gget (dk_names d) (path @ ''.tmp'') = Some i" using assms by (simp add: alone_inv_def s)
    then show ?thesis
      using assms ok Writing readName_other [OF ok i, of path content]
      by (auto simp: alone_inv_def s disk_ok_def readName_def)
  next
    case Renaming
    then obtain i where i: "gget (dk_names d) (path @ ''.tmp'') = Some i" "dk_inodes d ! i = content"
      using assms by (auto simp: alone_inv_def s readName_def)
    then show ?thesis
      using assms ok Renaming by (auto simp: alone_inv_def s disk_ok_def readName_def gmap_simps split: if_splits)
  qed (use assms in \<open>simp_all add: alone_inv_def s\<close>)
qed

lemma alone_run: "alone_inv path content old s \<Longrightarrow> alone_inv path content old ((writerStep path content ^^ n) s)"
  by (induction n) (simp_all add: alone_step)

definition finished :: "phase \<Rightarrow> bool" where
  "finished ph \<longleftrightarrow> ph = Unchanged \<or> ph = Replaced \<or> ph = Broken"

lemma finished_run: "finished ph \<Longrightarrow> (writerStep path content ^^ n) (d, ph) = (d, ph)"
  by (induction n) (auto simp: finished_def)

lemma four_steps: "finished (snd ((writerStep path content ^^ 4) (d, Checking)))"
  by (simp add: eval_nat_numeral finished_def Let_def gmap_simps split: option.split)

text \<open>
  A writer that is alone is atomic at every system call: a reader of the path finds the old
  content or the complete new one after any number of calls, and after four calls the writer has
  ended without an error and the new content is there.
\<close>

theorem writer_alone_atomic:
  assumes "disk_ok d"
  shows "case (writerStep path content ^^ n) (d, Checking) of (d', ph) \<Rightarrow>
    (readName d' path = readName d path \<or> readName d' path = Some content) \<and>
    (4 \<le> n \<longrightarrow> readName d' path = Some content \<and> ph \<in> {Unchanged, Replaced})"
proof -
  obtain d' ph where s: "(writerStep path content ^^ n) (d, Checking) = (d', ph)" by fastforce
  have "alone_inv path content (readName d path) (d, Checking)" using assms by (simp add: alone_inv_def)
  from alone_run [OF this, of n] have inv: "alone_inv path content (readName d path) (d', ph)" unfolding s .
  obtain d4 p4 where f: "(writerStep path content ^^ 4) (d, Checking) = (d4, p4)" "finished p4"
    using four_steps [of path content d] by (metis prod.collapse)
  have "finished ph" if "4 \<le> n"
  proof -
    have "n = (n - 4) + 4" using that by simp
    then have "(writerStep path content ^^ n) (d, Checking) =
        (writerStep path content ^^ (n - 4)) ((writerStep path content ^^ 4) (d, Checking))"
      by (metis funpow_add comp_apply)
    then have "(d', ph) = (writerStep path content ^^ (n - 4)) (d4, p4)" unfolding s f(1) .
    then show ?thesis using finished_run [OF f(2)] f(2) by simp
  qed
  then show ?thesis
    using inv unfolding s by (cases ph) (auto simp: alone_inv_def finished_def)
qed

lemma writer_alone_atomic_witness:
  "readName (fst ((writerStep ''/u'' ''new'' ^^ 4) (oneFile ''/u'' ''old'', Checking))) ''/u'' = Some ''new''"
proof -
  have "disk_ok (oneFile ''/u'' ''old'')" by (simp add: disk_ok_def oneFile_def)
  from writer_alone_atomic [OF this, of "''/u''" "''new''" 4] show ?thesis by (auto split: prod.splits)
qed

section \<open>Two writers are not\<close>

text \<open>
  Two overlapping writers share the temporary file. When both have opened it and then
  both write, the shorter text overwrites the head of the longer one; the first rename puts the
  mixture in place with success, and the second writer fails for want of a temporary file. When one
  truncates what the other is about to rename, the file in place is empty.
\<close>

theorem overlapping_writers_tear:
  assumes "c1 \<noteq> old" "c2 \<noteq> old"
  shows "(case turns path c1 c2 (oneFile path old) [True, True, False, False, True, False, True, False] of (d', p1, p2) \<Rightarrow>
      p1 = Replaced \<and> p2 = Broken \<and> readName d' path = Some (c2 @ drop (length c2) c1)) \<and>
    (case turns path c1 c2 (oneFile path old) [True, True, True, False, False, True] of (d', p1, p2) \<Rightarrow>
      p1 = Replaced \<and> readName d' path = Some [])"
  using assms by (simp add: turns_def readName_def oneFile_def gmap_simps)

lemma overlapping_writers_tear_witness:
  "readName (fst (turns ''/u'' ''abcd'' ''xy'' (oneFile ''/u'' ''old'') [True, True, False, False, True, False, True, False])) ''/u'' =
     Some ''xycd''"
  using overlapping_writers_tear [of "''abcd''" "''old''" "''xy''" "''/u''"] by (auto split: prod.splits)

end
