(* ===== verification/Watches.thy ===== *)
theory Watches
  imports Reconcile ConfigSync Resolver NetVars ConfigHash
begin

text \<open>
  The watches of the reconcilers (their \<open>SetupWithManager\<close>): which change of which object enqueues
  which keys. A watch has a kind, a predicate on events and a handler, as controller-runtime
  takes them; \<open>deliver\<close> is what an informer event becomes for a list of watches.
\<close>

section \<open>Events\<close>

text \<open>The objects the informers deliver; an EndpointSlice is stored under its Service's label.\<close>

datatype k8s_object =
    ObjIngress ingress | ObjIngressClass ingress_class | ObjService service
  | ObjEndpointSlice string string ep_slice | ObjSecret secret | ObjConfigMap configmap | ObjNode node
  | ObjHTTPRoute http_route | ObjGateway gateway | ObjGatewayClass gateway_class

datatype kind =
    KIngress | KIngressClass | KService | KEndpointSlice | KSecret | KConfigMap | KNode
  | KHTTPRoute | KGateway | KGatewayClass

fun kindOf :: "k8s_object \<Rightarrow> kind" where
  "kindOf (ObjIngress _) = KIngress"
| "kindOf (ObjIngressClass _) = KIngressClass"
| "kindOf (ObjService _) = KService"
| "kindOf (ObjEndpointSlice _ _ _) = KEndpointSlice"
| "kindOf (ObjSecret _) = KSecret"
| "kindOf (ObjConfigMap _) = KConfigMap"
| "kindOf (ObjNode _) = KNode"
| "kindOf (ObjHTTPRoute _) = KHTTPRoute"
| "kindOf (ObjGateway _) = KGateway"
| "kindOf (ObjGatewayClass _) = KGatewayClass"

text \<open>An update carries the old and the new object, a deletion the last known one.\<close>

datatype api_event = Created k8s_object | Updated k8s_object k8s_object | Deleted k8s_object

fun subject :: "api_event \<Rightarrow> k8s_object" where
  "subject (Created x) = x"
| "subject (Updated old new) = new"
| "subject (Deleted x) = x"

section \<open>Watches\<close>

type_synonym request = "string \<times> string"

record watch =
  wa_kind :: kind
  wa_pred :: "api_event \<Rightarrow> bool"
  wa_handler :: "api_event \<Rightarrow> request list"

text \<open>\<^verbatim>\<open>predicate.NewPredicateFuncs\<close> filters an update by its new object.\<close>

definition NewPredicateFuncs :: "(k8s_object \<Rightarrow> bool) \<Rightarrow> api_event \<Rightarrow> bool" where
  "NewPredicateFuncs p e \<longleftrightarrow> p (subject e)"

text \<open>Only the watches on ConfigMaps and Secrets ask for the key of the object itself.\<close>

fun objectKey :: "k8s_object \<Rightarrow> request" where
  "objectKey (ObjConfigMap x) = (cm_ns x, cm_name x)"
| "objectKey (ObjSecret x) = (sec_ns x, sec_name x)"
| "objectKey _ = ([], [])"

definition EnqueueRequestForObject :: "api_event \<Rightarrow> request list" where
  "EnqueueRequestForObject e = [objectKey (subject e)]"

definition Watch :: "kind \<Rightarrow> (api_event \<Rightarrow> request list) \<Rightarrow> watch" where
  "Watch k h = \<lparr>wa_kind = k, wa_pred = (\<lambda>_. True), wa_handler = h\<rparr>"

definition WatchIf :: "kind \<Rightarrow> (api_event \<Rightarrow> request list) \<Rightarrow> (api_event \<Rightarrow> bool) \<Rightarrow> watch" where
  "WatchIf k h p = \<lparr>wa_kind = k, wa_pred = p, wa_handler = h\<rparr>"

definition deliver :: "watch list \<Rightarrow> api_event \<Rightarrow> request list" where
  "deliver ws e =
     concat (map (\<lambda>w. if wa_kind w = kindOf (subject e) \<and> wa_pred w e then wa_handler w e else []) ws)"

lemma deliver_simps [simp]:
  "deliver [] e = []"
  "deliver (ws @ vs) e = deliver ws e @ deliver vs e"
  "deliver (Watch k h # ws) e = (if k = kindOf (subject e) then h e else []) @ deliver ws e"
  "deliver (WatchIf k h p # ws) e = (if k = kindOf (subject e) \<and> p e then h e else []) @ deliver ws e"
  by (simp_all add: deliver_def Watch_def WatchIf_def)

section \<open>The reconcilers\<close>

text \<open>Any change rebuilds everything: one key stands for the whole pass.\<close>

definition rebuild :: request where
  "rebuild = ([], ''rebuild'')"

definition enqueueRebuild :: "api_event \<Rightarrow> request list" where
  "enqueueRebuild e = [rebuild]"

definition SecretTypeTLS :: string where
  "SecretTypeTLS = ''kubernetes.io/tls''"

fun isTLSSecret :: "k8s_object \<Rightarrow> bool" where
  "isTLSSecret (ObjSecret s) = (sec_type s = SecretTypeTLS)"
| "isTLSSecret _ = False"

definition ingressSetup :: "ing_cfg \<Rightarrow> watch list" where
  "ingressSetup cfg =
     [Watch KIngress enqueueRebuild, Watch KIngressClass enqueueRebuild, Watch KService enqueueRebuild] @
     (if cf_resolve_eps cfg then [Watch KEndpointSlice enqueueRebuild] else []) @
     (if cf_certs_dir cfg \<noteq> [] \<or> usesCertsSecretOutput cfg
      then [WatchIf KSecret enqueueRebuild (NewPredicateFuncs isTLSSecret)] else []) @
     (if cf_gateway_api cfg
      then [Watch KHTTPRoute enqueueRebuild, Watch KGateway enqueueRebuild, Watch KGatewayClass enqueueRebuild]
      else [])"

text \<open>The config-hash controller: labelled ConfigMaps and Secrets; no selector means every object.\<close>

definition selector :: "(labels \<Rightarrow> bool) option \<Rightarrow> labels \<Rightarrow> bool" where
  "selector sel = (case sel of None \<Rightarrow> (\<lambda>_. True) | Some s \<Rightarrow> s)"

fun objectLabels :: "k8s_object \<Rightarrow> labels" where
  "objectLabels (ObjConfigMap cm) = cm_labels cm"
| "objectLabels (ObjSecret s) = sec_labels s"
| "objectLabels _ = []"

definition hashSetup :: "(labels \<Rightarrow> bool) option \<Rightarrow> watch list" where
  "hashSetup sel =
     [WatchIf KConfigMap EnqueueRequestForObject (NewPredicateFuncs (\<lambda>x. selector sel (objectLabels x))),
      WatchIf KSecret EnqueueRequestForObject (NewPredicateFuncs (\<lambda>x. selector sel (objectLabels x)))]"

definition syncSetup :: "sync_cfg \<Rightarrow> watch list" where
  "syncSetup cfg = [WatchIf KConfigMap EnqueueRequestForObject (NewPredicateFuncs (\<lambda>x. wants cfg (objectKey x)))]"

text \<open>The resolvers: \<open>listing\<close> is the answer of the handler's own list call.\<close>

fun sourcePredicate :: "k8s_object \<Rightarrow> bool" where
  "sourcePredicate (ObjConfigMap cm) = isResolverSource cm"
| "sourcePredicate _ = False"

definition resolverSetup :: "configmap list option \<Rightarrow> watch list" where
  "resolverSetup listing =
     [WatchIf KConfigMap EnqueueRequestForObject (NewPredicateFuncs sourcePredicate),
      Watch KService (\<lambda>_. enqueueAllSources listing)]"

fun netVarsSourcePredicate :: "k8s_object \<Rightarrow> bool" where
  "netVarsSourcePredicate (ObjConfigMap cm) = isNetVarsSource cm"
| "netVarsSourcePredicate _ = False"

definition enqueueNetVarsSources :: "configmap list option \<Rightarrow> request list" where
  "enqueueNetVarsSources listing =
     (case listing of
        None \<Rightarrow> []
      | Some cms \<Rightarrow> map (\<lambda>cm. (cm_ns cm, cm_name cm))
          (filter (\<lambda>cm. gget (cm_labels cm) NetVarsSourceLabel = Some ''true'') cms))"

definition netVarsSetup :: "configmap list option \<Rightarrow> watch list" where
  "netVarsSetup listing =
     [WatchIf KConfigMap EnqueueRequestForObject (NewPredicateFuncs netVarsSourcePredicate),
      Watch KNode (\<lambda>_. enqueueNetVarsSources listing),
      Watch KService (\<lambda>_. enqueueNetVarsSources listing)]"

lemmas setup_defs = ingressSetup_def hashSetup_def syncSetup_def resolverSetup_def netVarsSetup_def
  NewPredicateFuncs_def EnqueueRequestForObject_def enqueueRebuild_def

section \<open>What the ingress controller is told\<close>

definition wants_certs :: "ing_cfg \<Rightarrow> bool" where
  "wants_certs cfg \<longleftrightarrow> cf_certs_dir cfg \<noteq> [] \<or> usesCertsSecretOutput cfg"

lemma ingress_delivers:
  "deliver (ingressSetup cfg) e =
     (if kindOf (subject e) \<in> {KIngress, KIngressClass, KService} \<or>
         cf_resolve_eps cfg \<and> kindOf (subject e) = KEndpointSlice \<or>
         wants_certs cfg \<and> isTLSSecret (subject e) \<or>
         cf_gateway_api cfg \<and> kindOf (subject e) \<in> {KHTTPRoute, KGateway, KGatewayClass}
      then [rebuild] else [])"
  by (cases "subject e") (auto simp: setup_defs wants_certs_def)

end
