(* ===== verification/WorkQueue.thy ===== *)
theory WorkQueue
  imports Prelude
begin

text \<open>
  How a reconciler runs: its watches turn changes of the API into keys of a work queue, and one
  worker (\<^verbatim>\<open>MaxConcurrentReconciles\<close> is 1 throughout) takes a key, reads the API while it keeps
  changing, and writes. A key that is queued while it is being worked on is worked on again, and a
  failed key is queued again. The step relation is shared by all reconcilers of the program; the
  locale says what a reconciler has to bring along so that no change is lost, and the theorems
  inside it are the consequences.
\<close>

section \<open>The step relation\<close>

text \<open>
  \<open>cs_run\<close> is the key in work with the states the API went through since the work began,
  the latest first.
\<close>

record ('a, 'w, 'k) ctl_state =
  cs_api :: 'a
  cs_out :: 'w
  cs_queue :: "'k set"
  cs_run :: "('k \<times> 'a list) option"

text \<open>
  \<open>watch e a\<close> are the keys event \<open>e\<close> enqueues when the API has become \<open>a\<close>; \<open>env e\<close> is the change
  the event stands for; \<open>answers seen b\<close> says that a run may have read the answers \<open>b\<close> when the
  API went through \<open>seen\<close>; \<open>run k b w r w'\<close> is a reconcile of \<open>k\<close> over those answers.
\<close>

inductive ctl_step ::
  "('e \<Rightarrow> 'a \<Rightarrow> 'k list) \<Rightarrow> ('e \<Rightarrow> 'a \<Rightarrow> 'a \<Rightarrow> bool) \<Rightarrow> ('a list \<Rightarrow> 'a \<Rightarrow> bool)
    \<Rightarrow> ('k \<Rightarrow> 'a \<Rightarrow> 'w \<Rightarrow> string option \<Rightarrow> 'w \<Rightarrow> bool) \<Rightarrow> ('a, 'w, 'k) ctl_state \<Rightarrow> ('a, 'w, 'k) ctl_state \<Rightarrow> bool"
  for watch env answers run where
  Change: "env e (cs_api s) a' \<Longrightarrow>
     ctl_step watch env answers run s
       (s\<lparr>cs_api := a', cs_queue := cs_queue s \<union> set (watch e a'),
          cs_run := map_option (\<lambda>(k, seen). (k, a' # seen)) (cs_run s)\<rparr>)"
| Begin: "k \<in> cs_queue s \<Longrightarrow> cs_run s = None \<Longrightarrow>
     ctl_step watch env answers run s
       (s\<lparr>cs_queue := cs_queue s - {k}, cs_run := Some (k, [cs_api s])\<rparr>)"
| Done: "cs_run s = Some (k, seen) \<Longrightarrow> answers seen b \<Longrightarrow> run k b (cs_out s) None w' \<Longrightarrow>
     ctl_step watch env answers run s (s\<lparr>cs_out := w', cs_run := None\<rparr>)"
| Retry: "cs_run s = Some (k, seen) \<Longrightarrow> answers seen b \<Longrightarrow> run k b (cs_out s) (Some err) w' \<Longrightarrow>
     ctl_step watch env answers run s
       (s\<lparr>cs_out := w', cs_queue := insert k (cs_queue s), cs_run := None\<rparr>)"

inductive_cases ctl_stepE: "ctl_step watch env answers run s t"

text \<open>The steps of the worker alone, when its runs succeed and the API is left as it is.\<close>

inductive work_step ::
  "('a list \<Rightarrow> 'a \<Rightarrow> bool) \<Rightarrow> ('k \<Rightarrow> 'a \<Rightarrow> 'w \<Rightarrow> string option \<Rightarrow> 'w \<Rightarrow> bool)
    \<Rightarrow> ('a, 'w, 'k) ctl_state \<Rightarrow> ('a, 'w, 'k) ctl_state \<Rightarrow> bool"
  for answers run where
  Take: "k \<in> cs_queue s \<Longrightarrow> cs_run s = None \<Longrightarrow>
     work_step answers run s (s\<lparr>cs_queue := cs_queue s - {k}, cs_run := Some (k, [cs_api s])\<rparr>)"
| Finish: "cs_run s = Some (k, seen) \<Longrightarrow> answers seen b \<Longrightarrow> run k b (cs_out s) None w' \<Longrightarrow>
     work_step answers run s (s\<lparr>cs_out := w', cs_run := None\<rparr>)"

lemma work_step_ctl: "work_step answers run s t \<Longrightarrow> ctl_step watch env answers run s t"
  by (induction rule: work_step.induct) (blast intro: ctl_step.intros)+

text \<open>The work left: two steps for each queued key, and one for the key in work.\<close>

definition load :: "('a, 'w, 'k) ctl_state \<Rightarrow> nat" where
  "load s = 2 * card (cs_queue s) + (case cs_run s of None \<Rightarrow> 0 | Some _ \<Rightarrow> 1)"

lemma load_step:
  assumes "work_step answers run s t" "finite (cs_queue s)"
  shows "load s = Suc (load t) \<and> finite (cs_queue t)"
  using assms
proof (induction rule: work_step.induct)
  case (Take k s)
  then have "card (cs_queue s) = Suc (card (cs_queue s - {k}))" by (metis card_Suc_Diff1)
  then show ?case using Take by (simp add: load_def)
qed (simp add: load_def)

lemma load_steps:
  "(work_step answers run ^^ n) s t \<Longrightarrow> finite (cs_queue s) \<Longrightarrow> load s = n + load t \<and> finite (cs_queue t)"
proof (induction n arbitrary: t)
  case (Suc n)
  then obtain u where "(work_step answers run ^^ n) s u" "work_step answers run u t" by (auto elim: relpowp_Suc_E)
  then show ?case using Suc.IH [of u] load_step Suc.prems(2) by fastforce
qed simp

text \<open>Nothing left to do.\<close>

definition idle :: "('a, 'w, 'k) ctl_state \<Rightarrow> bool" where
  "idle s \<longleftrightarrow> cs_queue s = {} \<and> cs_run s = None"

lemma load_idle: "finite (cs_queue s) \<Longrightarrow> load s = 0 \<longleftrightarrow> idle s"
  by (auto simp: load_def idle_def split: option.splits)

section \<open>What a reconciler promises\<close>

text \<open>
  The keys that share an output form a part \<open>g\<close>. \<open>view g a\<close> is what the part depends on and
  \<open>current g v w\<close> says that its output is the one for \<open>v\<close>.
\<close>

locale reconciler =
  fixes watch :: "'e \<Rightarrow> 'a \<Rightarrow> 'k list"
    and env :: "'e \<Rightarrow> 'a \<Rightarrow> 'a \<Rightarrow> bool"
    and answers :: "'a list \<Rightarrow> 'a \<Rightarrow> bool"
    and run :: "'k \<Rightarrow> 'a \<Rightarrow> 'w \<Rightarrow> string option \<Rightarrow> 'w \<Rightarrow> bool"
    and part :: "'k \<Rightarrow> 'g"
    and view :: "'g \<Rightarrow> 'a \<Rightarrow> 'v"
    and current :: "'g \<Rightarrow> 'v \<Rightarrow> 'w \<Rightarrow> bool"
    and sound :: "'a \<Rightarrow> bool"
  assumes env_sound: "sound a \<Longrightarrow> env e a a' \<Longrightarrow> sound a'"
    and watched: "sound a \<Longrightarrow> env e a a' \<Longrightarrow> g \<notin> part ` set (watch e a') \<Longrightarrow>
      view g a' = view g a \<or> (\<forall>w. current g (view g a') w)"
    and works: "seen \<noteq> [] \<Longrightarrow> \<forall>x \<in> set seen. sound x \<and> view (part k) x = v \<Longrightarrow> answers seen b \<Longrightarrow>
      run k b w None w' \<Longrightarrow> current (part k) v w'"
    and apart: "seen \<noteq> [] \<Longrightarrow> \<forall>x \<in> set seen. sound x \<Longrightarrow> answers seen b \<Longrightarrow> run k b w r w' \<Longrightarrow>
      part k \<noteq> g \<Longrightarrow> current g v w \<Longrightarrow> current g v w'"
begin

abbreviation step :: "('a, 'w, 'k) ctl_state \<Rightarrow> ('a, 'w, 'k) ctl_state \<Rightarrow> bool" where
  "step \<equiv> ctl_step watch env answers run"

definition pending :: "('a, 'w, 'k) ctl_state \<Rightarrow> 'g \<Rightarrow> bool" where
  "pending s g \<longleftrightarrow> g \<in> part ` cs_queue s"

definition working :: "('a, 'w, 'k) ctl_state \<Rightarrow> 'g \<Rightarrow> bool" where
  "working s g \<longleftrightarrow> (case cs_run s of None \<Rightarrow> False | Some (k, _) \<Rightarrow> part k = g)"

text \<open>A run whose part is not pending has seen one view only, the present one, unless the part is
  idle whatever its output is.\<close>

definition run_ok :: "('a, 'w, 'k) ctl_state \<Rightarrow> bool" where
  "run_ok s \<longleftrightarrow> (case cs_run s of None \<Rightarrow> True
     | Some (k, seen) \<Rightarrow> seen \<noteq> [] \<and> (\<forall>x \<in> set seen. sound x) \<and>
         (pending s (part k) \<or> (\<forall>x \<in> set seen. view (part k) x = view (part k) (cs_api s)) \<or>
          (\<forall>w. current (part k) (view (part k) (cs_api s)) w)))"

definition loop_inv :: "('a, 'w, 'k) ctl_state \<Rightarrow> bool" where
  "loop_inv s \<longleftrightarrow> sound (cs_api s) \<and> run_ok s \<and>
     (\<forall>g. pending s g \<or> working s g \<or> current g (view g (cs_api s)) (cs_out s))"

lemma inv_change:
  assumes "loop_inv s" "env e (cs_api s) a'"
  shows "loop_inv (s\<lparr>cs_api := a', cs_queue := cs_queue s \<union> set (watch e a'),
    cs_run := map_option (\<lambda>(k, seen). (k, a' # seen)) (cs_run s)\<rparr>)" (is "loop_inv ?t")
proof -
  have a: "sound (cs_api s)" using assms(1) by (simp add: loop_inv_def)
  have a': "sound a'" using env_sound [OF a assms(2)] .
  have grow: "pending s g \<Longrightarrow> pending ?t g" for g by (auto simp: pending_def)
  have same: "view g a' = view g (cs_api s) \<or> (\<forall>w. current g (view g a') w)" if "\<not> pending ?t g" for g
    using watched [OF a assms(2), of g] that by (auto simp: pending_def)
  have work: "working ?t g = working s g" for g by (cases "cs_run s") (auto simp: working_def)
  have "run_ok ?t"
  proof (cases "cs_run s")
    case (Some ks)
    then show ?thesis
      using assms(1) a' same [of "part (fst ks)"] grow
      by (cases ks) (auto simp: loop_inv_def run_ok_def)
  qed (simp add: run_ok_def)
  moreover have "current g (view g a') (cs_out s)" if "\<not> pending ?t g" "\<not> working ?t g" for g
    using that assms(1) same [OF that(1)] grow [of g] work [of g] unfolding loop_inv_def by metis
  ultimately show ?thesis using a' by (auto simp: loop_inv_def)
qed

lemma inv_done:
  assumes inv: "loop_inv s" and run: "cs_run s = Some (k, seen)" "answers seen b" "run k b (cs_out s) r w'"
    and q: "r = None \<and> q = cs_queue s \<or> q = insert k (cs_queue s)"
  shows "loop_inv (s\<lparr>cs_out := w', cs_queue := q, cs_run := None\<rparr>)" (is "loop_inv ?t")
proof -
  have seen: "seen \<noteq> []" "\<forall>x \<in> set seen. sound x" using inv run(1) by (auto simp: loop_inv_def run_ok_def)
  have "current g (view g (cs_api s)) w'" if g: "\<not> pending ?t g" for g
  proof (cases "part k = g")
    case True
    then have "r = None" "\<not> pending s (part k)" using q g by (auto simp: pending_def)
    then show ?thesis
      using inv run seen works [of seen k "view g (cs_api s)" b "cs_out s" w'] True
      by (auto simp: loop_inv_def run_ok_def)
  next
    case False
    moreover have "\<not> pending s g" "\<not> working s g" using g q False run(1) by (auto simp: pending_def working_def)
    ultimately show ?thesis using apart [OF seen run(2,3)] inv by (auto simp: loop_inv_def)
  qed
  then show ?thesis using inv by (auto simp: loop_inv_def run_ok_def)
qed

lemma inv_begin:
  assumes "loop_inv s" "k \<in> cs_queue s" "cs_run s = None"
  shows "loop_inv (s\<lparr>cs_queue := cs_queue s - {k}, cs_run := Some (k, [cs_api s])\<rparr>)"
  using assms by (auto simp: loop_inv_def run_ok_def pending_def working_def)

lemma inv_step: "step s t \<Longrightarrow> loop_inv s \<Longrightarrow> loop_inv t"
proof (induction rule: ctl_step.induct)
  case (Done s k seen b w')
  then show ?case using inv_done [OF Done(4,1-3), of "cs_queue s"] by simp
next
  case (Retry s k seen b err w')
  then show ?case using inv_done [OF Retry(4,1-3), of "insert k (cs_queue s)"] by simp
qed (blast intro: inv_change inv_begin)+

lemma inv_steps: "step\<^sup>*\<^sup>* s t \<Longrightarrow> loop_inv s \<Longrightarrow> loop_inv t"
  by (induction rule: rtranclp_induct) (blast intro: inv_step)+

text \<open>No change is lost: what is neither queued nor in work is current.\<close>

lemma nothing_lost:
  assumes "loop_inv s" "step\<^sup>*\<^sup>* s t" "idle t"
  shows "current g (view g (cs_api t)) (cs_out t)"
  using inv_steps [OF assms(2,1)] assms(3) by (auto simp: loop_inv_def idle_def pending_def working_def)

end

section \<open>When runs succeed\<close>

text \<open>\<open>calm\<close>: nothing fails at the moment; it stays so while the worker works.\<close>

locale calm_reconciler = reconciler +
  fixes calm :: "'b \<Rightarrow> 'd \<Rightarrow> bool"
  assumes succeeds: "sound a \<Longrightarrow> calm a w \<Longrightarrow> \<exists>b w'. answers [a] b \<and> run k b w None w'"
    and stays_calm: "sound a \<Longrightarrow> calm a w \<Longrightarrow> answers [a] b \<Longrightarrow> run k b w None w' \<Longrightarrow> calm a w'"
begin

abbreviation work :: "('b, 'd, 'c) ctl_state \<Rightarrow> ('b, 'd, 'c) ctl_state \<Rightarrow> bool" where
  "work \<equiv> work_step answers run"

definition calm_state :: "('b, 'd, 'c) ctl_state \<Rightarrow> bool" where
  "calm_state s \<longleftrightarrow> sound (cs_api s) \<and> calm (cs_api s) (cs_out s) \<and>
     (cs_run s = None \<or> (\<exists>k. cs_run s = Some (k, [cs_api s])))"

lemma calm_step: "work s t \<Longrightarrow> calm_state s \<Longrightarrow> calm_state t \<and> cs_api t = cs_api s"
  by (induction rule: work_step.induct) (auto simp: calm_state_def intro: stays_calm)

lemma calm_steps: "(work ^^ n) s t \<Longrightarrow> calm_state s \<Longrightarrow> calm_state t \<and> cs_api t = cs_api s"
proof (induction n arbitrary: t)
  case (Suc n)
  then obtain u where "(work ^^ n) s u" "work u t" by (auto elim: relpowp_Suc_E)
  then show ?case using Suc.IH [of u] calm_step Suc.prems(2) by fastforce
qed simp

lemma calm_progress:
  assumes "calm_state s" "\<not> idle s"
  shows "\<exists>t. work s t"
proof (cases "cs_run s")
  case None
  then show ?thesis using assms(2) Take [of _ s] by (auto simp: idle_def)
next
  case (Some kr)
  then obtain k where k: "cs_run s = Some (k, [cs_api s])" using assms(1) by (auto simp: calm_state_def)
  then show ?thesis using assms(1) succeeds [of "cs_api s" "cs_out s" k] Finish [OF k] unfolding calm_state_def by blast
qed

text \<open>
  The worker terminates: however it goes on, it takes as many steps as there is work left, it can only
  stop when nothing is left, and what it leaves is current.
\<close>

lemma terminates:
  assumes "loop_inv s" "step\<^sup>*\<^sup>* s t" "finite (cs_queue t)" "calm_state t" "(work ^^ n) t u"
  shows "n + load u = load t \<and> cs_api u = cs_api t \<and>
    ((\<nexists>v. work u v) \<longrightarrow> idle u \<and> (\<forall>g. current g (view g (cs_api t)) (cs_out u)))"
proof -
  have n: "n + load u = load t" using load_steps [OF assms(5,3)] by simp
  have c: "calm_state u" "cs_api u = cs_api t" using calm_steps [OF assms(5,4)] by simp_all
  have "work\<^sup>*\<^sup>* t u" using relpowp_imp_rtranclp [OF assms(5)] .
  then have "step\<^sup>*\<^sup>* t u" by (rule rtranclp_mono [THEN predicate2D, rotated]) (blast intro: work_step_ctl)
  then have "step\<^sup>*\<^sup>* s u" using assms(2) by simp
  then show ?thesis using n c calm_progress [OF c(1)] nothing_lost [OF assms(1), of u] by metis
qed

text \<open>In particular it gets there.\<close>

lemma catches_up:
  assumes "loop_inv s" "step\<^sup>*\<^sup>* s t" "finite (cs_queue t)" "calm_state t"
  shows "\<exists>u. (work ^^ load t) t u \<and> idle u \<and> cs_api u = cs_api t \<and> (\<forall>g. current g (view g (cs_api t)) (cs_out u))"
proof -
  have "\<exists>u. (work ^^ load t) t u \<and> idle u" using assms(3,4)
  proof (induction "load t" arbitrary: t)
    case 0
    then show ?case using load_idle [of t] by auto
  next
    case (Suc n)
    then have "\<not> idle t" using load_idle [of t] by simp
    then obtain v where v: "work t v" using calm_progress Suc.prems(2) by blast
    have "n = load v" "finite (cs_queue v)" "calm_state v"
      using load_step [OF v Suc.prems(1)] calm_step [OF v Suc.prems(2)] Suc.hyps(2) by simp_all
    from Suc.hyps(1) [OF this] obtain u where "(work ^^ load v) v u" "idle u" by blast
    moreover have "(work ^^ Suc (load v)) t u" using v \<open>(work ^^ load v) v u\<close> by (rule relpowp_Suc_I2)
    ultimately show ?case using \<open>n = load v\<close> Suc.hyps(2) by metis
  qed
  then obtain u where u: "(work ^^ load t) t u" "idle u" by blast
  then have "\<nexists>v. work u v" by (auto simp: idle_def elim: work_step.cases)
  then show ?thesis using terminates [OF assms u(1)] u by blast
qed

end

end
