(* ===== verification/IngressLoop.thy ===== *)
theory IngressLoop
  imports Scenario Watches WorkQueue
begin

text \<open>
  The ingress controller as a process: its watches, its one-key work queue and its render passes
  over an API that keeps changing, also while a pass reads it. The theory shows that the watches
  cover everything a document depends on, so the document on disk follows the cluster, and where
  they do not.
\<close>

section \<open>The cluster changes\<close>

text \<open>
  The change of the API an event stands for. Objects that are only listed may be listed anyhow
  afterwards; the type of a Secret never changes (the API server keeps it immutable).
\<close>

inductive api_change :: "api_event \<Rightarrow> api \<Rightarrow> api \<Rightarrow> bool" where
  Ingresses: "kindOf (subject e) = KIngress \<Longrightarrow> api_change e a (a\<lparr>list_ingresses := Some xs\<rparr>)"
| IngressClasses: "kindOf (subject e) = KIngressClass \<Longrightarrow> api_change e a (a\<lparr>list_ingress_classes := Some ics\<rparr>)"
| Service: "kindOf (subject e) = KService \<Longrightarrow> api_change e a (a\<lparr>get_service := svcs\<rparr>)"
| Slices: "kindOf (subject e) = KEndpointSlice \<Longrightarrow> api_change e a (a\<lparr>list_slices := sls\<rparr>)"
| Routes: "kindOf (subject e) = KHTTPRoute \<Longrightarrow> api_change e a (a\<lparr>list_http_routes := Some rts\<rparr>)"
| Gateways: "kindOf (subject e) = KGateway \<Longrightarrow> api_change e a (a\<lparr>list_gateways := Some gws\<rparr>)"
| GatewayClasses: "kindOf (subject e) = KGatewayClass \<Longrightarrow> api_change e a (a\<lparr>list_gateway_classes := Some gcs\<rparr>)"
| SecretCreated: "get_secret a (sec_ns s) (sec_name s) = None \<Longrightarrow>
    api_change (Created (ObjSecret s)) a
      (a\<lparr>get_secret := (get_secret a)(sec_ns s := (get_secret a (sec_ns s))(sec_name s \<mapsto> s))\<rparr>)"
| SecretUpdated: "get_secret a (sec_ns s) (sec_name s) = Some old \<Longrightarrow> sec_type old = sec_type s \<Longrightarrow>
    api_change (Updated (ObjSecret old) (ObjSecret s)) a
      (a\<lparr>get_secret := (get_secret a)(sec_ns s := (get_secret a (sec_ns s))(sec_name s \<mapsto> s))\<rparr>)"
| SecretDeleted: "get_secret a (sec_ns s) (sec_name s) = Some s \<Longrightarrow>
    api_change (Deleted (ObjSecret s)) a
      (a\<lparr>get_secret := (get_secret a)(sec_ns s := (get_secret a (sec_ns s))(sec_name s := None))\<rparr>)"
| Elsewhere: "kindOf (subject e) \<in> {KConfigMap, KNode} \<Longrightarrow> api_change e a a"

text \<open>The API answers every listing.\<close>

definition listed :: "api \<Rightarrow> bool" where
  "listed a \<longleftrightarrow> list_ingresses a \<noteq> None \<and> list_ingress_classes a \<noteq> None \<and> list_gateway_classes a \<noteq> None \<and>
     list_gateways a \<noteq> None \<and> list_http_routes a \<noteq> None"

text \<open>
  A read answers with one of some values, or fails (\<open>None\<close>, which the code takes for absence).
  \<open>flaky\<close> says whether reads other than the Ingress listing may fail.
\<close>

definition answered :: "bool \<Rightarrow> 'v option set \<Rightarrow> 'v option \<Rightarrow> bool" where
  "answered flaky vs r \<longleftrightarrow> r \<in> vs \<or> flaky \<and> r = None"

lemma answered_same: "answered flaky ((\<lambda>x. f x) ` S) r \<Longrightarrow> \<forall>x \<in> S. f x = v \<Longrightarrow> answered flaky {v} r"
  by (auto simp: answered_def)

text \<open>
  What a pass may have read while the API went through \<open>seen\<close>: each answer is the one of some
  state, not necessarily the same for all, or a failure.
\<close>

definition readDuring :: "bool \<Rightarrow> api list \<Rightarrow> api \<Rightarrow> bool" where
  "readDuring flaky seen b \<longleftrightarrow> seen \<noteq> [] \<and>
     (\<forall>ns n. answered flaky ((\<lambda>x. get_service x ns n) ` set seen) (get_service b ns n)) \<and>
     (\<forall>ns n. answered flaky ((\<lambda>x. list_slices x ns n) ` set seen) (list_slices b ns n)) \<and>
     (\<forall>ns n. answered flaky ((\<lambda>x. get_secret x ns n) ` set seen) (get_secret b ns n)) \<and>
     answered True (list_ingresses ` set seen) (list_ingresses b) \<and>
     answered flaky (list_ingress_classes ` set seen) (list_ingress_classes b) \<and>
     answered flaky (list_gateway_classes ` set seen) (list_gateway_classes b) \<and>
     answered flaky (list_gateways ` set seen) (list_gateways b) \<and>
     answered flaky (list_http_routes ` set seen) (list_http_routes b)"

text \<open>
  The cluster as it was read: every answer is the one of \<open>v\<close>, or a failed read; without flaky reads it
  is \<open>v\<close>.
\<close>

definition asRead :: "bool \<Rightarrow> api \<Rightarrow> api \<Rightarrow> bool" where
  "asRead flaky b v \<longleftrightarrow>
     (\<forall>ns n. answered flaky {get_service v ns n} (get_service b ns n)) \<and>
     (\<forall>ns n. answered flaky {list_slices v ns n} (list_slices b ns n)) \<and>
     (\<forall>ns n. answered flaky {get_secret v ns n} (get_secret b ns n)) \<and>
     list_ingresses b = list_ingresses v \<and>
     answered flaky {list_ingress_classes v} (list_ingress_classes b) \<and>
     answered flaky {list_gateway_classes v} (list_gateway_classes b) \<and>
     answered flaky {list_gateways v} (list_gateways b) \<and>
     answered flaky {list_http_routes v} (list_http_routes b)"

lemma asRead_steady: "asRead False b v \<longleftrightarrow> b = v"
  by (cases b; cases v) (auto simp: asRead_def answered_def fun_eq_iff)

lemma asRead_refl: "asRead flaky v v"
  by (simp add: asRead_def answered_def)

section \<open>What the controller watches\<close>

text \<open>The part of the API the watches cover; the rest is blanked out.\<close>

definition tls_only :: "secret option \<Rightarrow> secret option" where
  "tls_only so = (case so of Some s \<Rightarrow> if sec_type s = SecretTypeTLS then Some s else None | None \<Rightarrow> None)"

definition watchedView :: "ing_cfg \<Rightarrow> api \<Rightarrow> api" where
  "watchedView cfg a =
     \<lparr>get_service = get_service a,
      list_slices = if cf_resolve_eps cfg then list_slices a else (\<lambda>_ _. None),
      get_secret = if wants_certs cfg then (\<lambda>ns n. tls_only (get_secret a ns n)) else (\<lambda>_ _. None),
      list_ingresses = list_ingresses a, list_ingress_classes = list_ingress_classes a,
      list_gateway_classes = if cf_gateway_api cfg then list_gateway_classes a else None,
      list_gateways = if cf_gateway_api cfg then list_gateways a else None,
      list_http_routes = if cf_gateway_api cfg then list_http_routes a else None\<rparr>"

lemma view_fields:
  "get_service (watchedView cfg a) = get_service a" "list_ingresses (watchedView cfg a) = list_ingresses a"
  "list_ingress_classes (watchedView cfg a) = list_ingress_classes a"
  "cf_resolve_eps cfg \<Longrightarrow> list_slices (watchedView cfg a) = list_slices a"
  "cf_gateway_api cfg \<Longrightarrow> list_gateway_classes (watchedView cfg a) = list_gateway_classes a"
  "cf_gateway_api cfg \<Longrightarrow> list_gateways (watchedView cfg a) = list_gateways a"
  "cf_gateway_api cfg \<Longrightarrow> list_http_routes (watchedView cfg a) = list_http_routes a"
  by (simp_all add: watchedView_def)

text \<open>A change that is not delivered does not change the view.\<close>

lemma undelivered_view:
  assumes "api_change e a a'" "deliver (ingressSetup cfg) e = []"
  shows "watchedView cfg a' = watchedView cfg a"
  using assms
  by (cases rule: api_change.cases)
    (auto simp: ingress_delivers watchedView_def tls_only_def fun_eq_iff split: if_splits)

text \<open>The model of a pass depends on the view only.\<close>

definition passModelOf :: "(int \<Rightarrow> bool) \<Rightarrow> ing_cfg \<Rightarrow> api \<Rightarrow> render_model" where
  "passModelOf prt cfg a =
     fst (snd (passModel prt cfg a 0 (case list_ingresses a of None \<Rightarrow> [] | Some xs \<Rightarrow> xs) obs0))"

lemma passModel_eq:
  "list_ingresses a = Some ings \<Longrightarrow> fst (snd (passModel prt cfg a now ings o1)) = passModelOf prt cfg a"
  using passModel_only(2) [of prt cfg a now ings o1 0 obs0] by (simp add: passModelOf_def)

lemma view_backends:
  "backendAddr cfg (watchedView cfg a) = backendAddr cfg a"
  "backendServers cfg (watchedView cfg a) = backendServers cfg a"
proof -
  show addr: "backendAddr cfg (watchedView cfg a) = backendAddr cfg a"
    by (intro ext) (unfold backendAddr_def view_fields, rule refl)
  have eps: "endpointAddrs (watchedView cfg a) = endpointAddrs a" if "cf_resolve_eps cfg"
    by (intro ext) (unfold endpointAddrs_def view_fields(1) view_fields(4) [OF that], rule refl)
  show "backendServers cfg (watchedView cfg a) = backendServers cfg a"
  proof (cases "cf_resolve_eps cfg")
    case True
    show ?thesis by (intro ext) (unfold backendServers_def addr eps [OF True], rule refl)
  qed (intro ext, simp add: backendServers_def addr)
qed

lemma view_passModel: "passModel prt cfg (watchedView cfg a) = passModel prt cfg a"
proof -
  have one: "ingressOne prt cfg (watchedView cfg a) = ingressOne prt cfg a"
    by (rule ingressOne_cong) (rule view_backends)+
  have gw: "renderGateways prt cfg (watchedView cfg a) = renderGateways prt cfg a" if "cf_gateway_api cfg"
    by (intro ext) (unfold renderGateways_def view_fields(5-7) [OF that], rule refl)
  have m: "matchedIngs cfg (watchedView cfg a) = matchedIngs cfg a"
    by (intro ext) (unfold matchedIngs_def defaultClassIsOurs_def view_fields, rule refl)
  show ?thesis
    by (cases "cf_gateway_api cfg") (simp_all add: fun_eq_iff passModel_def renderIngresses_def one gw m)
qed

lemma view_passModelOf: "passModelOf prt cfg (watchedView cfg a) = passModelOf prt cfg a"
  by (simp add: passModelOf_def view_passModel view_fields)

lemma view_tlsPair:
  "tlsPair (watchedView cfg a) m stem = Some p \<Longrightarrow> tlsPair a m stem = Some p"
  by (auto simp: tlsPair_def watchedView_def tls_only_def Let_def split: option.splits if_splits)

text \<open>A pass that read while the view stayed the same has read that view.\<close>

lemma view_eq_iff:
  "watchedView cfg a = watchedView cfg b \<longleftrightarrow>
     get_service a = get_service b \<and> list_ingresses a = list_ingresses b \<and>
     list_ingress_classes a = list_ingress_classes b \<and> (cf_resolve_eps cfg \<longrightarrow> list_slices a = list_slices b) \<and>
     (wants_certs cfg \<longrightarrow> (\<forall>ns n. tls_only (get_secret a ns n) = tls_only (get_secret b ns n))) \<and>
     (cf_gateway_api cfg \<longrightarrow> list_gateway_classes a = list_gateway_classes b \<and> list_gateways a = list_gateways b \<and>
       list_http_routes a = list_http_routes b)"
  by (auto simp: watchedView_def fun_eq_iff)

lemma readDuring_view:
  assumes "readDuring flaky seen b" "\<forall>x \<in> set seen. watchedView cfg x = v" "list_ingresses b \<noteq> None"
  shows "asRead flaky (watchedView cfg b) v"
proof -
  obtain y where y: "y \<in> set seen" using assms(1) unfolding readDuring_def by (cases seen) auto
  then have f: "\<forall>x \<in> set seen. watchedView cfg x = watchedView cfg y" "v = watchedView cfg y"
    using assms(2) by simp_all
  note same = f(1)[unfolded view_eq_iff] and r = assms(1)[unfolded readDuring_def]
  have "answered flaky {get_service y ns n} (get_service b ns n)" for ns n
    using r same by (intro answered_same [of flaky "\<lambda>x. get_service x ns n" "set seen"]) simp_all
  moreover have "cf_resolve_eps cfg \<Longrightarrow> answered flaky {list_slices y ns n} (list_slices b ns n)" for ns n
    using r same by (intro answered_same [of flaky "\<lambda>x. list_slices x ns n" "set seen"]) simp_all
  moreover have "answered flaky {tls_only (get_secret y ns n)} (tls_only (get_secret b ns n))" if "wants_certs cfg" for ns n
  proof -
    have "answered flaky ((\<lambda>x. get_secret x ns n) ` set seen) (get_secret b ns n)" using r by blast
    then have "answered flaky ((\<lambda>x. tls_only (get_secret x ns n)) ` set seen) (tls_only (get_secret b ns n))"
      by (auto simp: answered_def tls_only_def)
    moreover have "\<forall>x \<in> set seen. tls_only (get_secret x ns n) = tls_only (get_secret y ns n)" using same that by simp
    ultimately show ?thesis by (rule answered_same)
  qed
  moreover have "list_ingresses b = list_ingresses y" using r same assms(3) by (auto simp: answered_def)
  moreover have "answered flaky {list_ingress_classes y} (list_ingress_classes b)"
    using r same by (intro answered_same [of flaky list_ingress_classes "set seen"]) simp_all
  moreover have "cf_gateway_api cfg \<Longrightarrow> answered flaky {list_gateway_classes y} (list_gateway_classes b)"
    using r same by (intro answered_same [of flaky list_gateway_classes "set seen"]) simp_all
  moreover have "cf_gateway_api cfg \<Longrightarrow> answered flaky {list_gateways y} (list_gateways b)"
    using r same by (intro answered_same [of flaky list_gateways "set seen"]) simp_all
  moreover have "cf_gateway_api cfg \<Longrightarrow> answered flaky {list_http_routes y} (list_http_routes b)"
    using r same by (intro answered_same [of flaky list_http_routes "set seen"]) simp_all
  ultimately show ?thesis unfolding f(2) asRead_def
    by (simp add: watchedView_def) (simp add: answered_def)
qed

section \<open>The output\<close>

text \<open>
  The output for an API state: the document of its model, and every certificate pair of the model
  whose Secret is usable.
\<close>

definition ingressCurrent :: "(int \<Rightarrow> bool) \<Rightarrow> ing_cfg \<Rightarrow> api \<Rightarrow> fsys \<Rightarrow> bool" where
  "ingressCurrent prt cfg a s \<longleftrightarrow>
     (let m = passModelOf prt cfg a; dir = cf_certs_dir cfg in
      gget (fs_files s) (cf_out_path cfg) = Some (renderDoc prt m) \<and>
      (dir \<noteq> [] \<longrightarrow> (\<forall>st crt key. ghas (rm_certs m) st \<longrightarrow> tlsPair a m st = Some (crt, key) \<longrightarrow>
         gget (fs_files s) (keyPath dir st) = Some key \<and> gget (fs_files s) (crtPath dir st) = Some crt)))"

text \<open>File mode, with the document apart from the certificate files.\<close>

definition file_mode :: "ing_cfg \<Rightarrow> bool" where
  "file_mode cfg \<longleftrightarrow> \<not> usesConfigMapOutput cfg \<and> \<not> usesCertsSecretOutput cfg \<and> out_apart cfg"

lemma view_current: "ingressCurrent prt cfg a s \<Longrightarrow> ingressCurrent prt cfg (watchedView cfg a) s"
  unfolding ingressCurrent_def Let_def view_passModelOf using view_tlsPair by blast

lemma render_listed: "render prt cs cc cfg a now w = (Inr res, w') \<Longrightarrow> list_ingresses a \<noteq> None"
  by (cases "list_ingresses a") (auto simp: render_def Let_def)

lemma render_current:
  assumes mode: "file_mode cfg" and run: "render prt cs cc cfg a now w = (Inr res, w')"
  shows "ingressCurrent prt cfg a (wd_fs w')"
proof -
  have fmode: "\<not> usesConfigMapOutput cfg" "\<not> usesCertsSecretOutput cfg" and out: "out_apart cfg"
    using mode by (simp_all add: file_mode_def)
  obtain ings where ings: "list_ingresses a = Some ings" using render_listed [OF run] by blast
  obtain k m o1 r w1 r2 w2 where st:
      "passModel prt cfg a now ings (inc MRenderTotal (wd_obs w)) = (k, m, o1)"
      "projectStage cs cfg a m (w\<lparr>wd_obs := o1\<rparr>) = (r, w1)"
      "writeStage cc cfg (renderDoc prt m) w1 = (r2, w2)"
      "render prt cs cc cfg a now w =
         (case r of Some e \<Rightarrow> (Inl e, failPass w1)
          | None \<Rightarrow> (case r2 of Inl e \<Rightarrow> (Inl e, failPass w2)
                    | Inr ch \<Rightarrow> (Inr (ch, k, hostCount m), finishPass cfg now m (matchedIngs cfg a ings) ch w2)))"
    by (rule render_stages [OF ings])
  obtain ch where r: "r = None" "r2 = Inr ch" and w': "wd_fs w' = wd_fs w2"
    using run unfolding st(4) by (auto simp: finishPass_def Let_def split: option.splits sum.splits)
  have m: "passModelOf prt cfg a = m" using passModel_eq [OF ings, of prt cfg now] st(1) by (metis fst_conv snd_conv)
  have safe: "stems_safe m" using pass_inv_passModel [of prt cfg a now ings] st(1) by (metis fst_conv pass_inv_def snd_conv)
  let ?p = "cf_out_path cfg" and ?dir = "cf_certs_dir cfg"
  obtain pr where pc: "projectCerts cfg a m (wd_fs w) o1 = (Inr pr, wd_fs w1, wd_obs w1)"
    using st(2) fmode r(1) by (auto simp: projectStage_def split: prod.splits sum.splits)
  obtain r3 where wr: "writeIfChanged (wd_fs w1) ?p (renderDoc prt m) = (r3, wd_fs w2)" "r3 = Inr ch"
    using st(3) fmode r by (auto simp: writeStage_def split: prod.splits sum.splits)
  note eff = writeIfChanged_effects [where s = "wd_fs w1" and path = ?p and content = "renderDoc prt m",
      unfolded wr prod.case sum.case]
  have "gget (fs_files (wd_fs w2)) (keyPath ?dir st) = Some key \<and> gget (fs_files (wd_fs w2)) (crtPath ?dir st) = Some crt"
    if d: "?dir \<noteq> []" "ghas (rm_certs m) st" "tlsPair a m st = Some (crt, key)" for st crt key
  proof -
    have "safe_stem st" using safe d(2) unfolding stems_safe_def ghas_iff by blast
    then have "{keyPath ?dir st, crtPath ?dir st} \<subseteq> certFiles ?dir"
      using pairPaths_certFiles [OF d(1), of "{st}"] by (simp add: pairPaths_def)
    then have "keyPath ?dir st \<notin> {?p, ?p @ ''.tmp''}" "crtPath ?dir st \<notin> {?p, ?p @ ''.tmp''}"
      using out by (auto simp: out_apart_def)
    then show ?thesis using projectCerts_pairs [OF d(1) safe pc d(2,3)] eff by (simp add: touches_def)
  qed
  then show ?thesis using eff by (simp add: ingressCurrent_def m w' ReadFile_def)
qed

text \<open>A reconcile of the one key.\<close>

definition ingressRun ::
  "(int \<Rightarrow> bool) \<Rightarrow> ('s, secret) cou \<Rightarrow> ('c, configmap) cou \<Rightarrow> ing_cfg
    \<Rightarrow> request \<Rightarrow> api \<Rightarrow> ('s, 'c) world \<Rightarrow> string option \<Rightarrow> ('s, 'c) world \<Rightarrow> bool" where
  "ingressRun prt cs cc cfg key a w r w' \<longleftrightarrow> (\<exists>now. reconcilePass prt cs cc cfg a now w = (r, w'))"

lemma ingressRun_render:
  assumes "ingressRun prt cs cc cfg key a w None w'"
  obtains now res where "render prt cs cc cfg a now w = (Inr res, w')"
proof -
  obtain now where "reconcilePass prt cs cc cfg a now w = (None, w')" using assms by (auto simp: ingressRun_def)
  then obtain res where "render prt cs cc cfg a now w = (Inr res, w')"
    by (cases "render prt cs cc cfg a now w"; cases "fst (render prt cs cc cfg a now w)") (simp_all add: reconcilePass_def)
  then show thesis by (rule that)
qed

lemma ingressRun_done:
  assumes "file_mode cfg" "ingressRun prt cs cc cfg key a w None w'"
  shows "ingressCurrent prt cfg a (wd_fs w')" "list_ingresses a \<noteq> None"
proof -
  obtain now res where r: "render prt cs cc cfg a now w = (Inr res, w')" by (rule ingressRun_render [OF assms(2)])
  show "ingressCurrent prt cfg a (wd_fs w')" by (rule render_current [OF assms(1) r])
  show "list_ingresses a \<noteq> None" by (rule render_listed [OF r])
qed

text \<open>Without failing file operations a pass succeeds.\<close>

lemma render_succeeds:
  assumes mode: "file_mode cfg" and io: "fs_fates (wd_fs w) = []" and ings: "list_ingresses a = Some ings"
  shows "\<exists>res w'. render prt cs cc cfg a now w = (Inr res, w') \<and> fs_fates (wd_fs w') = []"
proof -
  have fmode: "\<not> usesConfigMapOutput cfg" "\<not> usesCertsSecretOutput cfg" using mode by (simp_all add: file_mode_def)
  obtain k m o1 r w1 r2 w2 where st:
      "passModel prt cfg a now ings (inc MRenderTotal (wd_obs w)) = (k, m, o1)"
      "projectStage cs cfg a m (w\<lparr>wd_obs := o1\<rparr>) = (r, w1)"
      "writeStage cc cfg (renderDoc prt m) w1 = (r2, w2)"
      "render prt cs cc cfg a now w =
         (case r of Some e \<Rightarrow> (Inl e, failPass w1)
          | None \<Rightarrow> (case r2 of Inl e \<Rightarrow> (Inl e, failPass w2)
                    | Inr ch \<Rightarrow> (Inr (ch, k, hostCount m), finishPass cfg now m (matchedIngs cfg a ings) ch w2)))"
    by (rule render_stages [OF ings])
  have safe: "stems_safe m" using pass_inv_passModel [of prt cfg a now ings] st(1) by (metis fst_conv pass_inv_def snd_conv)
  have f1: "fs_fates (wd_fs w1) = []"
    using projectStage_frame(1) [OF safe st(2)] io by (simp add: touches_def)
  have r: "r = None"
  proof (cases "cf_certs_dir cfg = []")
    case False
    then show ?thesis
      using st(2) fmode projectCerts_ok [OF False safe, of "wd_fs w" a o1] io by (auto simp: projectStage_def)
  qed (use st(2) fmode in \<open>simp add: projectStage_def projectCerts_def\<close>)
  obtain r3 f where wr: "writeIfChanged (wd_fs w1) (cf_out_path cfg) (renderDoc prt m) = (r3, f)" by fastforce
  then have "\<exists>ch. r3 = Inr ch" "fs_fates f = []" using writeIfChanged_ok [OF f1, of "cf_out_path cfg" "renderDoc prt m"] by auto
  then show ?thesis
    using st(3,4) r writeStage_file [OF fmode(1) wr, of cc] by (auto simp: finishPass_file(1) [OF fmode(1)])
qed

lemma ingressRun_calm:
  assumes "file_mode cfg \<and> fs_fates (wd_fs w) = []" "ingressRun prt cs cc cfg key a w None w'"
  shows "fs_fates (wd_fs w') = []"
proof -
  obtain now res where r: "render prt cs cc cfg a now w = (Inr res, w')" by (rule ingressRun_render [OF assms(2)])
  obtain ings where "list_ingresses a = Some ings" using render_listed [OF r] by blast
  then show ?thesis using render_succeeds [of cfg w a ings prt cs cc now] assms(1) r by auto
qed

section \<open>The loop\<close>

abbreviation ingress_step where
  "ingress_step flaky prt cs cc cfg \<equiv>
     ctl_step (\<lambda>e _. deliver (ingressSetup cfg) e) api_change (readDuring flaky) (ingressRun prt cs cc cfg)"

text \<open>The contract of the work queue, on the code of the controller; the key is one for the whole cluster.\<close>

interpretation ingress: calm_reconciler "\<lambda>e _. deliver (ingressSetup cfg) e" api_change "readDuring flaky"
  "ingressRun prt cs cc cfg" "\<lambda>_. ()" "\<lambda>_. watchedView cfg"
  "\<lambda>_ v w. file_mode cfg \<longrightarrow> (\<exists>b. asRead flaky b v \<and> ingressCurrent prt cfg b (wd_fs w))" listed
  "\<lambda>_ w. file_mode cfg \<and> fs_fates (wd_fs w) = []"
  for flaky prt cs cc cfg
proof
  show "listed a'" if "listed a" "api_change e a a'" for a a' e
    using that(2,1) by cases (auto simp: listed_def)
  show "watchedView cfg a' = watchedView cfg a \<or> 
      (\<forall>w. file_mode cfg \<longrightarrow> (\<exists>b. asRead flaky b (watchedView cfg a') \<and> ingressCurrent prt cfg b (wd_fs w)))"
    if "api_change e a a'" "g \<notin> (\<lambda>_. ()) ` set (deliver (ingressSetup cfg) e)" for a a' e g
    using undelivered_view [OF that(1), of cfg] that(2) by (cases "deliver (ingressSetup cfg) e") auto
  show "file_mode cfg \<longrightarrow> (\<exists>b. asRead flaky b v \<and> ingressCurrent prt cfg b (wd_fs w'))"
    if "\<forall>x \<in> set seen. listed x \<and> watchedView cfg x = v" "readDuring flaky seen b" "ingressRun prt cs cc cfg k b w None w'"
    for seen v b k w w'
  proof
    assume mode: "file_mode cfg"
    note fin = ingressRun_done [OF mode that(3)]
    have "asRead flaky (watchedView cfg b) v" using readDuring_view [OF that(2) _ fin(2)] that(1) by blast
    then show "\<exists>b. asRead flaky b v \<and> ingressCurrent prt cfg b (wd_fs w')" using view_current fin(1) by blast
  qed
  show "\<exists>b w'. readDuring flaky [a] b \<and> ingressRun prt cs cc cfg k b w None w'"
    if l: "listed a" and io: "file_mode cfg \<and> fs_fates (wd_fs w) = []" for a w k
  proof -
    have "list_ingresses a \<noteq> None" using l by (simp add: listed_def)
    then obtain ings where "list_ingresses a = Some ings" by blast
    then obtain res w' where r: "render prt cs cc cfg a 0 w = (Inr res, w')"
      using render_succeeds [of cfg w a ings] io by blast
    then have "ingressRun prt cs cc cfg k a w None w'"
      unfolding ingressRun_def reconcilePass_def by (intro exI [of _ 0]) simp
    moreover have "readDuring flaky [a] a" by (simp add: readDuring_def answered_def)
    ultimately show ?thesis by blast
  qed
  show "file_mode cfg \<and> fs_fates (wd_fs w') = []"
    if io: "file_mode cfg \<and> fs_fates (wd_fs w) = []" and run: "ingressRun prt cs cc cfg k b w None w'" for w k b w'
    using ingressRun_calm [OF _ run] io by blast
qed auto

text \<open>A fresh start: the informers have delivered what exists, so the key is queued.\<close>

definition freshStart :: "api \<Rightarrow> ('s, 'c) world \<Rightarrow> (api, ('s, 'c) world, request) ctl_state" where
  "freshStart a w = \<lparr>cs_api = a, cs_out = w, cs_queue = {rebuild}, cs_run = None\<rparr>"

lemma fresh_inv: "listed a \<Longrightarrow> ingress.loop_inv flaky prt cfg (freshStart a w)"
  by (simp add: ingress.loop_inv_def ingress.run_ok_def ingress.pending_def freshStart_def)

text \<open>There is only one key.\<close>

lemma one_key_step:
  assumes "ingress_step flaky prt cs cc cfg s t" "cs_queue s \<subseteq> {rebuild}" "fst ` set_option (cs_run s) \<subseteq> {rebuild}"
  shows "cs_queue t \<subseteq> {rebuild} \<and> fst ` set_option (cs_run t) \<subseteq> {rebuild}"
  using assms by cases (auto simp: ingress_delivers elem_set split: if_splits prod.splits)

lemma one_key:
  assumes "(ingress_step flaky prt cs cc cfg)\<^sup>*\<^sup>* (freshStart a w) t"
  shows "cs_queue t \<subseteq> {rebuild} \<and> fst ` set_option (cs_run t) \<subseteq> {rebuild}"
  using assms by (induction rule: rtranclp_induct) (simp add: freshStart_def, blast dest: one_key_step)

text \<open>
  Claim C2. In file mode, no change of the cluster is lost by the ingress controller. Whatever changes,
  in whatever order, also while passes read the API and while passes fail and are repeated: as soon
  as the controller has nothing left to do, the document on disk is the one of the cluster as it is,
  and so is every certificate pair whose Secret has the TLS type (changes of other Secrets are not
  watched). Reads may be flaky: the code takes a read that fails, other than the listing of the
  Ingresses, for absence and does not retry it, so with flaky reads the output is the one of the cluster
  less what could not be read. And at any time between passes, if file operations succeed and
  the cluster stays as it is, at most one more pass leaves nothing to do. File mode: document and
  certificates go to files, the document's path is not one of a certificate.
\<close>

theorem ingress_follows_cluster:
  assumes mode: "file_mode cfg" and a: "listed a"
    and run: "(ingress_step flaky prt cs cc cfg)\<^sup>*\<^sup>* (freshStart a w) t"
  shows "(idle t \<longrightarrow> (\<exists>b. asRead flaky b (watchedView cfg (cs_api t)) \<and> (\<not> flaky \<longrightarrow> b = watchedView cfg (cs_api t)) \<and>
       ingressCurrent prt cfg b (wd_fs (cs_out t)))) \<and>
    (cs_run t = None \<and> fs_fates (wd_fs (cs_out t)) = [] \<longrightarrow>
       (\<exists>u n b. n \<le> 2 \<and> (work_step (readDuring flaky) (ingressRun prt cs cc cfg) ^^ n) t u \<and> idle u \<and> cs_api u = cs_api t \<and>
          asRead flaky b (watchedView cfg (cs_api t)) \<and> (\<not> flaky \<longrightarrow> b = watchedView cfg (cs_api t)) \<and>
          ingressCurrent prt cfg b (wd_fs (cs_out u))))"
proof -
  note inv = fresh_inv [OF a]
  have q: "cs_queue t \<subseteq> {rebuild}" using one_key [OF run] by simp
  then have fin: "finite (cs_queue t)" by (rule finite_subset) simp
  have load: "cs_run t = None \<Longrightarrow> load t \<le> 2" using card_mono [OF _ q] by (simp add: load_def)
  have "listed (cs_api t)" using ingress.inv_steps [OF run inv] by (simp add: ingress.loop_inv_def)
  then have calm: "cs_run t = None \<Longrightarrow> fs_fates (wd_fs (cs_out t)) = [] \<Longrightarrow> ingress.calm_state cfg t"
    unfolding ingress.calm_state_def using mode by blast
  have steady: "\<not> flaky \<longrightarrow> b = v" if "asRead flaky b v" for b v using that asRead_steady by (cases flaky) simp_all
  show ?thesis
  proof (intro conjI impI)
    assume "idle t"
    then show "\<exists>b. asRead flaky b (watchedView cfg (cs_api t)) \<and> (\<not> flaky \<longrightarrow> b = watchedView cfg (cs_api t)) \<and>
       ingressCurrent prt cfg b (wd_fs (cs_out t))"
      using ingress.nothing_lost [OF inv run] mode steady by blast
  next
    assume now: "cs_run t = None \<and> fs_fates (wd_fs (cs_out t)) = []"
    then have "ingress.calm_state cfg t" "load t \<le> 2" using calm load by simp_all
    then show "\<exists>u n b. n \<le> 2 \<and> (work_step (readDuring flaky) (ingressRun prt cs cc cfg) ^^ n) t u \<and> idle u \<and> cs_api u = cs_api t \<and>
          asRead flaky b (watchedView cfg (cs_api t)) \<and> (\<not> flaky \<longrightarrow> b = watchedView cfg (cs_api t)) \<and>
          ingressCurrent prt cfg b (wd_fs (cs_out u))"
      using ingress.catches_up [OF inv run fin] mode steady by blast
  qed
qed

text \<open>The concrete cluster of theory Scenario.\<close>

type_synonym mem_world = "(string \<times> string \<Rightarrow> secret option, string \<times> string \<Rightarrow> configmap option) world"

definition webStart :: "(api, mem_world, request) ctl_state" where
  "webStart = freshStart (webApi\<lparr>list_ingress_classes := Some []\<rparr>) (worldOf dirState)"

lemma ingress_follows_cluster_witness:
  "\<exists>u. (work_step (readDuring False) (ingressRun ipr mem_cou mem_cou webCfg))\<^sup>*\<^sup>* webStart u \<and> idle u \<and>
     gget (fs_files (wd_fs (cs_out u))) ''/out/upstreams.yaml'' = Some (renderDoc ipr (passModelOf ipr webCfg (cs_api u)))"
proof -
  let ?a = "webApi\<lparr>list_ingress_classes := Some []\<rparr>"
  have a: "file_mode webCfg" "listed ?a"
    using webCfg_facts by (simp_all add: file_mode_def listed_def webApi_def)
  have s: "cs_run webStart = None" "fs_fates (wd_fs (cs_out webStart)) = []" "cs_api webStart = ?a"
    by (simp_all add: webStart_def freshStart_def worldOf_def dirState_def)
  have refl: "(ingress_step False ipr mem_cou mem_cou webCfg)\<^sup>*\<^sup>* (freshStart ?a (worldOf dirState)) webStart"
    by (simp add: webStart_def)
  obtain u n b where u: "(work_step (readDuring False) (ingressRun ipr mem_cou mem_cou webCfg) ^^ n) webStart u" "idle u" "cs_api u = ?a"
      "ingressCurrent ipr webCfg b (wd_fs (cs_out u))" "b = watchedView webCfg ?a"
    using ingress_follows_cluster [OF a refl] s(1,2) unfolding s(3) by blast
  moreover from this(4,5) have "gget (fs_files (wd_fs (cs_out u))) ''/out/upstreams.yaml'' = Some (renderDoc ipr (passModelOf ipr webCfg ?a))"
    by (simp add: ingressCurrent_def Let_def view_passModelOf webCfg_facts)
  ultimately show ?thesis using relpowp_imp_rtranclp by metis
qed

section \<open>Where the watches end\<close>

text \<open>
  A certificate may come from a Secret of any type, but only Secrets of the TLS type are watched:
  the rotation of an Opaque one changes what a pass would write and starts no pass.
\<close>

theorem opaque_rotation_unseen:
  assumes "sec_type old = ''Opaque''" "sec_type new = ''Opaque''" "sec_ns new = sec_ns old" "sec_name new = sec_name old"
    and a: "get_secret a (sec_ns old) (sec_name old) = Some old"
    and usable: "gstr (sec_data new) ''tls.crt'' \<noteq> []" "gstr (sec_data new) ''tls.key'' \<noteq> []"
    and m: "gget (rm_certs m) st = Some \<lparr>cp_stem = st, cp_ns = sec_ns old, cp_name = sec_name old\<rparr>"
  shows "\<exists>a'. api_change (Updated (ObjSecret old) (ObjSecret new)) a a' \<and>
    tlsPair a' m st = Some (gstr (sec_data new) ''tls.crt'', gstr (sec_data new) ''tls.key'') \<and>
    deliver (ingressSetup cfg) (Updated (ObjSecret old) (ObjSecret new)) = []"
proof -
  have "api_change (Updated (ObjSecret old) (ObjSecret new)) a
      (a\<lparr>get_secret := (get_secret a)(sec_ns new := (get_secret a (sec_ns new))(sec_name new \<mapsto> new))\<rparr>)"
    by (rule SecretUpdated) (simp_all add: assms)
  moreover have "tlsPair (a\<lparr>get_secret := (get_secret a)(sec_ns new := (get_secret a (sec_ns new))(sec_name new \<mapsto> new))\<rparr>) m st =
      Some (gstr (sec_data new) ''tls.crt'', gstr (sec_data new) ''tls.key'')"
    using usable m by (simp add: tlsPair_def assms(3,4))
  moreover have "deliver (ingressSetup cfg) (Updated (ObjSecret old) (ObjSecret new)) = []"
    using assms(2) by (simp add: ingress_delivers SecretTypeTLS_def)
  ultimately show ?thesis by blast
qed

lemma opaque_rotation_unseen_witness:
  "\<exists>a'. tlsPair a' (addCert newRenderModel [] ''st'' ''ns'' ''tls'') ''st'' = Some (''new'', ''key'')"
proof -
  let ?sec = "\<lambda>c. \<lparr>sec_ns = ''ns'', sec_name = ''tls'', sec_labels = [], sec_type = ''Opaque'',
    sec_data = [(''tls.crt'', c), (''tls.key'', ''key'')]\<rparr>"
  show ?thesis
    using opaque_rotation_unseen [of "?sec ''old''" "?sec ''new''" "no_api\<lparr>get_secret := (\<lambda>_ _. Some (?sec ''old''))\<rparr>"
        "addCert newRenderModel [] ''st'' ''ns'' ''tls''" "''st''" webCfg]
    by (auto simp: gstr_def addCert_def newRenderModel_def Let_def ghas_def)
qed

text \<open>
  With the Gateway API on, the loop of a leader does not come to rest while an HTTPRoute is attached: every
  pass writes the route's status with the time of the pass, without comparing it with the stored one;
  a pass at another time so changes the object, and that change of a watched object queues the next pass.
\<close>

theorem attached_route_keeps_rebuilding:
  assumes "leader cfg" "cf_gateway_api cfg" "now \<noteq> now'"
  shows "\<exists>ps ps'. status_writes (acceptRoute cfg now rt parent o1) = status_writes o1 @ [WHTTPRoute (hr_ns rt) (hr_name rt) ps] \<and>
    status_writes (acceptRoute cfg now' (rt\<lparr>hr_status := ps\<rparr>) parent o2) = status_writes o2 @ [WHTTPRoute (hr_ns rt) (hr_name rt) ps'] \<and>
    ps' \<noteq> ps \<and>
    deliver (ingressSetup cfg) (Updated (ObjHTTPRoute (rt\<lparr>hr_status := ps\<rparr>)) (ObjHTTPRoute (rt\<lparr>hr_status := ps'\<rparr>))) = [rebuild]"
  using assms by (simp add: acceptRoute_def Let_def mk_cond_def ingress_delivers)

lemma attached_route_keeps_rebuilding_witness:
  "\<exists>ps ps'. status_writes (acceptRoute webCfg 6 (webRoute\<lparr>hr_status := ps\<rparr>) (hd (hr_parents webRoute)) obs0) =
       [WHTTPRoute ''ns'' ''r'' ps'] \<and> ps' \<noteq> ps \<and>
     deliver (ingressSetup webCfg) (Updated (ObjHTTPRoute (webRoute\<lparr>hr_status := ps\<rparr>)) (ObjHTTPRoute (webRoute\<lparr>hr_status := ps'\<rparr>))) = [rebuild]"
proof -
  have "leader webCfg" "cf_gateway_api webCfg" by (simp_all add: leader_def webCfg_def cfg0_def)
  moreover have "hr_ns webRoute = ''ns''" "hr_name webRoute = ''r''" "status_writes obs0 = []" by (simp_all add: webRoute_def obs0_def)
  ultimately show ?thesis
    using attached_route_keeps_rebuilding [of webCfg 5 6 webRoute "hd (hr_parents webRoute)" obs0 obs0] by fastforce
qed

end
