(* ===== verification/SidecarLoop.thy ===== *)
theory SidecarLoop
  imports Watches WorkQueue
begin

text \<open>
  The config-sync sidecar as a process: its watch, its work queue with one key for each source
  ConfigMap, and its projections over sources that keep changing. The files on disk follow every
  source that exists.
\<close>

section \<open>The sources change\<close>

type_synonym sources = "cm_key \<Rightarrow> configmap got"

text \<open>
  Two sources with a selected key in common overwrite each other's file. \<open>home\<close> says which source a
  file name belongs to, and the temporary file with it; a name that more than one source ever holds has
  no home.
\<close>

definition homely :: "sync_cfg \<Rightarrow> (string \<Rightarrow> cm_key option) \<Rightarrow> sources \<Rightarrow> bool" where
  "homely cfg home get \<longleftrightarrow> sy_dir cfg \<noteq> [] \<and> (\<forall>n. home (n @ ''.tmp'') = home n) \<and>
     (\<forall>key cm. get key = Found cm \<longrightarrow> gmap_ok (cm_data cm) \<and>
        (\<forall>n \<in> set (gkeys (cm_data cm)). selects cfg n \<longrightarrow> home n \<in> {None, Some key}))"

definition storedMap :: "api_event \<Rightarrow> configmap got" where
  "storedMap e = (case e of Created (ObjConfigMap cm) \<Rightarrow> Found cm | Updated _ (ObjConfigMap cm) \<Rightarrow> Found cm | _ \<Rightarrow> Missing)"

definition cm_change :: "sync_cfg \<Rightarrow> (string \<Rightarrow> cm_key option) \<Rightarrow> api_event \<Rightarrow> sources \<Rightarrow> sources \<Rightarrow> bool" where
  "cm_change cfg home e get get' \<longleftrightarrow> homely cfg home get' \<and>
     (if kindOf (subject e) = KConfigMap then get' = get(objectKey (subject e) := storedMap e) else get' = get)"

text \<open>What a projection may have read: the source as it was at some moment, or an error.\<close>

definition sourcesDuring :: "sources list \<Rightarrow> sources \<Rightarrow> bool" where
  "sourcesDuring seen b \<longleftrightarrow>
     (\<forall>key. (\<exists>e. b key = GetFailed e) \<or> (\<exists>x \<in> set seen. b key = x key))"

lemma sourcesDuring_one:
  assumes "seen \<noteq> []" "sourcesDuring seen b"
  shows "\<exists>x \<in> set seen. \<exists>e. b k = x k \<or> b k = GetFailed e"
proof -
  have "hd seen \<in> set seen" using assms(1) by simp
  then show ?thesis using assms(2) unfolding sourcesDuring_def by blast
qed

section \<open>The output\<close>

definition projected :: "sync_cfg \<Rightarrow> (string \<Rightarrow> cm_key option) \<Rightarrow> cm_key \<Rightarrow> configmap got \<Rightarrow> fsys \<Rightarrow> bool" where
  "projected cfg home key v s \<longleftrightarrow>
     (case v of
        Found cm \<Rightarrow> \<forall>n c. gget (cm_data cm) n = Some c \<longrightarrow> selects cfg n \<longrightarrow> home n = Some key \<longrightarrow>
          gget (fs_files s) (keyFile cfg n) = Some c
      | _ \<Rightarrow> True)"

definition syncRun :: "sync_cfg \<Rightarrow> cm_key \<Rightarrow> sources \<Rightarrow> sync_state \<Rightarrow> string option \<Rightarrow> sync_state \<Rightarrow> bool" where
  "syncRun cfg key get st r st' \<longleftrightarrow> (\<exists>now. syncReconcile cfg get now key st = (r, st'))"

lemma syncRun_one:
  assumes "syncRun cfg key get st r st'"
  obtains n o1 o2 where "syncOne cfg get key (ss_fs st) o1 = ((n, r), ss_fs st', o2)"
proof -
  obtain now where run: "syncReconcile cfg get now key st = (r, st')" using assms by (auto simp: syncRun_def)
  obtain n e s1 o2 where one: "syncOne cfg get key (ss_fs st) (inc MSyncTotal (ss_obs st)) = ((n, e), s1, o2)"
    by (metis prod_cases3 surj_pair)
  have "r = e" "ss_fs st' = s1"
    using run one by (auto simp: syncReconcile_def Let_def split: option.splits)
  then show thesis using one by (intro that) simp
qed

text \<open>A run that reports no error has projected the source it read.\<close>

lemma syncRun_works:
  assumes "homely cfg home x" "b key = x key \<or> b key = GetFailed e" "syncRun cfg key b st None st'"
  shows "projected cfg home key (x key) (ss_fs st')"
proof -
  obtain n o1 o2 where one: "syncOne cfg b key (ss_fs st) o1 = ((n, None), ss_fs st', o2)"
    by (rule syncRun_one [OF assms(3)])
  then have b: "b key = x key" using assms(2) by (auto simp: syncOne_def)
  show ?thesis
  proof (cases "x key")
    case (Found cm)
    have "sy_dir cfg \<noteq> []" "gmap_ok (cm_data cm)" using assms(1) Found unfolding homely_def by blast+
    from syncOne_done [OF this(1) _ this(2) one] show ?thesis
      using b Found by (simp add: projected_def)
  qed (simp_all add: projected_def)
qed

text \<open>It touches the files of that source only.\<close>

lemma syncRun_apart:
  assumes x: "homely cfg home x" and b: "b key = x key \<or> b key = GetFailed e"
    and run: "syncRun cfg key b st r st'" and g: "g \<noteq> key" "home n = Some g"
  shows "gget (fs_files (ss_fs st')) (keyFile cfg n) = gget (fs_files (ss_fs st)) (keyFile cfg n)"
proof -
  obtain m o1 o2 where one: "syncOne cfg b key (ss_fs st) o1 = ((m, r), ss_fs st', o2)"
    by (rule syncRun_one [OF run])
  have dir: "sy_dir cfg \<noteq> []" and tmp: "home (k @ ''.tmp'') = home k" for k
    using x by (simp_all add: homely_def)
  note safe = syncOne_effect [OF dir, of b key "ss_fs st" o1, unfolded one prod.case]
  show ?thesis
  proof (cases "b key")
    case (Found cm)
    then have "x key = Found cm" using b by simp
    then have home: "home k \<in> {None, Some key}" if "k \<in> set (gkeys (cm_data cm))" "selects cfg k" for k
      using x that unfolding homely_def by blast
    have "keyFile cfg n \<notin> keyFiles cfg (gkeys (cm_data cm))"
    proof
      assume "keyFile cfg n \<in> keyFiles cfg (gkeys (cm_data cm))"
      then obtain k where "k \<in> set (gkeys (cm_data cm))" "selects cfg k" "n = k \<or> n = k @ ''.tmp''"
        unfolding keyFiles_def by (auto simp: keyFile_eq simp del: set_map)
      then show False using home [of k] tmp [of k] g by auto
    qed
    then show ?thesis using safe Found by (simp add: touches_def)
  qed (use safe in \<open>simp_all add: isFound_def\<close>)
qed

lemma syncKeys_ok: "fs_fates s = [] \<Longrightarrow> \<exists>m f. syncKeys cfg data ks n s = ((m, None), f) \<and> fs_fates f = []"
proof (induction ks arbitrary: n s)
  case (Cons k ks)
  obtain ch f where w: "writeIfChanged s (Join (sy_dir cfg) k) (gstr data k) = (Inr ch, f)" "fs_fates f = []"
    using writeIfChanged_ok [OF Cons.prems] by blast
  show ?case using Cons.IH [OF Cons.prems] Cons.IH [OF w(2)] w(1) by simp
qed simp

lemma syncRun_succeeds:
  assumes "fs_fates (ss_fs st) = []" "\<forall>e. get key \<noteq> GetFailed e"
  shows "\<exists>st'. syncRun cfg key get st None st' \<and> fs_fates (ss_fs st') = []"
proof -
  obtain n s1 o1 where one: "syncOne cfg get key (ss_fs st) (inc MSyncTotal (ss_obs st)) = ((n, None), s1, o1)" "fs_fates s1 = []"
  proof (cases "get key")
    case (Found cm)
    obtain m f where "syncKeys cfg (cm_data cm) (sorted_keys (cm_data cm)) 0 (ss_fs st) = ((m, None), f)" "fs_fates f = []"
      using syncKeys_ok [OF assms(1)] by blast
    then show thesis using Found by (intro that) (simp_all add: syncOne_def)
  next
    case Missing
    then show thesis using assms(1) by (intro that) (simp_all add: syncOne_def)
  qed (use assms(2) in simp)
  obtain st' where "syncReconcile cfg get 0 key st = (None, st')" "ss_fs st' = s1"
    using one by (simp add: syncReconcile_def Let_def)
  then show ?thesis using one(2) unfolding syncRun_def by blast
qed

lemma syncRun_calm:
  assumes "homely cfg home x" "syncRun cfg key get st r st'" "fs_fates (ss_fs st) = []"
  shows "fs_fates (ss_fs st') = []"
proof -
  obtain n o1 o2 where one: "syncOne cfg get key (ss_fs st) o1 = ((n, r), ss_fs st', o2)"
    by (rule syncRun_one [OF assms(2)])
  have "sy_dir cfg \<noteq> []" using assms(1) by (simp add: homely_def)
  from syncOne_effect [OF this, of get key "ss_fs st" o1, unfolded one prod.case] show ?thesis
    using assms(3) by (cases "get key") (simp_all add: isFound_def touches_def)
qed

section \<open>The loop\<close>

lemma wants_iff: "wants cfg key \<longleftrightarrow> key \<in> set (sy_sources cfg)"
  by (simp add: wants_def)

definition readable :: "sources \<Rightarrow> bool" where
  "readable get \<longleftrightarrow> (\<forall>key e. get key \<noteq> GetFailed e)"

abbreviation sync_step where
  "sync_step cfg home \<equiv> ctl_step (\<lambda>e _. deliver (syncSetup cfg) e) (cm_change cfg home) sourcesDuring (syncRun cfg)"

interpretation sidecar: calm_reconciler "\<lambda>e _. deliver (syncSetup cfg) e" "cm_change cfg home" sourcesDuring
  "syncRun cfg" "\<lambda>key. key" "\<lambda>key get. get key" "\<lambda>key v st. wants cfg key \<longrightarrow> projected cfg home key v (ss_fs st)"
  "homely cfg home" "\<lambda>get st. readable get \<and> fs_fates (ss_fs st) = []"
  for cfg home
proof
  show "homely cfg home a'" if "cm_change cfg home e a a'" for a a' e
    using that by (simp add: cm_change_def)
  show "a' g = a g \<or> (\<forall>w. wants cfg g \<longrightarrow> projected cfg home g (a' g) (ss_fs w))"
    if "cm_change cfg home e a a'" "g \<notin> (\<lambda>key. key) ` set (deliver (syncSetup cfg) e)" for a a' e g
    using that by (auto simp: cm_change_def setup_defs split: if_splits)
  show "wants cfg k \<longrightarrow> projected cfg home k v (ss_fs w')"
    if ne: "seen \<noteq> []" and hx: "\<forall>x \<in> set seen. homely cfg home x \<and> x k = v" and read: "sourcesDuring seen b"
      and run: "syncRun cfg k b w None w'"
    for seen k v b w w'
  proof -
    obtain x e where x: "x \<in> set seen" "b k = x k \<or> b k = GetFailed e"
      using sourcesDuring_one [OF ne read, of k] by blast
    then have "homely cfg home x" "x k = v" using hx by simp_all
    then show ?thesis using syncRun_works [where x = x and e = e, OF _ x(2) run] by simp
  qed
  show "wants cfg g \<longrightarrow> projected cfg home g v (ss_fs w')"
    if ne: "seen \<noteq> []" and hx: "\<forall>x \<in> set seen. homely cfg home x" and read: "sourcesDuring seen b"
      and run: "syncRun cfg k b w r w'" and kg: "k \<noteq> g" and cur: "wants cfg g \<longrightarrow> projected cfg home g v (ss_fs w)"
    for seen b k w r w' g v
  proof -
    obtain x e where x: "x \<in> set seen" "b k = x k \<or> b k = GetFailed e"
      using sourcesDuring_one [OF ne read, of k] by blast
    then have "homely cfg home x" using hx by simp
    from syncRun_apart [where x = x and e = e, OF this x(2) run kg [symmetric]]
    have "gget (fs_files (ss_fs w')) (keyFile cfg n) = gget (fs_files (ss_fs w)) (keyFile cfg n)" if "home n = Some g" for n
      using that by blast
    then show ?thesis using cur by (cases v) (simp_all add: projected_def)
  qed
  show "\<exists>b w'. sourcesDuring [a] b \<and> syncRun cfg k b w None w'"
    if "readable a \<and> fs_fates (ss_fs w) = []" for a w k
  proof -
    have "sourcesDuring [a] a" by (simp add: sourcesDuring_def)
    then show ?thesis using syncRun_succeeds [of w a k cfg] that unfolding readable_def by blast
  qed
  show "readable a \<and> fs_fates (ss_fs w') = []"
    if "homely cfg home a" "readable a \<and> fs_fates (ss_fs w) = []" "syncRun cfg k b w None w'" for a w k b w'
    using syncRun_calm [OF that(1,3)] that(2) by simp
qed

text \<open>A fresh start: the informer has delivered the sources that exist.\<close>

definition sidecarStart :: "sync_cfg \<Rightarrow> sources \<Rightarrow> sync_state \<Rightarrow> (sources, sync_state, cm_key) ctl_state" where
  "sidecarStart cfg get st =
     \<lparr>cs_api = get, cs_out = st, cs_queue = {key \<in> set (sy_sources cfg). get key \<noteq> Missing}, cs_run = None\<rparr>"

lemma sidecarStart_inv: "homely cfg home get \<Longrightarrow> sidecar.loop_inv cfg home (sidecarStart cfg get st)"
  unfolding sidecar.loop_inv_def sidecar.run_ok_def sidecar.pending_def sidecarStart_def
  by (auto simp: wants_iff projected_def split: got.splits)

text \<open>The queue holds sources only.\<close>

lemma sync_queue_step:
  assumes "sync_step cfg home s t" "cs_queue s \<subseteq> set (sy_sources cfg)" "fst ` set_option (cs_run s) \<subseteq> set (sy_sources cfg)"
  shows "cs_queue t \<subseteq> set (sy_sources cfg) \<and> fst ` set_option (cs_run t) \<subseteq> set (sy_sources cfg)"
  using assms by cases (auto simp: setup_defs wants_iff elem_set split: if_splits prod.splits)

lemma sync_queue:
  assumes "(sync_step cfg home)\<^sup>*\<^sup>* (sidecarStart cfg get st) t"
  shows "cs_queue t \<subseteq> set (sy_sources cfg) \<and> fst ` set_option (cs_run t) \<subseteq> set (sy_sources cfg)"
  using assms
proof (induction rule: rtranclp_induct)
  case (step s t)
  show ?case using sync_queue_step [OF step.hyps(2)] step.IH by simp
qed (auto simp: sidecarStart_def)



end
