(* ===== verification/EndToEnd.thy ===== *)
theory EndToEnd
  imports IngressLoop SidecarLoop
begin

text \<open>
  Central mode end to end: the document a pass of the central operator writes to its ConfigMap is
  the file the proxy beside the sidecar reads.
\<close>

lemma writeConfigMapIfChanged_stores:
  assumes "cou_ok find_obj cou" "writeConfigMapIfChanged cou cfg w doc = (Inr ch, w')"
  obtains cm where "find_obj w' (cf_out_cm cfg) = Some cm" "gget (cm_data cm) UpstreamsKey = Some doc"
    "\<And>old. find_obj w (cf_out_cm cfg) = Some old \<Longrightarrow> gmap_ok (cm_data old) \<Longrightarrow> gmap_ok (cm_data cm)"
    "find_obj w (cf_out_cm cfg) = None \<Longrightarrow> gmap_ok (cm_data cm)"
proof -
  obtain op flag where c: "cou w (cf_out_cm cfg) (mutateUpstreams (cf_out_cm cfg) doc) = (Inr (op, flag), w')"
    using assms(2) by (auto simp: writeConfigMapIfChanged_def split: prod.splits sum.splits)
  note f = cou_okD(1) [OF assms(1) c]
  show thesis
    by (rule that [OF f]) (auto simp: mutateUpstreams_def Let_def gmap_simps split: option.splits, simp add: gmap_ok_def)
qed

text \<open>
  Claim C5. Central mode is faithful end to end: when a pass of the central operator succeeds and the
  sidecar then projects the ConfigMap it finds there without an error, the file beside the proxy is
  the rendered document of the cluster the pass saw, byte for byte, and projecting again changes
  nothing.
\<close>

theorem central_reaches_proxy:
  assumes lib: "cou_ok find_obj cc" and central: "usesConfigMapOutput cfg"
    and old: "\<And>x. find_obj (wd_cms w) (cf_out_cm cfg) = Some x \<Longrightarrow> gmap_ok (cm_data x)"
    and pass: "render prt cs cc cfg a now w = (Inr res, w')"
    and get: "get (cf_out_cm cfg) = (case find_obj (wd_cms w') (cf_out_cm cfg) of Some x \<Rightarrow> Found x | None \<Rightarrow> Missing)"
    and side: "sy_dir sc \<noteq> []" "sy_keys sc = [] \<or> UpstreamsKey \<in> set (sy_keys sc)"
    and sync: "syncOne sc get (cf_out_cm cfg) s o1 = ((n, None), s', o2)"
  shows "gget (fs_files s') (keyFile sc UpstreamsKey) = Some (renderDoc prt (passModelOf prt cfg a)) \<and>
    syncOne sc get (cf_out_cm cfg) s' o3 = ((0, None), s', o3)"
proof -
  obtain ings where ings: "list_ingresses a = Some ings" using render_listed [OF pass] by blast
  obtain k m o1' r w1 r2 w2 where st:
      "passModel prt cfg a now ings (inc MRenderTotal (wd_obs w)) = (k, m, o1')"
      "projectStage cs cfg a m (w\<lparr>wd_obs := o1'\<rparr>) = (r, w1)"
      "writeStage cc cfg (renderDoc prt m) w1 = (r2, w2)"
      "render prt cs cc cfg a now w =
         (case r of Some e \<Rightarrow> (Inl e, failPass w1)
          | None \<Rightarrow> (case r2 of Inl e \<Rightarrow> (Inl e, failPass w2)
                    | Inr ch \<Rightarrow> (Inr (ch, k, hostCount m), finishPass cfg now m (matchedIngs cfg a ings) ch w2)))"
    by (rule render_stages [OF ings])
  have m: "passModelOf prt cfg a = m" using passModel_eq [OF ings, of prt cfg now] st(1) by (metis fst_conv snd_conv)
  obtain ch where r: "r2 = Inr ch" and w': "wd_cms w' = wd_cms w2"
    using pass unfolding st(4) by (auto simp: finishPass_def Let_def split: option.splits sum.splits)
  have w1: "wd_cms w1 = wd_cms w" using st(2) by (auto simp: projectStage_def split: prod.splits if_splits)
  have wr: "writeConfigMapIfChanged cc cfg (wd_cms w) (renderDoc prt m) = (Inr ch, wd_cms w2)"
    using st(3) central r w1 by (auto simp: writeStage_def split: prod.splits sum.splits)
  obtain cm where cm: "find_obj (wd_cms w2) (cf_out_cm cfg) = Some cm" "gget (cm_data cm) UpstreamsKey = Some (renderDoc prt m)"
      "gmap_ok (cm_data cm)"
    using writeConfigMapIfChanged_stores [OF lib wr] old by (metis not_None_eq)
  have found: "get (cf_out_cm cfg) = Found cm" using get cm(1) w' by simp
  have "selects sc UpstreamsKey"
  proof -
    have "safeKey UpstreamsKey" by code_simp
    then show ?thesis using side(2) by (auto simp: selects_def)
  qed
  then show ?thesis
    using syncOne_done [OF side(1) found cm(3) sync] cm(2) by (simp add: m)
qed

definition centralCfg :: ing_cfg where
  "centralCfg = webCfg\<lparr>cf_out_cm := (''ns'', ''cm'')\<rparr>"

definition storeGet :: "(string \<times> string \<Rightarrow> configmap option) \<Rightarrow> cm_key \<Rightarrow> configmap got" where
  "storeGet cms key = (case cms key of Some x \<Rightarrow> Found x | None \<Rightarrow> Missing)"

lemma central_reaches_proxy_witness:
  "\<exists>res w' n s' o'. render ipr mem_cou mem_cou centralCfg webApi 5 (worldOf dirState) = (Inr res, w') \<and>
     syncOne sideCfg (storeGet (wd_cms w')) (''ns'', ''cm'') (sideFs []) obs0 = ((n, None), s', o') \<and>
     gget (fs_files s') ''/shared/upstreams.yaml'' = Some (renderDoc ipr (passModelOf ipr centralCfg webApi))"
proof -
  have c: "cf_out_cm centralCfg = (''ns'', ''cm'')" "usesConfigMapOutput centralCfg" "\<not> usesCertsSecretOutput centralCfg"
    "cf_certs_dir centralCfg = []"
    using webCfg_facts by (simp_all add: centralCfg_def usesConfigMapOutput_def usesCertsSecretOutput_def)
  have "\<not> isl (fst (render ipr mem_cou mem_cou centralCfg webApi 5 (worldOf dirState)))"
    by (simp add: render_def Let_def webCfg_facts c projectStage_def projectCerts_def writeStage_def
        writeConfigMapIfChanged_def mem_cou_def split: prod.splits)
  then obtain res w' where r: "render ipr mem_cou mem_cou centralCfg webApi 5 (worldOf dirState) = (Inr res, w')"
    by (cases "render ipr mem_cou mem_cou centralCfg webApi 5 (worldOf dirState)";
        cases "fst (render ipr mem_cou mem_cou centralCfg webApi 5 (worldOf dirState))") auto
  have io: "fs_fates (sideFs []) = []" by (simp add: sideFs_def)
  have "\<exists>n s' o'. syncOne sideCfg (storeGet (wd_cms w')) (''ns'', ''cm'') (sideFs []) obs0 = ((n, None), s', o')"
  proof (cases "wd_cms w' (''ns'', ''cm'')")
    case (Some cm)
    obtain m f where "syncKeys sideCfg (cm_data cm) (sorted_keys (cm_data cm)) 0 (sideFs []) = ((m, None), f)"
      using syncKeys_ok [OF io] by blast
    then show ?thesis using Some by (simp add: syncOne_def storeGet_def)
  qed (simp add: syncOne_def storeGet_def)
  then obtain n s' o' where s: "syncOne sideCfg (storeGet (wd_cms w')) (cf_out_cm centralCfg) (sideFs []) obs0 = ((n, None), s', o')"
    unfolding c by blast
  have "sy_keys sideCfg = []" "\<And>x. wd_cms (worldOf dirState) (cf_out_cm centralCfg) = Some x \<Longrightarrow> gmap_ok (cm_data x)"
    by (simp_all add: sideCfg_def worldOf_def)
  from central_reaches_proxy [where find_obj = "\<lambda>w. w" and cc = mem_cou and sc = sideCfg, OF mem_cou_ok c(2) this(2) r _ side_facts(1) _ s]
  have "gget (fs_files s') (keyFile sideCfg UpstreamsKey) = Some (renderDoc ipr (passModelOf ipr centralCfg webApi))"
    using \<open>sy_keys sideCfg = []\<close> by (simp add: storeGet_def)
  then have "gget (fs_files s') ''/shared/upstreams.yaml'' = Some (renderDoc ipr (passModelOf ipr centralCfg webApi))"
    unfolding UpstreamsKey_def side_facts(2) .
  then show ?thesis using r s unfolding c by (intro exI conjI)
qed

end
