(* ===== verification/ResolverLoop.thy ===== *)
theory ResolverLoop
  imports Watches WorkQueue
begin

text \<open>
  The upstreams resolver as a process: its watches on ConfigMaps and Services, its work queue with
  one key for each source, and its reconciles over sources and Services that keep changing. The
  output of every source labelled \<^verbatim>\<open>true\<close> follows the source and the Services.
\<close>

section \<open>Sources and Services change\<close>

record resolver_api =
  ra_get :: "cm_key \<Rightarrow> configmap got"
  ra_list :: "configmap list"
  ra_service :: svc_get

text \<open>
  The listing and the stored objects agree. \<open>home\<close> says whose output a ConfigMap is; an output that more
  than one source ever names has no home.
\<close>

definition coherent :: "(cm_key \<Rightarrow> cm_key option) \<Rightarrow> resolver_api \<Rightarrow> bool" where
  "coherent home a \<longleftrightarrow>
     (\<forall>key cm. ra_get a key = Found cm \<longleftrightarrow> cm \<in> set (ra_list a) \<and> key = (cm_ns cm, cm_name cm)) \<and>
     (\<forall>key e. ra_get a key \<noteq> GetFailed e) \<and>
     (\<forall>cm \<in> set (ra_list a). isResolverSource cm \<longrightarrow>
        home (cm_ns cm, resolvedOutputName cm) \<in> {None, Some (cm_ns cm, cm_name cm)})"

definition storedSource :: "api_event \<Rightarrow> configmap got" where
  "storedSource e = (case e of Created (ObjConfigMap cm) \<Rightarrow> Found cm | Updated _ (ObjConfigMap cm) \<Rightarrow> Found cm | _ \<Rightarrow> Missing)"

definition resolver_change :: "(cm_key \<Rightarrow> cm_key option) \<Rightarrow> api_event \<Rightarrow> resolver_api \<Rightarrow> resolver_api \<Rightarrow> bool" where
  "resolver_change home e a a' \<longleftrightarrow> coherent home a' \<and>
     (if kindOf (subject e) = KConfigMap
      then ra_get a' = (ra_get a)(objectKey (subject e) := storedSource e) \<and> ra_service a' = ra_service a
      else ra_get a' = ra_get a \<and> (kindOf (subject e) \<noteq> KService \<longrightarrow> ra_service a' = ra_service a))"

text \<open>
  What a reconcile may have read: the source at some moment or an error, each Service at some moment or,
  when reads are flaky, not at all (the code keeps the entry as it is and does not report the error).
\<close>

definition resolverDuring :: "bool \<Rightarrow> resolver_api list \<Rightarrow> resolver_api \<Rightarrow> bool" where
  "resolverDuring flaky seen b \<longleftrightarrow>
     (\<forall>key. (\<exists>e. ra_get b key = GetFailed e) \<or> (\<exists>x \<in> set seen. ra_get b key = ra_get x key)) \<and>
     (\<forall>ns n. flaky \<and> ra_service b ns n = None \<or> (\<exists>x \<in> set seen. ra_service b ns n = ra_service x ns n))"

text \<open>The Services as they were read.\<close>

definition servicesRead :: "bool \<Rightarrow> svc_get \<Rightarrow> svc_get \<Rightarrow> bool" where
  "servicesRead flaky got svcs \<longleftrightarrow> (\<forall>ns n. got ns n = svcs ns n \<or> flaky \<and> got ns n = None)"

lemma servicesRead_steady: "servicesRead False got svcs \<longleftrightarrow> got = svcs"
  by (auto simp: servicesRead_def fun_eq_iff)

section \<open>The output\<close>

definition followed :: "configmap got \<Rightarrow> bool" where
  "followed got \<longleftrightarrow> (case got of Found src \<Rightarrow> gget (cm_labels src) ResolverSourceLabel = Some ''true'' | _ \<Rightarrow> False)"

text \<open>What the output of a source depends on.\<close>

definition sourceView :: "cm_key \<Rightarrow> resolver_api \<Rightarrow> (configmap got \<times> svc_get) option" where
  "sourceView key a = (if followed (ra_get a key) then Some (ra_get a key, ra_service a) else None)"

text \<open>
  The output ConfigMap holds the resolved document; a source without a document, or one that cannot
  be resolved, has no claim on its output.
\<close>

definition resolvedAs ::
  "yreader \<Rightarrow> ywriter \<Rightarrow> string \<Rightarrow> (cm_key \<Rightarrow> configmap option) \<Rightarrow> configmap \<Rightarrow> svc_get \<Rightarrow> bool" where
  "resolvedAs um ma domain objs src svcs \<longleftrightarrow>
     (case gget (cm_data src) UpstreamsKey of
        None \<Rightarrow> True
      | Some raw \<Rightarrow>
          (case resolveYAML um ma svcs domain (cm_ns src) raw of
             Inl _ \<Rightarrow> True
           | Inr (t, _) \<Rightarrow> \<exists>out. objs (cm_ns src, resolvedOutputName src) = Some out \<and> gget (cm_data out) UpstreamsKey = Some t))"

definition outputCurrent ::
  "bool \<Rightarrow> yreader \<Rightarrow> ywriter \<Rightarrow> string \<Rightarrow> (cm_key \<Rightarrow> cm_key option) \<Rightarrow> (cm_key \<Rightarrow> configmap option)
    \<Rightarrow> cm_key \<Rightarrow> (configmap got \<times> svc_get) option \<Rightarrow> bool" where
  "outputCurrent flaky um ma domain home objs key v \<longleftrightarrow>
     (case v of
        Some (Found src, svcs) \<Rightarrow>
          home (cm_ns src, resolvedOutputName src) = Some key \<longrightarrow>
          (\<exists>got. servicesRead flaky got svcs \<and> resolvedAs um ma domain objs src got)
      | _ \<Rightarrow> True)"

lemma outputCurrent_cong:
  assumes "\<And>okey. home okey = Some key \<Longrightarrow> objs' okey = objs okey"
  shows "outputCurrent flaky um ma domain home objs' key v = outputCurrent flaky um ma domain home objs key v"
proof -
  have "resolvedAs um ma domain objs' src got = resolvedAs um ma domain objs src got"
    if "home (cm_ns src, resolvedOutputName src) = Some key" for src got
    unfolding resolvedAs_def assms [OF that] by (rule refl)
  then show ?thesis by (simp add: outputCurrent_def cong: imp_cong split: option.split prod.split got.split)
qed

definition resolverRun ::
  "yreader \<Rightarrow> ywriter \<Rightarrow> string \<Rightarrow> set_ref \<Rightarrow> 'w cou_f
    \<Rightarrow> cm_key \<Rightarrow> resolver_api \<Rightarrow> 'w \<Rightarrow> string option \<Rightarrow> 'w \<Rightarrow> bool" where
  "resolverRun um ma domain setref cou key a w r w' \<longleftrightarrow>
     resolverReconcile um ma (ra_service a) domain setref cou (ra_get a key) w = (r, w')"

text \<open>The library as documented.\<close>

definition resolver_lib :: "('w \<Rightarrow> cm_key \<Rightarrow> configmap option) \<Rightarrow> set_ref \<Rightarrow> 'w cou_f \<Rightarrow> bool" where
  "resolver_lib objs setref cou \<longleftrightarrow> cou_f_ok objs cou \<and> setref_ok setref"

lemma resolverRun_works:
  assumes lib: "resolver_lib objs setref cou" and run: "resolverRun um ma domain setref cou key b w None w'"
    and src: "ra_get b key = Found src" "isResolverSource src"
  shows "resolvedAs um ma domain (objs w') src (ra_service b)"
proof (cases "gget (cm_data src) UpstreamsKey")
  case (Some raw)
  show ?thesis
  proof (cases "resolveYAML um ma (ra_service b) domain (cm_ns src) raw")
    case (Inr ts)
    have "cou_f_ok objs cou" "setref_ok setref" using lib by (simp_all add: resolver_lib_def)
    from resolverReconcile_effect [OF this run [unfolded resolverRun_def]] show ?thesis
      using src Some Inr by (cases ts) (auto simp: resolvedAs_def Let_def)
  qed (simp add: resolvedAs_def Some)
qed (simp add: resolvedAs_def)

lemma resolverRun_apart:
  assumes lib: "resolver_lib objs setref cou" and run: "resolverRun um ma domain setref cou key b w r w'"
    and other: "\<And>src. ra_get b key = Found src \<Longrightarrow> isResolverSource src \<Longrightarrow> okey \<noteq> (cm_ns src, resolvedOutputName src)"
  shows "objs w' okey = objs w okey"
proof -
  have "cou_f_ok objs cou" "setref_ok setref" using lib by (simp_all add: resolver_lib_def)
  note exact = resolverReconcile_effect [OF this run [unfolded resolverRun_def]]
  show ?thesis
  proof (cases "ra_get b key")
    case (Found src)
    show ?thesis
    proof (cases "isResolverSource src")
      case True
      then show ?thesis using exact other [OF Found True] Found
        by (auto simp: Let_def split: option.splits sum.splits)
    qed (use exact Found in simp)
  qed (use exact in simp_all)
qed

section \<open>The loop\<close>

lemma coherent_found:
  assumes "coherent home a" "ra_get a key = Found cm"
  shows "cm \<in> set (ra_list a) \<and> key = (cm_ns cm, cm_name cm) \<and>
    (isResolverSource cm \<longrightarrow> home (cm_ns cm, resolvedOutputName cm) \<in> {None, Some key})"
proof -
  note c = assms(1)[unfolded coherent_def]
  have "cm \<in> set (ra_list a) \<and> key = (cm_ns cm, cm_name cm)"
    using conjunct1 [OF c, rule_format, of key cm] assms(2) by blast
  moreover from this have "isResolverSource cm \<longrightarrow>
      home (cm_ns cm, resolvedOutputName cm) \<in> {None, Some (cm_ns cm, cm_name cm)}"
    using conjunct2 [OF conjunct2 [OF c]] by blast
  ultimately show ?thesis by simp
qed

lemma resolver_unseen:
  assumes a: "coherent home a" and e: "resolver_change home e a a'"
    and g: "g \<notin> set (deliver (resolverSetup (Some (ra_list a'))) e)"
  shows "sourceView g a' = sourceView g a \<or> sourceView g a' = None"
proof (cases "kindOf (subject e) = KConfigMap")
  case True
  show ?thesis
  proof (cases "g = objectKey (subject e)")
    case here: True
    then have "ra_get a' g = storedSource e" using e True by (simp add: resolver_change_def)
    moreover have "\<not> sourcePredicate (subject e)"
      using g here True by (auto simp: setup_defs)
    ultimately show ?thesis
      by (cases e; cases "subject e") (auto simp: sourceView_def followed_def storedSource_def isResolverSource_def split: k8s_object.splits)
  qed (use e True in \<open>simp add: resolver_change_def sourceView_def\<close>)
next
  case False
  show ?thesis
  proof (cases "kindOf (subject e) = KService")
    case True
    have "\<not> followed (ra_get a' g)"
    proof
      assume f: "followed (ra_get a' g)"
      then obtain src where src: "ra_get a' g = Found src" "gget (cm_labels src) ResolverSourceLabel = Some ''true''"
        by (auto simp: followed_def split: got.splits)
      moreover have "coherent home a'" using e by (simp add: resolver_change_def)
      ultimately have "src \<in> set (ra_list a')" "g = (cm_ns src, cm_name src)" using coherent_found by blast+
      then show False using g True src(2) by (auto simp: setup_defs enqueueAllSources_def)
    qed
    then show ?thesis by (simp add: sourceView_def)
  qed (use e False in \<open>simp add: resolver_change_def sourceView_def\<close>)
qed

lemma resolverDuring_one:
  assumes "seen \<noteq> []" "resolverDuring flaky seen b"
  shows "\<exists>x \<in> set seen. \<exists>e. ra_get b k = ra_get x k \<or> ra_get b k = GetFailed e"
proof -
  have "hd seen \<in> set seen" using assms(1) by simp
  then show ?thesis using assms(2) unfolding resolverDuring_def by blast
qed

abbreviation resolver_step where
  "resolver_step flaky um ma domain setref cou home \<equiv>
     ctl_step (\<lambda>e a. deliver (resolverSetup (Some (ra_list a))) e) (resolver_change home) (resolverDuring flaky)
       (resolverRun um ma domain setref cou)"

interpretation upstreams: reconciler "\<lambda>e a. deliver (resolverSetup (Some (ra_list a))) e" "resolver_change home"
  "resolverDuring flaky" "resolverRun um ma domain setref cou" "\<lambda>key. key" sourceView
  "\<lambda>key v w. resolver_lib objs setref cou \<longrightarrow> outputCurrent flaky um ma domain home (objs w) key v" "coherent home"
  for flaky um ma domain setref cou home objs
proof
  show "coherent home a'" if "resolver_change home e a a'" for a a' e
    using that by (simp add: resolver_change_def)
  show "sourceView g a' = sourceView g a \<or>
      (\<forall>w. resolver_lib objs setref cou \<longrightarrow> outputCurrent flaky um ma domain home (objs w) g (sourceView g a'))"
    if "coherent home a" "resolver_change home e a a'" "g \<notin> (\<lambda>key. key) ` set (deliver (resolverSetup (Some (ra_list a'))) e)"
    for a a' e g
    using resolver_unseen [OF that(1,2), of g] that(3) by (auto simp: outputCurrent_def)
  show "resolver_lib objs setref cou \<longrightarrow> outputCurrent flaky um ma domain home (objs w') k v"
    if ne: "seen \<noteq> []" and hx: "\<forall>x \<in> set seen. coherent home x \<and> sourceView k x = v" and read: "resolverDuring flaky seen b"
      and run: "resolverRun um ma domain setref cou k b w None w'"
    for seen k v b w w'
  proof (cases v)
    case (Some gs)
    obtain x e where x: "x \<in> set seen" "ra_get b k = ra_get x k \<or> ra_get b k = GetFailed e"
      using resolverDuring_one [OF ne read, of k] by blast
    have get: "ra_get b k = ra_get x k" using x(2) run by (auto simp: resolverRun_def resolverReconcile_def)
    have all: "followed (ra_get y k)" "gs = (ra_get y k, ra_service y)" if "y \<in> set seen" for y
      using hx Some that by (auto simp: sourceView_def split: if_splits)
    obtain src where src: "ra_get x k = Found src" "isResolverSource src"
      using all(1) [OF x(1)] by (auto simp: followed_def isResolverSource_def split: got.splits)
    have "servicesRead flaky (ra_service b) (ra_service x)"
      unfolding servicesRead_def
    proof (intro allI)
      fix ns n
      consider "flaky \<and> ra_service b ns n = None" | y where "y \<in> set seen" "ra_service b ns n = ra_service y ns n"
        using read unfolding resolverDuring_def by blast
      then show "ra_service b ns n = ra_service x ns n \<or> flaky \<and> ra_service b ns n = None"
      proof cases
        case 2
        then show ?thesis using all(2) [of y] all(2) [OF x(1)] by simp
      qed simp
    qed
    then show ?thesis
      using resolverRun_works [OF _ run] src get all(2) [OF x(1)] by (auto simp: outputCurrent_def Some)
  qed (simp add: outputCurrent_def)
  show "resolver_lib objs setref cou \<longrightarrow> outputCurrent flaky um ma domain home (objs w') g v"
    if ne: "seen \<noteq> []" and hx: "\<forall>x \<in> set seen. coherent home x" and read: "resolverDuring flaky seen b"
      and run: "resolverRun um ma domain setref cou k b w r w'" and kg: "k \<noteq> g"
      and cur: "resolver_lib objs setref cou \<longrightarrow> outputCurrent flaky um ma domain home (objs w) g v"
    for seen b k w r w' g v
  proof
    assume lib: "resolver_lib objs setref cou"
    obtain x e where x: "x \<in> set seen" "ra_get b k = ra_get x k \<or> ra_get b k = GetFailed e"
      using resolverDuring_one [OF ne read, of k] by blast
    then have "coherent home x" using hx by simp
    then have home: "home (cm_ns src, resolvedOutputName src) \<in> {None, Some k}" if "ra_get b k = Found src" "isResolverSource src" for src
    proof -
      have "ra_get x k = Found src" using x(2) that(1) by auto
      from coherent_found [OF \<open>coherent home x\<close> this] show ?thesis using that(2) by blast
    qed
    have same: "objs w' okey = objs w okey" if "home okey = Some g" for okey
      by (rule resolverRun_apart [OF lib run]) (use home that kg in fastforce)
    show "outputCurrent flaky um ma domain home (objs w') g v"
      using cur lib by (simp add: outputCurrent_cong [where objs' = "objs w'" and objs = "objs w", OF same])
  qed
qed

definition resolverStart :: "resolver_api \<Rightarrow> 'w \<Rightarrow> (resolver_api, 'w, cm_key) ctl_state" where
  "resolverStart a w =
     \<lparr>cs_api = a, cs_out = w, cs_queue = {(cm_ns cm, cm_name cm) | cm. cm \<in> set (ra_list a) \<and> isResolverSource cm}, cs_run = None\<rparr>"

lemma resolverStart_inv:
  assumes "coherent home a"
  shows "upstreams.loop_inv objs setref cou flaky um ma domain home (resolverStart a w)"
proof -
  have q: "key \<in> cs_queue (resolverStart a w) \<or> sourceView key a = None" for key
  proof (cases "followed (ra_get a key)")
    case True
    then obtain src where src: "ra_get a key = Found src" "isResolverSource src"
      by (auto simp: followed_def isResolverSource_def split: got.splits)
    then show ?thesis using coherent_found [OF assms src(1)] by (auto simp: resolverStart_def)
  qed (simp add: sourceView_def)
  have "outputCurrent flaky um ma domain home (objs w) key None" for key by (simp add: outputCurrent_def)
  then have "key \<in> cs_queue (resolverStart a w) \<or> outputCurrent flaky um ma domain home (objs w) key (sourceView key a)" for key
    using q [of key] by (elim disjE) simp_all
  moreover have "cs_api (resolverStart a w) = a" "cs_out (resolverStart a w) = w" "cs_run (resolverStart a w) = None"
    by (simp_all add: resolverStart_def)
  ultimately show ?thesis
    using assms unfolding upstreams.loop_inv_def upstreams.run_ok_def upstreams.pending_def image_ident by simp blast
qed

text \<open>
  Claim C27. No change is lost by the resolver. Whatever ConfigMaps and Services change, in whatever order, also
  while reconciles run and while they report errors and are repeated: as soon as nothing is left to do,
  the output of every source labelled \<^verbatim>\<open>true\<close> that can be resolved holds the source's present document
  with the present ClusterIPs. The output must be the source's own: no other source ever names it, and
  only the resolver writes it. Reads may be flaky: the code keeps an entry whose Service cannot be
  read and does not retry, so with flaky reads the ClusterIPs are the ones that could be read. The
  listing of sources in the Service handler is taken to succeed.
\<close>

theorem resolver_follows_services:
  assumes lib: "resolver_lib objs setref cou" and a: "coherent home a"
    and run: "(resolver_step flaky um ma domain setref cou home)\<^sup>*\<^sup>* (resolverStart a w) t" and "idle t"
    and src: "ra_get (cs_api t) key = Found src" "gget (cm_labels src) ResolverSourceLabel = Some ''true''"
      "gget (cm_data src) UpstreamsKey = Some raw"
    and own: "home (cm_ns src, resolvedOutputName src) = Some key"
  shows "\<exists>got. servicesRead flaky got (ra_service (cs_api t)) \<and> (\<not> flaky \<longrightarrow> got = ra_service (cs_api t)) \<and>
    (\<forall>text sm. resolveYAML um ma got domain (cm_ns src) raw = Inr (text, sm) \<longrightarrow>
      (\<exists>out. objs (cs_out t) (cm_ns src, resolvedOutputName src) = Some out \<and> gget (cm_data out) UpstreamsKey = Some text))"
proof -
  have view: "sourceView key (cs_api t) = Some (Found src, ra_service (cs_api t))"
    using src(1,2) by (simp add: sourceView_def followed_def)
  have "outputCurrent flaky um ma domain home (objs (cs_out t)) key (sourceView key (cs_api t))"
    using upstreams.nothing_lost [where objs = objs, OF resolverStart_inv [OF a] run \<open>idle t\<close>] lib by blast
  then obtain got where got: "servicesRead flaky got (ra_service (cs_api t))" "resolvedAs um ma domain (objs (cs_out t)) src got"
    using own unfolding view by (auto simp: outputCurrent_def)
  moreover have "\<not> flaky \<longrightarrow> got = ra_service (cs_api t)" using got(1) servicesRead_steady by (cases flaky) simp_all
  moreover have "\<forall>text sm. resolveYAML um ma got domain (cm_ns src) raw = Inr (text, sm) \<longrightarrow>
      (\<exists>out. objs (cs_out t) (cm_ns src, resolvedOutputName src) = Some out \<and> gget (cm_data out) UpstreamsKey = Some text)"
    using got(2) src(3) by (auto simp: resolvedAs_def)
  ultimately show ?thesis by blast
qed

text \<open>One source and one Service; the reconcile is the one of theory Resolver's example.\<close>

definition oneSource :: resolver_api where
  "oneSource = \<lparr>ra_get = (\<lambda>key. if key = (''ns'', ''up'') then Found (srcMap ''true'') else Missing),
     ra_list = [srcMap ''true''], ra_service = webSvc ''10.0.0.7''\<rparr>"

lemma resolver_follows_services_witness:
  "\<exists>t out. (resolver_step False docReader docWriter [] (\<lambda>_ out. Inr out) mem_cou_f (\<lambda>_. Some (''ns'', ''up'')))\<^sup>*\<^sup>* (resolverStart oneSource (\<lambda>_. None)) t \<and>
     idle t \<and> cs_out t (''ns'', ''up-resolved'') = Some out \<and> gget (cm_data out) UpstreamsKey = Some ''out''"
proof -
  let ?k = "(''ns'', ''up'')" and ?home = "\<lambda>_. Some (''ns'', ''up'')" and ?ref = "\<lambda>_ out. Inr out" and ?src = "srcMap ''true''"
  let ?step = "resolver_step False docReader docWriter [] ?ref mem_cou_f ?home" 
    and ?s = "resolverStart oneSource (\<lambda>_. None) :: (resolver_api, cm_key \<Rightarrow> configmap option, cm_key) ctl_state"
  have lib: "resolver_lib (\<lambda>w. w) ?ref mem_cou_f"
    by (auto simp: resolver_lib_def cou_f_ok_def mem_cou_f_def setref_ok_def stored_def split: sum.splits)
  have co: "coherent ?home oneSource" by (auto simp: coherent_def oneSource_def srcMap_def)
  have s: "?s = \<lparr>cs_api = oneSource, cs_out = (\<lambda>_. None), cs_queue = {?k}, cs_run = None\<rparr>"
    by (auto simp: resolverStart_def oneSource_def srcMap_def isResolverSource_def)
  obtain r w' where run: "resolverRun docReader docWriter [] ?ref mem_cou_f ?k oneSource (\<lambda>_. None) r w'"
    unfolding resolverRun_def by fastforce
  obtain sm where y: "resolveYAML docReader docWriter (webSvc ''10.0.0.7'') [] ''ns'' ''raw'' = Inr (''out'', sm)"
    using web_facts(4) by blast
  have src: "ra_get oneSource ?k = Found ?src" "gget (cm_labels ?src) ResolverSourceLabel = Some ''true''"
    "gget (cm_data ?src) UpstreamsKey = Some ''raw''" "cm_ns ?src = ''ns''" "resolvedOutputName ?src = ''up-resolved''"
    "isResolverSource ?src" "ra_service oneSource = webSvc ''10.0.0.7''"
    by (simp_all add: oneSource_def srcMap_def resolvedOutputName_def isResolverSource_def)
  have "r = None"
    using run y by (simp add: resolverRun_def resolverReconcile_def src Let_def mem_cou_f_def mutateResolved_def)
  let ?u = "?s\<lparr>cs_queue := cs_queue ?s - {?k}, cs_run := Some (?k, [cs_api ?s])\<rparr>"
  let ?t = "?u\<lparr>cs_out := w', cs_run := None\<rparr>"
  have "?step ?s ?u" by (rule Begin) (simp_all add: s)
  moreover have "?step ?u ?t"
    by (rule Done [where k = ?k and seen = "[oneSource]" and b = oneSource])
      (use run \<open>r = None\<close> in \<open>simp_all add: s resolverDuring_def\<close>)
  ultimately have steps: "?step\<^sup>*\<^sup>* ?s ?t" by simp
  have t: "idle ?t" "cs_api ?t = oneSource" by (simp_all add: idle_def s)
  have own: "?home (cm_ns ?src, resolvedOutputName ?src) = Some ?k" by simp
  have now: "ra_get (cs_api ?t) ?k = Found ?src" unfolding t(2) by (rule src(1))
  from resolver_follows_services [OF lib co steps t(1) now src(2,3) own]
  have "\<exists>out. cs_out ?t (cm_ns ?src, resolvedOutputName ?src) = Some out \<and> gget (cm_data out) UpstreamsKey = Some ''out''"
    unfolding t(2) src(4,7) using y by blast
  then show ?thesis using steps t(1) unfolding src by blast
qed

section \<open>Where the watches end\<close>

text \<open>
  When the handler's own listing fails, the change of a Service is dropped: no source is enqueued and
  nothing is retried.
\<close>

theorem failed_listing_drops_event:
  "deliver (resolverSetup None) (Updated (ObjService old) (ObjService new)) = [] \<and>
   deliver (netVarsSetup None) (Updated (ObjService old) (ObjService new)) = []"
  by (simp add: setup_defs enqueueAllSources_def enqueueNetVarsSources_def)

end
