(* ===== verification/HashLoop.thy ===== *)
theory HashLoop
  imports Watches WorkQueue
begin

text \<open>
  The config-hash controller as a process: one key for each labelled ConfigMap and Secret, and a
  reconcile of any of them stamps all the workloads of its namespace. The workloads of a namespace
  follow its sources; where the watches end is stated at the end of the theory.
\<close>

section \<open>The sources change\<close>

record config_api =
  ca_cms :: "configmap list"
  ca_secrets :: "secret list"

text \<open>The two listings of a reconcile: the labelled objects of the namespace.\<close>

definition nsMaps :: "(labels \<Rightarrow> bool) option \<Rightarrow> string \<Rightarrow> config_api \<Rightarrow> configmap list" where
  "nsMaps sel ns a = filter (\<lambda>cm. cm_ns cm = ns \<and> selector sel (cm_labels cm)) (ca_cms a)"

definition nsSecrets :: "(labels \<Rightarrow> bool) option \<Rightarrow> string \<Rightarrow> config_api \<Rightarrow> secret list" where
  "nsSecrets sel ns a = filter (\<lambda>s. sec_ns s = ns \<and> selector sel (sec_labels s)) (ca_secrets a)"

definition nsView :: "(labels \<Rightarrow> bool) option \<Rightarrow> string \<Rightarrow> config_api \<Rightarrow> configmap list \<times> secret list" where
  "nsView sel ns a = (nsMaps sel ns a, nsSecrets sel ns a)"

definition labelled :: "(labels \<Rightarrow> bool) option \<Rightarrow> k8s_object \<Rightarrow> bool" where
  "labelled sel x \<longleftrightarrow> kindOf x \<in> {KConfigMap, KSecret} \<and> selector sel (objectLabels x)"

text \<open>An update that does not take the label away; see the last section for what happens otherwise.\<close>

fun keepsLabels :: "(labels \<Rightarrow> bool) option \<Rightarrow> api_event \<Rightarrow> bool" where
  "keepsLabels sel (Updated old new) = (labelled sel old \<longrightarrow> labelled sel new)"
| "keepsLabels sel _ = True"

text \<open>
  An event about a labelled object changes the listings of its namespace, an event about an object that
  loses the label does too, any other event none. In the namespace \<open>ns0\<close> labels are not taken away.
\<close>

definition config_change :: "(labels \<Rightarrow> bool) option \<Rightarrow> string \<Rightarrow> api_event \<Rightarrow> config_api \<Rightarrow> config_api \<Rightarrow> bool" where
  "config_change sel ns0 e a a' \<longleftrightarrow> (fst (objectKey (subject e)) = ns0 \<longrightarrow> keepsLabels sel e) \<and>
     (\<forall>ns. (labelled sel (subject e) \<or> \<not> keepsLabels sel e) \<and> ns = fst (objectKey (subject e)) \<or> nsView sel ns a' = nsView sel ns a)"

definition configDuring :: "(labels \<Rightarrow> bool) option \<Rightarrow> config_api list \<Rightarrow> config_api \<Rightarrow> bool" where
  "configDuring sel seen b \<longleftrightarrow>
     (\<forall>ns. (\<exists>x \<in> set seen. nsMaps sel ns b = nsMaps sel ns x) \<and> (\<exists>x \<in> set seen. nsSecrets sel ns b = nsSecrets sel ns x))"

section \<open>The output\<close>

definition stamped :: "(string \<Rightarrow> string) \<Rightarrow> hash_cfg \<Rightarrow> configmap list \<times> secret list \<Rightarrow> workloads \<Rightarrow> bool" where
  "stamped canon cfg v s \<longleftrightarrow>
     (\<forall>w \<in> set (allWorkloads s). let h = workloadHash canon cfg (fst v) (snd v) w in
        h \<noteq> [] \<longrightarrow> gget (wl_annotations w) (hc_annotation cfg) = Some h)"

text \<open>A reconcile: each of its reads, listings and patches may fail.\<close>

definition hashRun ::
  "(string \<Rightarrow> string) \<Rightarrow> hash_cfg \<Rightarrow> (labels \<Rightarrow> bool) option
    \<Rightarrow> request \<Rightarrow> config_api \<Rightarrow> (string \<Rightarrow> workloads) \<Rightarrow> string option \<Rightarrow> (string \<Rightarrow> workloads) \<Rightarrow> bool" where
  "hashRun canon cfg sel key b w r w' \<longleftrightarrow>
     (\<exists>h s. (ha_cms h = None \<or> ha_cms h = Some (nsMaps sel (fst key) b)) \<and>
        (ha_secrets h = None \<or> ha_secrets h = Some (nsSecrets sel (fst key) b)) \<and>
        hashReconcile canon cfg h (w (fst key)) = (r, s) \<and> w' = w(fst key := s))"

lemma hashRun_works:
  assumes "hashRun canon cfg sel key b w None w'"
  shows "stamped canon cfg (nsView sel (fst key) b) (w' (fst key))"
proof -
  obtain h s where h: "ha_cms h = None \<or> ha_cms h = Some (nsMaps sel (fst key) b)"
      "ha_secrets h = None \<or> ha_secrets h = Some (nsSecrets sel (fst key) b)"
      "hashReconcile canon cfg h (w (fst key)) = (None, s)" "w' = w(fst key := s)"
    using assms unfolding hashRun_def by blast
  have "listConfigSources h = Inr (nsMaps sel (fst key) b, nsSecrets sel (fst key) b)"
    using h(1-3) by (auto simp: hashReconcile_def listConfigSources_def split: option.splits)
  from hashReconcile_effect [OF this h(3)] show ?thesis
    by (simp add: stamped_def nsView_def h(4))
qed

section \<open>The loop\<close>

lemma hash_delivers: "deliver (hashSetup sel) e = (if labelled sel (subject e) then [objectKey (subject e)] else [])"
  by (simp add: setup_defs labelled_def)

abbreviation hash_step where
  "hash_step canon cfg sel ns0 \<equiv>
     ctl_step (\<lambda>e _. deliver (hashSetup sel) e) (config_change sel ns0) (configDuring sel) (hashRun canon cfg sel)"

text \<open>The parts are the namespaces.\<close>

interpretation hash: reconciler "\<lambda>e _. deliver (hashSetup sel) e" "config_change sel ns0" "configDuring sel"
  "hashRun canon cfg sel" fst "nsView sel" "\<lambda>ns v w. ns = ns0 \<longrightarrow> stamped canon cfg v (w ns)" "\<lambda>_. True"
  for canon cfg sel ns0
proof
  show "nsView sel g a' = nsView sel g a \<or> (\<forall>w. g = ns0 \<longrightarrow> stamped canon cfg (nsView sel g a') (w g))"
    if "config_change sel ns0 e a a'" "g \<notin> fst ` set (deliver (hashSetup sel) e)" for a a' e g
    using that by (auto simp: config_change_def hash_delivers split: if_splits)
  show "fst k = ns0 \<longrightarrow> stamped canon cfg v (w' (fst k))"
    if hx: "\<forall>x \<in> set seen. True \<and> nsView sel (fst k) x = v" and read: "configDuring sel seen b"
      and run: "hashRun canon cfg sel k b w None w'"
    for seen k v b w w'
  proof -
    obtain x y where "x \<in> set seen" "nsMaps sel (fst k) b = nsMaps sel (fst k) x"
        "y \<in> set seen" "nsSecrets sel (fst k) b = nsSecrets sel (fst k) y"
      using read unfolding configDuring_def by blast
    moreover from this have "nsView sel (fst k) x = v" "nsView sel (fst k) y = v" using hx by simp_all
    ultimately have "nsView sel (fst k) b = v" unfolding nsView_def by auto
    then show ?thesis using hashRun_works [OF run] by auto
  qed
  show "g = ns0 \<longrightarrow> stamped canon cfg v (w' g)"
    if "hashRun canon cfg sel k b w r w'" "fst k \<noteq> g" "g = ns0 \<longrightarrow> stamped canon cfg v (w g)" for k b w r w' g v
    using that by (auto simp: hashRun_def)
qed auto

definition hashStart ::
  "(labels \<Rightarrow> bool) option \<Rightarrow> config_api \<Rightarrow> (string \<Rightarrow> workloads) \<Rightarrow> (config_api, string \<Rightarrow> workloads, request) ctl_state" where
  "hashStart sel a w =
     \<lparr>cs_api = a, cs_out = w,
      cs_queue = {(ns, n). (\<exists>cm \<in> set (nsMaps sel ns a). cm_name cm = n) \<or> (\<exists>s \<in> set (nsSecrets sel ns a). sec_name s = n)},
      cs_run = None\<rparr>"

text \<open>A namespace without sources has nothing to stamp.\<close>

lemma no_sources: "stamped canon cfg ([], []) s"
proof -
  have "workloadHash canon cfg [] [] w = []" for w
    by (simp add: workloadHash_def hashForWorkload_def hashConfigSources_def hashEntries_def filterConfigMaps_def filterSecrets_def)
  then show ?thesis by (simp add: stamped_def)
qed

lemma hashStart_inv: "hash.loop_inv sel ns0 canon cfg (hashStart sel a w)"
proof -
  have "ns \<in> fst ` cs_queue (hashStart sel a w) \<or> nsView sel ns a = ([], [])" for ns
  proof (cases "nsMaps sel ns a = [] \<and> nsSecrets sel ns a = []")
    case False
    then obtain n where "(ns, n) \<in> cs_queue (hashStart sel a w)"
      by (cases "nsMaps sel ns a"; cases "nsSecrets sel ns a") (auto simp: hashStart_def)
    then show ?thesis by force
  qed (simp add: nsView_def)
  moreover have "cs_api (hashStart sel a w) = a" "cs_run (hashStart sel a w) = None" by (simp_all add: hashStart_def)
  ultimately show ?thesis
    unfolding hash.loop_inv_def hash.run_ok_def hash.pending_def using no_sources by simp metis
qed

text \<open>
  Claim C7. The rollout follows the configuration: whatever labelled ConfigMaps and Secrets are created, edited
  and deleted, in whatever order, also while reconciles run and while they fail and are repeated, as soon
  as nothing is left to do every workload of a namespace that has a hash carries the hash of the present
  sources of that namespace. This holds for every namespace in which no edit takes the selected label off
  a source (such an edit starts no reconcile), with workloads that only the controller changes (they
  are not watched).
\<close>

theorem hash_follows_config:
  assumes run: "(hash_step canon cfg sel ns)\<^sup>*\<^sup>* (hashStart sel a w) t" and "idle t"
  shows "stamped canon cfg (nsView sel ns (cs_api t)) (cs_out t ns)"
  using hash.nothing_lost [OF hashStart_inv run \<open>idle t\<close>, of ns] by simp

definition oneConfig :: config_api where
  "oneConfig = \<lparr>ca_cms = [mk_cm [(''a'', ''1'')]], ca_secrets = []\<rparr>"

definition webWorkloads :: "string \<Rightarrow> workloads" where
  "webWorkloads ns = web_workloads"

lemma hash_follows_config_witness:
  "\<exists>t. (hash_step (\<lambda>s. s) plain_cfg None ''ns'')\<^sup>*\<^sup>* (hashStart None oneConfig webWorkloads) t \<and> idle t \<and>
     stamped (\<lambda>s. s) plain_cfg ([mk_cm [(''a'', ''1'')]], []) (cs_out t ''ns'')"
proof -
  let ?step = "hash_step (\<lambda>s. s) plain_cfg None ''ns''" and ?s = "hashStart None oneConfig webWorkloads" and ?k = "(''ns'', ''cfg'')"
  have v: "nsMaps None ''ns'' oneConfig = [mk_cm [(''a'', ''1'')]]" "nsSecrets None ''ns'' oneConfig = []"
    by (simp_all add: nsMaps_def nsSecrets_def oneConfig_def selector_def mk_cm_def)
  have "(ns, n) \<in> cs_queue ?s \<longleftrightarrow> (ns, n) = ?k" for ns n
    by (auto simp: hashStart_def nsMaps_def nsSecrets_def oneConfig_def selector_def mk_cm_def)
  then have s: "?s = \<lparr>cs_api = oneConfig, cs_out = webWorkloads, cs_queue = {?k}, cs_run = None\<rparr>"
    by (auto simp: hashStart_def)
  obtain s' where r: "hashReconcile (\<lambda>s. s) plain_cfg web_api (webWorkloads ''ns'') = (None, s')"
    using web_reconcile(2) unfolding webWorkloads_def by blast
  then have run: "hashRun (\<lambda>s. s) plain_cfg None ?k oneConfig webWorkloads None (webWorkloads(''ns'' := s'))"
    unfolding hashRun_def using v by (intro exI [of _ web_api] exI [of _ s']) (simp add: web_api_def)
  let ?u = "?s\<lparr>cs_queue := cs_queue ?s - {?k}, cs_run := Some (?k, [cs_api ?s])\<rparr>"
  let ?t = "?u\<lparr>cs_out := webWorkloads(''ns'' := s'), cs_run := None\<rparr>"
  have "?step ?s ?u" by (rule Begin) (simp_all add: s)
  moreover have "?step ?u ?t"
    by (rule Done [where k = ?k and seen = "[oneConfig]" and b = oneConfig]) (use run in \<open>simp_all add: s configDuring_def\<close>)
  ultimately have steps: "?step\<^sup>*\<^sup>* ?s ?t" by simp
  have t: "idle ?t" "cs_api ?t = oneConfig" by (simp_all add: idle_def s)
  have "stamped (\<lambda>s. s) plain_cfg ([mk_cm [(''a'', ''1'')]], []) (cs_out ?t ''ns'')"
    using hash_follows_config [OF steps t(1)] unfolding t(2) nsView_def v .
  then show ?thesis using steps t(1) by blast
qed

section \<open>Where the watches end\<close>

text \<open>
  An update that takes the label away is filtered out by its new object, although it changes what a
  reconcile would hash; and nothing but ConfigMaps and Secrets is watched, so a workload that is created
  later is not stamped before the next change of a source.
\<close>

theorem label_removal_unseen:
  assumes "selector sel (cm_labels old)" "\<not> selector sel (cm_labels new)" "cm_ns new = cm_ns old"
  shows "deliver (hashSetup sel) (Updated (ObjConfigMap old) (ObjConfigMap new)) = [] \<and>
    nsMaps sel (cm_ns old) \<lparr>ca_cms = [new], ca_secrets = []\<rparr> \<noteq> nsMaps sel (cm_ns old) \<lparr>ca_cms = [old], ca_secrets = []\<rparr> \<and>
    (kindOf (subject e) \<notin> {KConfigMap, KSecret} \<longrightarrow> deliver (hashSetup sel) e = [])"
  using assms by (auto simp: hash_delivers labelled_def nsMaps_def)

lemma label_removal_unseen_witness:
  "deliver (hashSetup (Some (\<lambda>l. ghas l ''app''))) (Updated (ObjConfigMap (mk_cm [(''a'', ''1'')]\<lparr>cm_labels := [(''app'', ''x'')]\<rparr>))
     (ObjConfigMap (mk_cm [(''a'', ''1'')]))) = []"
  using label_removal_unseen [of "Some (\<lambda>l. ghas l ''app'')" "mk_cm [(''a'', ''1'')]\<lparr>cm_labels := [(''app'', ''x'')]\<rparr>" "mk_cm [(''a'', ''1'')]"]
  by (simp add: selector_def mk_cm_def ghas_def)

end
