(* ===== verification/NetVarsLoop.thy ===== *)
theory NetVarsLoop
  imports Watches
begin

text \<open>
  The network-variables resolver as a process. It differs from the other reconcilers in that it
  updates the ConfigMap it watches: its own write is an event that queues the source again. So that
  it comes to rest has to be proved.
\<close>

section \<open>The store\<close>

type_synonym sources = "cm_key \<Rightarrow> configmap option"

definition gotOf :: "configmap option \<Rightarrow> configmap got" where
  "gotOf m = (case m of Some cm \<Rightarrow> Found cm | None \<Rightarrow> Missing)"

text \<open>A listing of the store has every object, under its own key.\<close>

definition listing :: "configmap list \<Rightarrow> sources \<Rightarrow> bool" where
  "listing cms maps \<longleftrightarrow> (\<forall>key cm. maps key = Some cm \<longleftrightarrow> cm \<in> set cms \<and> key = (cm_ns cm, cm_name cm))"

definition keyed :: "sources \<Rightarrow> bool" where
  "keyed maps \<longleftrightarrow> (\<forall>key cm. maps key = Some cm \<longrightarrow> key = (cm_ns cm, cm_name cm))"

lemma listing_keyed: "listing cms maps \<Longrightarrow> keyed maps"
  by (simp add: listing_def keyed_def)

fun storedAfter :: "api_event \<Rightarrow> configmap option" where
  "storedAfter (Created (ObjConfigMap cm)) = Some cm"
| "storedAfter (Updated _ (ObjConfigMap cm)) = Some cm"
| "storedAfter _ = None"

text \<open>Anyone may edit ConfigMaps, and Nodes and Services come and go.\<close>

definition net_change :: "api_event \<Rightarrow> sources \<times> net_api \<Rightarrow> sources \<times> net_api \<Rightarrow> bool" where
  "net_change e s s' \<longleftrightarrow>
     (case kindOf (subject e) of
        KConfigMap \<Rightarrow> s' = ((fst s)(objectKey (subject e) := storedAfter e), snd s)
      | KNode \<Rightarrow> fst s' = fst s
      | KService \<Rightarrow> fst s' = fst s
      | _ \<Rightarrow> s' = s)"

text \<open>
  What a reconcile may have read between its start and its end: the source and each listing as of
  some moment in between, or an error.
\<close>

definition netDuring :: "(sources \<times> net_api) list \<Rightarrow> cm_key \<Rightarrow> configmap got \<Rightarrow> net_api \<Rightarrow> bool" where
  "netDuring seen key got a \<longleftrightarrow>
     ((\<exists>e. got = GetFailed e) \<or> (\<exists>x \<in> set seen. got = gotOf (fst x key))) \<and>
     (net_nodes a = None \<or> (\<exists>x \<in> set seen. net_nodes a = net_nodes (snd x))) \<and>
     (net_services a = None \<or> (\<exists>x \<in> set seen. net_services a = net_services (snd x)))"

section \<open>The process\<close>

record nv_state =
  nv_api :: "sources \<times> net_api"
  nv_queue :: "cm_key set"
  nv_run :: "(cm_key \<times> (sources \<times> net_api) list) option"

text \<open>
  \<open>upd\<close> is the API server's answer to the update: it may refuse, and it does when the object is no
  longer the one that was read. An accepted update is an event like any other.
\<close>

inductive nv_step :: "yreader \<Rightarrow> ywriter \<Rightarrow> nv_state \<Rightarrow> nv_state \<Rightarrow> bool" for um ma where
  NvChange: "net_change e (nv_api s) api' \<Longrightarrow> listing cms (fst api') \<Longrightarrow>
    nv_step um ma s (s\<lparr>nv_api := api', nv_queue := nv_queue s \<union> set (deliver (netVarsSetup (Some cms)) e),
      nv_run := map_option (\<lambda>(key, seen). (key, seen @ [api'])) (nv_run s)\<rparr>)"
| NvBegin: "key \<in> nv_queue s \<Longrightarrow> nv_run s = None \<Longrightarrow>
    nv_step um ma s (s\<lparr>nv_queue := nv_queue s - {key}, nv_run := Some (key, [nv_api s])\<rparr>)"
| NvDone: "nv_run s = Some (key, seen) \<Longrightarrow> netDuring seen key got a \<Longrightarrow> netvarsReconcile um ma upd a got = Inr None \<Longrightarrow>
    nv_step um ma s (s\<lparr>nv_run := None\<rparr>)"
| NvWrite: "nv_run s = Some (key, seen) \<Longrightarrow> netDuring seen key (Found cm) a \<Longrightarrow>
    netvarsReconcile um ma upd a (Found cm) = Inr (Some cm') \<Longrightarrow> fst (nv_api s) key = Some cm \<Longrightarrow>
    nv_step um ma s (s\<lparr>nv_api := ((fst (nv_api s))(key \<mapsto> cm'), snd (nv_api s)),
      nv_queue := nv_queue s \<union> set (deliver (netVarsSetup lst) (Updated (ObjConfigMap cm) (ObjConfigMap cm'))),
      nv_run := None\<rparr>)"
| NvRetry: "nv_run s = Some (key, seen) \<Longrightarrow> netDuring seen key got a \<Longrightarrow> netvarsReconcile um ma upd a got = Inl err \<Longrightarrow>
    nv_step um ma s (s\<lparr>nv_queue := insert key (nv_queue s), nv_run := None\<rparr>)"

text \<open>The worker alone, while nothing changes and nothing fails.\<close>

inductive nv_work :: "yreader \<Rightarrow> ywriter \<Rightarrow> nv_state \<Rightarrow> nv_state \<Rightarrow> bool" for um ma where
  NwBegin: "key \<in> nv_queue s \<Longrightarrow> nv_run s = None \<Longrightarrow>
    nv_work um ma s (s\<lparr>nv_queue := nv_queue s - {key}, nv_run := Some (key, [nv_api s])\<rparr>)"
| NwDone: "nv_run s = Some (key, seen) \<Longrightarrow>
    netvarsReconcile um ma (\<lambda>_. True) (snd (nv_api s)) (gotOf (fst (nv_api s) key)) = Inr None \<Longrightarrow>
    nv_work um ma s (s\<lparr>nv_run := None\<rparr>)"
| NwWrite: "nv_run s = Some (key, seen) \<Longrightarrow> fst (nv_api s) key = Some cm \<Longrightarrow>
    netvarsReconcile um ma (\<lambda>_. True) (snd (nv_api s)) (Found cm) = Inr (Some cm') \<Longrightarrow>
    nv_work um ma s (s\<lparr>nv_api := ((fst (nv_api s))(key \<mapsto> cm'), snd (nv_api s)),
      nv_queue := nv_queue s \<union> set (deliver (netVarsSetup lst) (Updated (ObjConfigMap cm) (ObjConfigMap cm'))),
      nv_run := None\<rparr>)"

definition nv_idle :: "nv_state \<Rightarrow> bool" where
  "nv_idle s \<longleftrightarrow> nv_queue s = {} \<and> nv_run s = None"

text \<open>A fresh start: the informer has delivered every source.\<close>

definition nvStart :: "configmap list \<Rightarrow> sources \<Rightarrow> net_api \<Rightarrow> nv_state" where
  "nvStart cms maps a = \<lparr>nv_api = (maps, a), nv_queue = set (enqueueNetVarsSources (Some cms)), nv_run = None\<rparr>"

section \<open>What is current\<close>

text \<open>A source is current when reconciling it against the cluster as it is would do nothing.\<close>

definition settled :: "yreader \<Rightarrow> ywriter \<Rightarrow> sources \<times> net_api \<Rightarrow> cm_key \<Rightarrow> bool" where
  "settled um ma api key \<longleftrightarrow> netvarsReconcile um ma (\<lambda>_. True) (snd api) (gotOf (fst api key)) = Inr None"

text \<open>What a source depends on; an object that is no source depends on nothing.\<close>

definition nvView :: "cm_key \<Rightarrow> sources \<times> net_api \<Rightarrow> (configmap \<times> net_api) option" where
  "nvView key api =
     (case fst api key of
        Some cm \<Rightarrow> if isNetVarsSource cm then Some (cm, snd api) else None
      | None \<Rightarrow> None)"

lemma settled_view: "nvView key api = None \<Longrightarrow> settled um ma api key"
  by (auto simp: settled_def nvView_def gotOf_def netvarsReconcile_def split: option.splits if_splits)

lemma settled_cong: "nvView key api' = nvView key api \<Longrightarrow> settled um ma api' key = settled um ma api key"
proof (cases "nvView key api")
  case None
  then show "nvView key api' = nvView key api \<Longrightarrow> ?thesis" by (simp add: settled_view)
next
  case (Some v)
  then show "nvView key api' = nvView key api \<Longrightarrow> ?thesis"
    by (auto simp: settled_def nvView_def split: option.splits if_splits)
qed

lemma source_label: "isNetVarsSource cm \<longleftrightarrow> gget (cm_labels cm) NetVarsSourceLabel = Some ''true''"
  by (auto simp: isNetVarsSource_def gstr_def split: option.splits)

text \<open>Every change of what a source depends on is delivered.\<close>

lemma undelivered_source:
  assumes "net_change e api api'" "listing cms (fst api')" "key \<notin> set (deliver (netVarsSetup (Some cms)) e)"
  shows "nvView key api' = nvView key api \<or> nvView key api' = None"
proof (cases "nvView key api'")
  case (Some v)
  then obtain cm where cm: "fst api' key = Some cm" "isNetVarsSource cm"
    by (auto simp: nvView_def split: option.splits if_splits)
  then have k: "cm \<in> set cms" "key = (cm_ns cm, cm_name cm)" using assms(2) unfolding listing_def by blast+
  have q: "key \<in> set (enqueueNetVarsSources (Some cms))"
    using k cm(2) by (auto simp: enqueueNetVarsSources_def source_label)
  show ?thesis
  proof (cases "kindOf (subject e) = KConfigMap")
    case True
    have "key \<noteq> objectKey (subject e)"
    proof
      assume here: "key = objectKey (subject e)"
      then have s: "storedAfter e = Some cm" using assms(1) True cm(1) by (simp add: net_change_def)
      then have "subject e = ObjConfigMap cm" by (cases e rule: storedAfter.cases) simp_all
      then show False using assms(3) cm(2) k(2) by (simp add: setup_defs)
    qed
    then show ?thesis using assms(1) True by (cases "fst api key") (simp_all add: net_change_def nvView_def)
  next
    case False
    then show ?thesis
      using assms(1,3) q by (cases "kindOf (subject e)") (auto simp: net_change_def setup_defs)
  qed
qed simp

text \<open>Reads that may fail cannot make a reconcile succeed with another answer.\<close>

lemma autoHomeNet_reads:
  assumes "net_nodes a = None \<or> net_nodes a = net_nodes a'" "net_services a = None \<or> net_services a = net_services a'"
    and "autoHomeNet a = Inr v"
  shows "autoHomeNet a' = Inr v"
  using assms by (cases "net_nodes a'"; cases "net_services a'")
    (auto simp: autoHomeNet_def addLoadBalancerIPs_def split: option.splits)

lemma netvars_reads:
  assumes "net_nodes a = None \<or> net_nodes a = net_nodes a'" "net_services a = None \<or> net_services a = net_services a'"
    and "netvarsReconcile um ma upd a (Found cm) = Inr None"
  shows "netvarsReconcile um ma (\<lambda>_. True) a' (Found cm) = Inr None"
proof -
  have "desiredHomeNet um a' cm raw = Inr p" if "desiredHomeNet um a cm raw = Inr p" for raw p
    using that autoHomeNet_reads [OF assms(1,2)] by (auto simp: desiredHomeNet_def Let_def split: if_splits sum.splits)
  then show ?thesis
    using assms(3) by (auto simp: netvarsReconcile_def netvarsSource_def Let_def split: if_splits option.splits sum.splits)
qed

lemma netvars_source_only: "netvarsReconcile um ma upd a (Found cm) = Inr (Some cm') \<Longrightarrow> isNetVarsSource cm"
  by (auto simp: netvarsReconcile_def split: if_splits)

text \<open>What is written keeps the label, so the write is delivered.\<close>

lemma netvars_write_labels:
  assumes "netvarsReconcile um ma upd a (Found cm) = Inr (Some cm')"
  shows "cm_labels cm' = cm_labels cm \<and> cm_ns cm' = cm_ns cm \<and> cm_name cm' = cm_name cm"
  using assms by (auto simp: netvarsReconcile_def netvarsSource_def Let_def split: if_splits option.splits sum.splits)

lemma own_write_delivered:
  assumes "netvarsReconcile um ma upd a (Found cm) = Inr (Some cm')"
  shows "deliver (netVarsSetup lst) (Updated (ObjConfigMap cm) (ObjConfigMap cm')) = [(cm_ns cm, cm_name cm)]"
  using netvars_source_only [OF assms] netvars_write_labels [OF assms]
  by (simp add: setup_defs isNetVarsSource_def)

section \<open>Nothing is lost\<close>

definition nv_inv :: "yreader \<Rightarrow> ywriter \<Rightarrow> nv_state \<Rightarrow> bool" where
  "nv_inv um ma s \<longleftrightarrow> finite (nv_queue s) \<and> keyed (fst (nv_api s)) \<and>
     (\<forall>key seen. nv_run s = Some (key, seen) \<longrightarrow>
        key \<in> nv_queue s \<or> nvView key (nv_api s) = None \<or> (\<forall>x \<in> set seen. nvView key x = nvView key (nv_api s))) \<and>
     (\<forall>key. key \<in> nv_queue s \<or> key \<in> fst ` set_option (nv_run s) \<or> settled um ma (nv_api s) key)"

lemma nv_invD:
  assumes "nv_inv um ma s"
  shows "finite (nv_queue s)" "keyed (fst (nv_api s))"
    "nv_run s = Some (key, seen) \<Longrightarrow>
        key \<in> nv_queue s \<or> nvView key (nv_api s) = None \<or> (\<forall>x \<in> set seen. nvView key x = nvView key (nv_api s))"
    "key \<in> nv_queue s \<or> key \<in> fst ` set_option (nv_run s) \<or> settled um ma (nv_api s) key"
  using assms unfolding nv_inv_def by blast+

text \<open>A reconcile that did nothing had nothing to do.\<close>

lemma nv_done_settled:
  assumes "nv_inv um ma s" "nv_run s = Some (key, seen)" "netDuring seen key got a"
    and "netvarsReconcile um ma upd a got = Inr None"
  shows "key \<in> nv_queue s \<or> settled um ma (nv_api s) key"
proof (cases "nvView key (nv_api s)")
  case (Some v)
  then obtain cm where v: "v = (cm, snd (nv_api s))" "fst (nv_api s) key = Some cm"
    by (auto simp: nvView_def split: option.splits if_splits)
  consider "key \<in> nv_queue s" | "\<forall>x \<in> set seen. nvView key x = Some v" using nv_invD(3) [OF assms(1,2)] Some by auto
  then show ?thesis
  proof cases
    case 2
    then have x: "\<forall>x \<in> set seen. fst x key = Some cm \<and> snd x = snd (nv_api s)"
      by (auto simp: nvView_def v(1) split: option.splits if_splits)
    have "got = Found cm" using assms(3,4) x by (auto simp: netDuring_def gotOf_def netvarsReconcile_def)
    moreover have "net_nodes a = None \<or> net_nodes a = net_nodes (snd (nv_api s))"
      "net_services a = None \<or> net_services a = net_services (snd (nv_api s))"
      using assms(3) x unfolding netDuring_def by auto
    ultimately show ?thesis
      using netvars_reads [of a "snd (nv_api s)"] assms(4) v(2) by (simp add: settled_def gotOf_def)
  qed simp
qed (simp add: settled_view)

lemma nv_inv_change:
  assumes inv: "nv_inv um ma s" and e: "net_change e (nv_api s) api'" "listing cms (fst api')"
  shows "nv_inv um ma (s\<lparr>nv_api := api', nv_queue := nv_queue s \<union> set (deliver (netVarsSetup (Some cms)) e),
      nv_run := map_option (\<lambda>(key, seen). (key, seen @ [api'])) (nv_run s)\<rparr>)" (is "nv_inv um ma ?t")
proof -
  have same: "key \<in> nv_queue ?t \<or> nvView key api' = nvView key (nv_api s) \<or> nvView key api' = None" for key
    using undelivered_source [OF e, of key] by auto
  have "key \<in> nv_queue ?t \<or> key \<in> fst ` set_option (nv_run ?t) \<or> settled um ma api' key" for key
    using nv_invD(4) [OF inv, of key] same [of key] settled_cong [of key api' "nv_api s" um ma] settled_view [of key api' um ma]
    by (cases "nv_run s") auto
  moreover have "key \<in> nv_queue ?t \<or> nvView key api' = None \<or> (\<forall>x \<in> set seen. nvView key x = nvView key api')"
    if run: "nv_run ?t = Some (key, seen)" for key seen
  proof -
    obtain old where "nv_run s = Some (key, old)" "seen = old @ [api']" using run by (cases "nv_run s") auto
    then show ?thesis using nv_invD(3) [OF inv, of key old] same [of key] by auto
  qed
  ultimately show ?thesis using nv_invD(1) [OF inv] listing_keyed [OF e(2)] by (simp add: nv_inv_def)
qed

text \<open>A write touches its own source only.\<close>

lemma settled_apart: "key' \<noteq> key \<Longrightarrow> settled um ma (maps(key \<mapsto> cm), a) key' = settled um ma (maps, a) key'"
  by (simp add: settled_def)

lemma nv_inv_step:
  assumes "nv_step um ma s t" "nv_inv um ma s"
  shows "nv_inv um ma t"
  using assms
proof (cases rule: nv_step.cases)
  case (NvChange e api' cms)
  then show ?thesis using nv_inv_change [OF assms(2)] by simp
next
  case (NvBegin key)
  then show ?thesis using nv_invD(1,2,4) [OF assms(2)] by (auto simp: nv_inv_def)
next
  case (NvDone key seen got a upd)
  then show ?thesis
    using nv_invD(1,2) [OF assms(2)] nv_invD(4) [OF assms(2)] nv_done_settled [OF assms(2) NvDone(2-4)] by (auto simp: nv_inv_def)
next
  case (NvWrite key seen cm a upd cm' lst)
  have k: "key = (cm_ns cm, cm_name cm)" using nv_invD(2) [OF assms(2)] NvWrite(5) unfolding keyed_def by blast
  note d = own_write_delivered [OF NvWrite(4), of lst, folded k]
  have "keyed ((fst (nv_api s))(key \<mapsto> cm'))"
    using nv_invD(2) [OF assms(2)] netvars_write_labels [OF NvWrite(4)] k by (simp add: keyed_def)
  moreover have "key' \<in> insert key (nv_queue s) \<or> settled um ma ((fst (nv_api s))(key \<mapsto> cm'), snd (nv_api s)) key'" for key'
    using nv_invD(4) [OF assms(2), of key'] NvWrite(2) settled_apart [of key' key um ma "fst (nv_api s)" cm' "snd (nv_api s)"]
    by (cases "key' = key") auto
  ultimately show ?thesis using nv_invD(1) [OF assms(2)] NvWrite(1) by (simp add: nv_inv_def d)
next
  case (NvRetry key seen got a upd err)
  then show ?thesis using nv_invD(1,2) [OF assms(2)] nv_invD(4) [OF assms(2)] by (auto simp: nv_inv_def)
qed

lemma nv_inv_steps: "(nv_step um ma)\<^sup>*\<^sup>* s t \<Longrightarrow> nv_inv um ma s \<Longrightarrow> nv_inv um ma t"
  by (induction rule: rtranclp_induct) (blast intro: nv_inv_step)+

lemma nvStart_inv:
  assumes "listing cms maps"
  shows "nv_inv um ma (nvStart cms maps a)"
proof -
  have "key \<in> set (enqueueNetVarsSources (Some cms)) \<or> settled um ma (maps, a) key" for key
  proof (cases "nvView key (maps, a)")
    case (Some v)
    then obtain cm where "maps key = Some cm" "isNetVarsSource cm" by (auto simp: nvView_def split: option.splits if_splits)
    moreover from this have "cm \<in> set cms" "key = (cm_ns cm, cm_name cm)" using assms unfolding listing_def by blast+
    ultimately show ?thesis by (auto simp: enqueueNetVarsSources_def source_label)
  qed (simp add: settled_view)
  then show ?thesis using listing_keyed [OF assms] by (simp add: nv_inv_def nvStart_def)
qed

section \<open>It comes to rest\<close>

text \<open>The codec as documented: what the resolver writes can be read back.\<close>

definition nv_codec :: "yreader \<Rightarrow> ywriter \<Rightarrow> bool" where
  "nv_codec um ma \<longleftrightarrow> (\<forall>raw d h. um raw = Inr d \<longrightarrow> reads_back um ma (withAddressVars h external (doc_of d)))"

lemma written_settled:
  assumes "nv_codec um ma" "netvarsReconcile um ma upd a (Found cm) = Inr (Some cm')"
  shows "netvarsReconcile um ma upd a (Found cm') = Inr None"
proof -
  obtain raw h manual p where raw: "gget (cm_data cm) SynapseConfigKey = Some raw"
    and want: "desiredHomeNet um a cm raw = Inr (h, manual)" "setIdsAddressVars um ma raw h external = Inr p"
    using assms(2) by (auto simp: netvarsReconcile_def netvarsSource_def split: if_splits option.splits sum.splits)
  then obtain d where d: "um raw = Inr d" by (auto simp: setIdsAddressVars_def split: sum.splits)
  then have "reads_back um ma (withAddressVars h external (doc_of d))" using assms(1) unfolding nv_codec_def by blast
  then show ?thesis using netvars_again [OF assms(2) raw d want(1)] by simp
qed

text \<open>Every source can be reconciled at the moment.\<close>

definition nv_calm :: "yreader \<Rightarrow> ywriter \<Rightarrow> sources \<times> net_api \<Rightarrow> bool" where
  "nv_calm um ma api \<longleftrightarrow> (\<forall>key e. netvarsReconcile um ma (\<lambda>_. True) (snd api) (gotOf (fst api key)) \<noteq> Inl e)"

text \<open>
  The work that is left: a key that is queued takes two steps when its source is current, and two more
  when it is not, since the write queues it again.
\<close>

definition nv_weight :: "yreader \<Rightarrow> ywriter \<Rightarrow> sources \<times> net_api \<Rightarrow> cm_key \<Rightarrow> nat" where
  "nv_weight um ma api key = (if settled um ma api key then 2 else 4)"

definition nv_load :: "yreader \<Rightarrow> ywriter \<Rightarrow> nv_state \<Rightarrow> nat" where
  "nv_load um ma s =
     (\<Sum>key \<in> nv_queue s. nv_weight um ma (nv_api s) key) +
     (case nv_run s of None \<Rightarrow> 0 | Some (key, _) \<Rightarrow> nv_weight um ma (nv_api s) key - 1)"

lemma nv_weight_bounds: "2 \<le> nv_weight um ma api key" "nv_weight um ma api key \<le> 4"
  by (simp_all add: nv_weight_def)

text \<open>A step of the worker takes something off, and keeps the calm.\<close>

lemma nv_work_step:
  assumes "nv_work um ma s t" "nv_codec um ma" "nv_inv um ma s" "nv_calm um ma (nv_api s)"
  shows "Suc (nv_load um ma t) \<le> nv_load um ma s \<and> nv_calm um ma (nv_api t) \<and> nv_inv um ma t \<and> snd (nv_api t) = snd (nv_api s)"
  using assms(1)
proof (cases rule: nv_work.cases)
  case (NwBegin key)
  have "nv_step um ma s t" unfolding NwBegin(1) using NwBegin(2,3) by (rule nv_step.NvBegin)
  then have "nv_inv um ma t" using assms(3) by (rule nv_inv_step)
  moreover have "(\<Sum>k \<in> nv_queue s. nv_weight um ma (nv_api s) k) =
      nv_weight um ma (nv_api s) key + (\<Sum>k \<in> nv_queue s - {key}. nv_weight um ma (nv_api s) k)"
    using nv_invD(1) [OF assms(3)] NwBegin(2) by (rule sum.remove)
  ultimately show ?thesis
    using NwBegin assms(4) nv_weight_bounds(1) [of um ma "nv_api s" key] by (simp add: nv_load_def)
next
  case (NwDone key seen)
  have "nv_inv um ma t"
    using nv_invD(1,2,4) [OF assms(3)] NwDone by (auto simp: nv_inv_def settled_def)
  then show ?thesis using NwDone assms(4) nv_weight_bounds(1) [of um ma "nv_api s" key] by (simp add: nv_load_def)
next
  case (NwWrite key seen cm cm' lst)
  let ?api = "((fst (nv_api s))(key \<mapsto> cm'), snd (nv_api s))"
  have k: "key = (cm_ns cm, cm_name cm)" using nv_invD(2) [OF assms(3)] NwWrite(3) unfolding keyed_def by blast
  have t: "t = s\<lparr>nv_api := ?api, nv_queue := insert key (nv_queue s), nv_run := None\<rparr>"
    using NwWrite(1) own_write_delivered [OF NwWrite(4), of lst, folded k] by simp
  have now: "settled um ma ?api key" using written_settled [OF assms(2) NwWrite(4)] by (simp add: settled_def gotOf_def)
  have todo: "\<not> settled um ma (nv_api s) key" using NwWrite(3,4) by (simp add: settled_def gotOf_def)
  have same: "nv_weight um ma ?api k' = nv_weight um ma (nv_api s) k'" if "k' \<noteq> key" for k'
    using settled_apart [OF that, of um ma "fst (nv_api s)" cm' "snd (nv_api s)"] by (simp add: nv_weight_def)
  have fin: "finite (nv_queue s)" by (rule nv_invD(1) [OF assms(3)])
  have split: "(\<Sum>k \<in> insert key (nv_queue s). nv_weight um ma ?api k) =
      2 + (\<Sum>k \<in> nv_queue s - {key}. nv_weight um ma ?api k)"
    using sum.insert_remove [OF fin, of "nv_weight um ma ?api" key] now by (simp add: nv_weight_def)
  have others: "(\<Sum>k \<in> nv_queue s - {key}. nv_weight um ma ?api k) = (\<Sum>k \<in> nv_queue s - {key}. nv_weight um ma (nv_api s) k)"
    by (rule sum.cong) (simp_all add: same)
  have "(\<Sum>k \<in> nv_queue s - {key}. nv_weight um ma (nv_api s) k) \<le> (\<Sum>k \<in> nv_queue s. nv_weight um ma (nv_api s) k)"
    using fin by (intro sum_mono2) auto
  then have sum: "(\<Sum>k \<in> insert key (nv_queue s). nv_weight um ma ?api k) \<le>
      2 + (\<Sum>k \<in> nv_queue s. nv_weight um ma (nv_api s) k)" unfolding split others by simp
  have "nv_weight um ma (nv_api s) key = 4" using todo by (simp add: nv_weight_def)
  then have "nv_load um ma s = (\<Sum>k \<in> nv_queue s. nv_weight um ma (nv_api s) k) + 3" using NwWrite(2) by (simp add: nv_load_def)
  moreover have "nv_load um ma t = (\<Sum>k \<in> insert key (nv_queue s). nv_weight um ma ?api k)" by (simp add: nv_load_def t)
  ultimately have "Suc (nv_load um ma t) \<le> nv_load um ma s" using sum by linarith
  moreover have "nv_calm um ma ?api"
    using assms(4) written_settled [OF assms(2) NwWrite(4)] by (auto simp: nv_calm_def gotOf_def)
  moreover have "nv_inv um ma t"
  proof -
    have "keyed (fst ?api)"
      using nv_invD(2) [OF assms(3)] netvars_write_labels [OF NwWrite(4)] k by (simp add: keyed_def)
    moreover have "k' \<in> insert key (nv_queue s) \<or> settled um ma ?api k'" for k'
      using nv_invD(4) [OF assms(3), of k'] NwWrite(2) settled_apart [of k' key um ma "fst (nv_api s)" cm' "snd (nv_api s)"]
      by (cases "k' = key") auto
    ultimately show ?thesis using fin by (simp add: nv_inv_def t)
  qed
  ultimately show ?thesis by (simp add: t)
qed

lemma nv_work_steps:
  assumes "(nv_work um ma ^^ n) s t" "nv_codec um ma" "nv_inv um ma s" "nv_calm um ma (nv_api s)"
  shows "n + nv_load um ma t \<le> nv_load um ma s \<and> nv_calm um ma (nv_api t) \<and> nv_inv um ma t \<and> snd (nv_api t) = snd (nv_api s)"
  using assms(1)
proof (induction n arbitrary: t)
  case (Suc n)
  then obtain v where v: "(nv_work um ma ^^ n) s v" "nv_work um ma v t" by (auto elim: relpowp_Suc_E)
  then show ?case using Suc.IH [OF v(1)] nv_work_step [OF v(2) assms(2)] by fastforce
qed (use assms in simp)

lemma nv_progress:
  assumes "nv_inv um ma s" "nv_calm um ma (nv_api s)" "\<not> nv_idle s"
  shows "\<exists>t. nv_work um ma s t"
proof (cases "nv_run s")
  case None
  then obtain key where "key \<in> nv_queue s" using assms(3) by (auto simp: nv_idle_def)
  then show ?thesis using NwBegin [of key s um ma] None by blast
next
  case (Some ks)
  obtain key seen where r: "nv_run s = Some (key, seen)" using Some by (cases ks) simp
  obtain o1 where o: "netvarsReconcile um ma (\<lambda>_. True) (snd (nv_api s)) (gotOf (fst (nv_api s) key)) = Inr o1"
    using assms(2) unfolding nv_calm_def by (metis sum.exhaust)
  show ?thesis
  proof (cases o1)
    case None
    then show ?thesis using NwDone [OF r] o by blast
  next
    case (Some cm')
    obtain cm where cm: "fst (nv_api s) key = Some cm"
      using o Some by (cases "fst (nv_api s) key") (auto simp: gotOf_def netvarsReconcile_def)
    have "netvarsReconcile um ma (\<lambda>_. True) (snd (nv_api s)) (Found cm) = Inr (Some cm')"
      using o cm Some by (simp add: gotOf_def)
    from NwWrite [OF r cm this] show ?thesis by blast
  qed
qed

lemma nv_gets_there:
  assumes "nv_codec um ma" "nv_inv um ma s" "nv_calm um ma (nv_api s)"
  shows "\<exists>n u. (nv_work um ma ^^ n) s u \<and> (\<nexists>v. nv_work um ma u v)"
  using assms(2,3)
proof (induction "nv_load um ma s" arbitrary: s rule: less_induct)
  case less
  show ?case
  proof (cases "\<exists>v. nv_work um ma s v")
    case True
    then obtain v where v: "nv_work um ma s v" by blast
    have "nv_load um ma v < nv_load um ma s" "nv_inv um ma v" "nv_calm um ma (nv_api v)"
      using nv_work_step [OF v assms(1) less.prems] by simp_all
    then obtain n u where u: "(nv_work um ma ^^ n) v u" "\<nexists>x. nv_work um ma u x" using less.hyps by blast
    from v u(1) have "(nv_work um ma ^^ Suc n) s u" by (rule relpowp_Suc_I2)
    then show ?thesis using u(2) by blast
  next
    case False
    then show ?thesis by (intro exI [of _ 0] exI [of _ s]) simp
  qed
qed

text \<open>What a current source holds.\<close>

lemma settled_holds:
  assumes "settled um ma api key" "fst api key = Some cm" "isNetVarsSource cm"
    and "gget (cm_data cm) SynapseConfigKey = Some raw" "um raw = Inr d"
    and "desiredHomeNet um (snd api) cm raw = Inr (h, manual)" "h \<noteq> []"
  shows "fmlookup (addressVars (doc_of d)) ''HOME_NET'' = Some (YStr h) \<and>
    fmlookup (addressVars (doc_of d)) ''EXTERNAL_NET'' = Some (YStr external)"
  using assms by (auto simp: settled_def gotOf_def netvarsReconcile_def netvarsSource_def setIdsAddressVars_def
      addressVars_def Let_def split: if_splits option.splits sum.splits)

text \<open>
  Claim C11. The resolver, which updates the objects it watches, loses no change and comes to rest. Whatever
  is edited, and whatever Nodes and Services come and go, in whatever order, also while reconciles run and
  while they fail or their updates are refused: when nothing is left to do, HOME_NET and EXTERNAL_NET of
  every source hold what the cluster as it is calls for. And from any time between reconciles on, while
  nothing else changes and nothing fails, the worker takes at most four steps for each queued key,
  its own writes included, and only stops when nothing is left to do.
\<close>

theorem netvars_comes_to_rest:
  assumes codec: "nv_codec um ma" and start: "listing cms maps"
    and run: "(nv_step um ma)\<^sup>*\<^sup>* (nvStart cms maps a) t"
  shows "(nv_idle t \<longrightarrow> (\<forall>key cm raw d h manual.
      fst (nv_api t) key = Some cm \<and> isNetVarsSource cm \<and> gget (cm_data cm) SynapseConfigKey = Some raw \<and>
      um raw = Inr d \<and> desiredHomeNet um (snd (nv_api t)) cm raw = Inr (h, manual) \<and> h \<noteq> [] \<longrightarrow>
      fmlookup (addressVars (doc_of d)) ''HOME_NET'' = Some (YStr h) \<and>
      fmlookup (addressVars (doc_of d)) ''EXTERNAL_NET'' = Some (YStr external))) \<and>
    (nv_run t = None \<and> nv_calm um ma (nv_api t) \<and> (nv_work um ma ^^ n) t u \<longrightarrow>
      n \<le> 4 * card (nv_queue t) \<and>
      ((\<nexists>v. nv_work um ma u v) \<longrightarrow> nv_idle u \<and> (\<forall>key. settled um ma (nv_api u) key)))"
proof (intro conjI impI)
  have inv: "nv_inv um ma t" by (rule nv_inv_steps [OF run nvStart_inv [OF start]])
  have rest: "settled um ma (nv_api s) key" if "nv_inv um ma s" "nv_idle s" for s key
    using nv_invD(4) [OF that(1), of key] that(2) by (simp add: nv_idle_def)
  show "\<forall>key cm raw d h manual.
      fst (nv_api t) key = Some cm \<and> isNetVarsSource cm \<and> gget (cm_data cm) SynapseConfigKey = Some raw \<and>
      um raw = Inr d \<and> desiredHomeNet um (snd (nv_api t)) cm raw = Inr (h, manual) \<and> h \<noteq> [] \<longrightarrow>
      fmlookup (addressVars (doc_of d)) ''HOME_NET'' = Some (YStr h) \<and>
      fmlookup (addressVars (doc_of d)) ''EXTERNAL_NET'' = Some (YStr external)" if "nv_idle t"
    using settled_holds [OF rest [OF inv that]] by blast
  assume calm: "nv_run t = None \<and> nv_calm um ma (nv_api t) \<and> (nv_work um ma ^^ n) t u"
  then have w: "n + nv_load um ma u \<le> nv_load um ma t" "nv_calm um ma (nv_api u)" "nv_inv um ma u"
    using nv_work_steps [OF _ codec inv, of n u] by blast+
  have "nv_load um ma t \<le> 4 * card (nv_queue t)"
    using calm sum_bounded_above [of "nv_queue t" "nv_weight um ma (nv_api t)" 4] nv_weight_bounds(2) by (simp add: nv_load_def mult.commute)
  then show "n \<le> 4 * card (nv_queue t)" using w(1) by simp
  show "nv_idle u" if "\<nexists>v. nv_work um ma u v" using nv_progress [OF w(3,2)] that by blast
  then show "\<forall>key. settled um ma (nv_api u) key" if "\<nexists>v. nv_work um ma u v" using rest [OF w(3)] that by blast
qed

text \<open>A codec in which a text stands for the document with that HOME_NET, and one source.\<close>

definition homeReader :: yreader where
  "homeReader t = Inr (Some (withAddressVars t external NetVars.idsDoc))"

definition homeWriter :: ywriter where
  "homeWriter d = Inr (case as_str (fmlookup (addressVars d) ''HOME_NET'') of Some h \<Rightarrow> h | None \<Rightarrow> [])"

lemma home_codec: "nv_codec homeReader homeWriter"
proof -
  have "withAddressVars h e (withAddressVars h' e root) = withAddressVars h e root" for h h' e root
    unfolding withAddressVars_def Let_def by (rule fmap_ext) (auto intro!: fmap_ext)
  then show ?thesis by (auto simp: nv_codec_def reads_back_def homeReader_def homeWriter_def addressVars_with)
qed

definition autoSource :: configmap where
  "autoSource = idsMap [(NetVarsManagedAnnotation, ''auto'')]"

lemma netvars_comes_to_rest_witness:
  "let s = nvStart [autoSource] [(''ns'', ''agent'') \<mapsto> autoSource] netApi in
   \<not> nv_idle s \<and> (\<exists>n u. n \<le> 4 \<and> (nv_work homeReader homeWriter ^^ n) s u \<and> nv_idle u \<and>
     settled homeReader homeWriter (nv_api u) (''ns'', ''agent''))"
proof -
  let ?maps = "[(''ns'', ''agent'') \<mapsto> autoSource]" and ?k = "(''ns'', ''agent'')"
  let ?s = "nvStart [autoSource] ?maps netApi"
  have src: "isNetVarsSource autoSource" "cm_ns autoSource = ''ns''" "cm_name autoSource = ''agent''"
    "gget (cm_data autoSource) SynapseConfigKey = Some ''raw''"
    "gget (cm_annotations autoSource) NetVarsManagedAnnotation = Some ''auto''"
    "gget (cm_annotations autoSource) HomeNetOverrideAnnotation = None"
    by (simp_all add: autoSource_def idsMap_def isNetVarsSource_def gstr_def
        HomeNetOverrideAnnotation_def NetVarsManagedAnnotation_def)
  have start: "listing [autoSource] ?maps" using src by (auto simp: listing_def)
  have queue: "nv_queue ?s = {?k}" "nv_run ?s = None"
    using src by (simp_all add: nvStart_def enqueueNetVarsSources_def source_label)
  have want: "desiredHomeNet homeReader netApi autoSource ''raw'' = Inr (autoList, False)"
    using src note_facts(5) by (simp add: desiredHomeNet_def ghas_def gstr_def Let_def)
  have "netvarsReconcile homeReader homeWriter (\<lambda>_. True) netApi (gotOf (?maps key)) \<noteq> Inl e" for key e
    using src(1,4) want note_facts(6)
    by (auto simp: gotOf_def netvarsReconcile_def netvarsSource_def setIdsAddressVars_def homeReader_def homeWriter_def Let_def)
  then have calm: "nv_calm homeReader homeWriter (nv_api ?s)" by (simp add: nv_calm_def nvStart_def)
  obtain n u where u: "(nv_work homeReader homeWriter ^^ n) ?s u" "\<nexists>v. nv_work homeReader homeWriter u v"
    using nv_gets_there [OF home_codec nvStart_inv [OF start] calm] by blast
  have refl: "(nv_step homeReader homeWriter)\<^sup>*\<^sup>* ?s ?s" by simp
  have "n \<le> 4 \<and> nv_idle u \<and> (\<forall>key. settled homeReader homeWriter (nv_api u) key)"
    using netvars_comes_to_rest [OF home_codec start refl, of n u] queue calm u by simp
  moreover have "\<not> nv_idle ?s" using queue by (simp add: nv_idle_def)
  ultimately show ?thesis using u(1) unfolding Let_def by blast
qed

end
