(* ===== verification/Lifecycle.thy ===== *)
theory Lifecycle
  imports IngressLoop Startup
begin

text \<open>
  The life of an instance, from the flags of main.go to the file on disk: what the readiness endpoint
  promises while the primer and the reconciles run, and what the exit code of the one-shot mode
  promises.
\<close>

section \<open>Readiness\<close>

text \<open>The readiness check main registers; \<^verbatim>\<open>healthz.Ping\<close> always answers yes.\<close>

definition readyz :: "manager \<Rightarrow> ('s, 'c) world \<Rightarrow> string option" where
  "readyz mg w = (if mg_ingress_ready mg then ReadyCheck w else None)"

text \<open>
  Passes one after the other, each by the primer or by a reconcile. In the program the primer can
  overlap the first reconciles; what can go wrong then is shown by \<open>overlapping_writers_tear\<close> of
  the theory Writers, and the claims below are about passes that do not overlap.
\<close>

datatype pass = PrimerPass api int | ReconcilePass api int

fun passApi :: "pass \<Rightarrow> api" where
  "passApi (PrimerPass a now) = a"
| "passApi (ReconcilePass a now) = a"

fun passTime :: "pass \<Rightarrow> int" where
  "passTime (PrimerPass a now) = now"
| "passTime (ReconcilePass a now) = now"

fun runPass ::
  "(int \<Rightarrow> bool) \<Rightarrow> ('s, secret) cou \<Rightarrow> ('c, configmap) cou \<Rightarrow> ing_cfg \<Rightarrow> ('s, 'c) world \<Rightarrow> pass \<Rightarrow> ('s, 'c) world" where
  "runPass prt cs cc cfg w (PrimerPass a now) = snd (primerStart prt cs cc cfg a now w)"
| "runPass prt cs cc cfg w (ReconcilePass a now) = snd (reconcilePass prt cs cc cfg a now w)"

definition runPasses ::
  "(int \<Rightarrow> bool) \<Rightarrow> ('s, secret) cou \<Rightarrow> ('c, configmap) cou \<Rightarrow> ing_cfg \<Rightarrow> ('s, 'c) world \<Rightarrow> pass list \<Rightarrow> ('s, 'c) world" where
  "runPasses prt cs cc cfg w ps = foldl (runPass prt cs cc cfg) w ps"

text \<open>The last pass of a sequence that returned without an error.\<close>

fun lastSuccess ::
  "(int \<Rightarrow> bool) \<Rightarrow> ('s, secret) cou \<Rightarrow> ('c, configmap) cou \<Rightarrow> ing_cfg \<Rightarrow> ('s, 'c) world \<Rightarrow> pass list \<Rightarrow> pass option" where
  "lastSuccess prt cs cc cfg w [] = None"
| "lastSuccess prt cs cc cfg w (p # ps) =
     (case lastSuccess prt cs cc cfg (runPass prt cs cc cfg w p) ps of
        Some q \<Rightarrow> Some q
      | None \<Rightarrow> if isl (fst (render prt cs cc cfg (passApi p) (passTime p) w)) then None else Some p)"

lemma lastSuccess_snoc:
  "lastSuccess prt cs cc cfg w (ps @ [p]) =
     (if isl (fst (render prt cs cc cfg (passApi p) (passTime p) (runPasses prt cs cc cfg w ps)))
      then lastSuccess prt cs cc cfg w ps else Some p)"
  by (induction ps arbitrary: w) (simp_all add: runPasses_def split: option.split)

lemma reconcilePass_world: "snd (reconcilePass prt cs cc cfg a now w) = snd (render prt cs cc cfg a now w)"
  by (simp add: reconcilePass_def split: prod.split sum.split)

lemma runPass_render:
  "runPass prt cs cc cfg w p = snd (render prt cs cc cfg (passApi p) (passTime p) w)"
  by (cases p) (simp_all add: primerStart_def reconcilePass_world)

text \<open>Whatever the output, a pass raises the ready flag when it succeeds and leaves it alone when it fails.\<close>

lemma render_ready:
  "wd_ready (snd (render prt cs cc cfg a now w)) = (wd_ready w \<or> \<not> isl (fst (render prt cs cc cfg a now w)))"
  by (auto simp: render_def failPass_def finishPass_def projectStage_def writeStage_def Let_def
      split: option.split sum.split prod.split)

text \<open>A pass succeeds and leaves its document, or fails and leaves the document alone.\<close>

definition documentFor :: "(int \<Rightarrow> bool) \<Rightarrow> ing_cfg \<Rightarrow> api \<Rightarrow> ('s, 'c) world \<Rightarrow> bool" where
  "documentFor prt cfg a w \<longleftrightarrow>
     gget (fs_files (wd_fs w)) (cf_out_path cfg) = Some (renderDoc prt (passModelOf prt cfg a))"

lemma render_document:
  assumes fmode: "\<not> usesConfigMapOutput cfg" and out: "cf_out_path cfg \<notin> certFiles (cf_certs_dir cfg)"
    and r: "render prt cs cc cfg a now w = (r, w')"
  shows "if isl r then gget (fs_files (wd_fs w')) (cf_out_path cfg) = gget (fs_files (wd_fs w)) (cf_out_path cfg)
    else documentFor prt cfg a w'"
proof (cases "list_ingresses a")
  case None
  then show ?thesis using render_unlisted [OF None r] by simp
next
  case (Some ings)
  then show ?thesis
    using render_effect [OF fmode out Some, of w prt now cs cc] passModel_eq [OF Some, of prt cfg now]
    by (cases r) (auto simp: assms(3) Let_def documentFor_def)
qed

lemma runPasses_ready:
  "wd_ready (runPasses prt cs cc cfg w ps) \<longleftrightarrow> wd_ready w \<or> lastSuccess prt cs cc cfg w ps \<noteq> None"
proof (induction ps rule: rev_induct)
  case Nil
  then show ?case by (simp add: runPasses_def)
next
  case (snoc p ps)
  have "runPasses prt cs cc cfg w (ps @ [p]) =
      snd (render prt cs cc cfg (passApi p) (passTime p) (runPasses prt cs cc cfg w ps))"
    by (simp add: runPasses_def runPass_render)
  then show ?case using snoc by (simp add: render_ready lastSuccess_snoc)
qed

lemma runPasses_document:
  assumes fmode: "\<not> usesConfigMapOutput cfg" and out: "cf_out_path cfg \<notin> certFiles (cf_certs_dir cfg)"
  shows "case lastSuccess prt cs cc cfg w ps of
      None \<Rightarrow> gget (fs_files (wd_fs (runPasses prt cs cc cfg w ps))) (cf_out_path cfg) = gget (fs_files (wd_fs w)) (cf_out_path cfg)
    | Some p \<Rightarrow> documentFor prt cfg (passApi p) (runPasses prt cs cc cfg w ps)"
proof (induction ps rule: rev_induct)
  case Nil
  then show ?case by (simp add: runPasses_def)
next
  case (snoc p ps)
  obtain r w' where r: "render prt cs cc cfg (passApi p) (passTime p) (runPasses prt cs cc cfg w ps) = (r, w')"
    by fastforce
  then have "runPasses prt cs cc cfg w (ps @ [p]) = w'" by (simp add: runPasses_def runPass_render)
  then show ?case
    using snoc render_document [OF fmode out r] r
    by (auto simp: lastSuccess_snoc documentFor_def split: option.splits if_splits)
qed

text \<open>
  Claim C19. An ingress instance is not ready before it has rendered. main registers the controller
  with the configuration of the flags and the readiness endpoint that asks it, and for every
  sequence of passes of the primer and of reconciles, one after the other (passes that overlap
  are left out), failing or not: in every output mode the endpoint answers yes if and only if some
  pass has succeeded. In file mode, the output apart from the certificate files, the file then
  holds the document of the cluster state that the last successful pass read, and as long as
  none has succeeded it is as it was at the start.
\<close>

theorem ready_means_rendered:
  assumes run: "main en f = Ran mg code" "parseFlags f = Inr pa" "fl_ingress f" "cfg = ingressConfig f pa"
    and fresh: "\<not> wd_ready w"
  shows "(\<exists>name debounce. IngressController cfg name debounce \<in> set (mg_components mg)) \<and>
    (readyz mg (runPasses prt cs cc cfg w ps) = None \<longleftrightarrow> lastSuccess prt cs cc cfg w ps \<noteq> None) \<and>
    (\<not> usesConfigMapOutput cfg \<and> cf_out_path cfg \<notin> certFiles (cf_certs_dir cfg) \<longrightarrow>
      (case lastSuccess prt cs cc cfg w ps of
         None \<Rightarrow> gget (fs_files (wd_fs (runPasses prt cs cc cfg w ps))) (cf_out_path cfg) = gget (fs_files (wd_fs w)) (cf_out_path cfg)
       | Some p \<Rightarrow> documentFor prt cfg (passApi p) (runPasses prt cs cc cfg w ps)))"
proof -
  have m: "mg_components mg = registrations (en_getenv en) (en_hostname en) f pa" "mg_ingress_ready mg"
    using run(1-3) by (auto simp: main_def startManager_def Let_def split: if_splits sum.splits option.splits)
  have "IngressController cfg (fl_reload_name f) (fl_debounce f) \<in> set (mg_components mg)"
    using run(3,4) by (simp add: m(1) registrations_def)
  moreover have "readyz mg (runPasses prt cs cc cfg w ps) = None \<longleftrightarrow> lastSuccess prt cs cc cfg w ps \<noteq> None"
    using runPasses_ready [of prt cs cc cfg w ps] fresh by (simp add: readyz_def m(2) ReadyCheck_def)
  ultimately show ?thesis using runPasses_document [of cfg prt cs cc w ps] by blast
qed

definition ingress_flags :: flags where
  "ingress_flags = default_flags\<lparr>fl_set := [''label-selector'', ''config-hash-annotation'', ''ingress-mode''],
     fl_selector := [], fl_annotation := ''hash'', fl_ingress := True\<rparr>"

definition ingress_parsed :: parsed where
  "ingress_parsed = \<lparr>pa_out_cm = ([], []), pa_out_secret = ([], []), pa_sources = []\<rparr>"

lemma ingress_main:
  "parseFlags ingress_flags = Inr ingress_parsed"
  "\<exists>mg. main calm_env ingress_flags = Ran mg 0 \<and> mg_ingress_ready mg"
proof -
  show p: "parseFlags ingress_flags = Inr ingress_parsed" by code_simp
  have "trim_space ''hash'' = ''hash''" "trim_space [] = []" by code_simp+
  with p show "\<exists>mg. main calm_env ingress_flags = Ran mg 0 \<and> mg_ingress_ready mg"
    by (simp add: main_def configSyncConflict_def startManager_def calm_env_def parseLabelSelector_def ingress_flags_def
        default_flags_def Let_def list.pred_True)
qed

lemma ready_means_rendered_witness:
  "\<exists>mg w. main calm_env ingress_flags = Ran mg 0 \<and> readyz mg (worldOf dirState :: mem_world) \<noteq> None \<and>
     w = runPasses ipr mem_cou mem_cou (ingressConfig ingress_flags ingress_parsed) (worldOf dirState) [PrimerPass webApi 5] \<and>
     readyz mg w = None \<and> gget (fs_files (wd_fs w)) ''/shared/upstreams.yaml'' =
       Some (renderDoc ipr (passModelOf ipr (ingressConfig ingress_flags ingress_parsed) webApi))"
proof -
  let ?cfg = "ingressConfig ingress_flags ingress_parsed"
  let ?w = "runPasses ipr mem_cou mem_cou ?cfg (worldOf dirState) [PrimerPass webApi 5]"
  obtain mg where mg: "main calm_env ingress_flags = Ran mg 0" "mg_ingress_ready mg" using ingress_main(2) by blast
  have f: "fl_ingress ingress_flags" by (simp add: ingress_flags_def)
  have c: "cf_out_path ?cfg = ''/shared/upstreams.yaml''" "cf_certs_dir ?cfg = []" "\<not> usesConfigMapOutput ?cfg" "\<not> usesCertsSecretOutput ?cfg"
    by (simp_all add: ingressConfig_def onceConfig_def ingress_flags_def ingress_parsed_def default_flags_def
        usesConfigMapOutput_def usesCertsSecretOutput_def)
  have "dir_prefix [] = []" by (simp add: dir_prefix_def Clean_def path_comps_def path_rooted_def path_push_def)
  then have apart: "out_apart ?cfg" using c(1,2) by (auto simp: out_apart_def certFiles_def plain_name_def)
  then have out: "cf_out_path ?cfg \<notin> certFiles (cf_certs_dir ?cfg)" by (simp add: out_apart_def)
  have fresh: "\<not> wd_ready (worldOf dirState :: mem_world)" by (simp add: worldOf_def)
  have "fs_fates (wd_fs (worldOf dirState :: mem_world)) = []" by (simp add: worldOf_def dirState_def)
  then obtain res w' where "render ipr mem_cou mem_cou ?cfg webApi 5 (worldOf dirState) = (Inr res, w')"
    using render_succeeds [of ?cfg "worldOf dirState" webApi "[webIngress]" ipr mem_cou mem_cou 5] c apart webCfg_facts(4)
    by (auto simp: file_mode_def)
  then have last: "lastSuccess ipr mem_cou mem_cou ?cfg (worldOf dirState) [PrimerPass webApi 5] = Some (PrimerPass webApi 5)"
    by simp
  note claim = ready_means_rendered [OF mg(1) ingress_main(1) f refl fresh, of ipr mem_cou mem_cou "[PrimerPass webApi 5]"]
  have ready: "readyz mg ?w = None" using claim last by blast
  have "documentFor ipr ?cfg (passApi (PrimerPass webApi 5)) ?w" using claim last c(3) out by (metis option.case(2))
  then have "documentFor ipr ?cfg webApi ?w" by simp
  moreover have "readyz mg (worldOf dirState :: mem_world) \<noteq> None" using fresh mg(2) by (simp add: readyz_def ReadyCheck_def)
  ultimately show ?thesis using mg(1) ready by (intro exI [of _ mg] exI [of _ ?w]) (simp add: documentFor_def c(1))
qed

text \<open>
  The readiness check of the sidecar is never registered: with config sync the endpoint answers yes
  from the start, also before the first projection, when the check the code has for it says no.
\<close>

theorem sidecar_ready_unchecked:
  assumes "main en f = Ran mg code" "fl_config_sync f"
  shows "readyz mg w = None \<and> syncReadyCheck (st\<lparr>ss_ready := False\<rparr>) \<noteq> None"
proof -
  have "\<not> fl_ingress f" "mg_ingress_ready mg = fl_ingress f"
    using assms by (auto simp: main_def startManager_def configSyncConflict_def Let_def split: if_splits sum.splits option.splits)
  then show ?thesis by (simp add: readyz_def syncReadyCheck_def)
qed

lemma sidecar_ready_unchecked_witness:
  "\<exists>mg. main calm_env sidecar_flags = Ran mg 0 \<and> readyz mg (worldOf dirState :: mem_world) = None"
proof -
  obtain mg where r: "main calm_env sidecar_flags = Ran mg 0" using sidecar_main by blast
  then show ?thesis using sidecar_ready_unchecked [OF r, of "worldOf dirState :: mem_world"] by (auto simp: sidecar_flags_def)
qed

section \<open>One shot\<close>

text \<open>
  An init container that ends with exit code 0 has put the document of the cluster it read in place, and
  the certificates; the outcome of \<open>en_render_once\<close> is the one of the code.
\<close>

theorem render_once_exit:
  assumes run: "main en f = Exit 0" "parseFlags f = Inr pa" "fl_ingress f" "fl_render_once f" "\<not> fl_config_sync f"
    and once: "\<And>cfg. en_render_once en cfg \<longleftrightarrow> \<not> isl (fst (RenderOnce prt cs cc cfg a now w))"
    and mode: "file_mode (onceConfig f pa)"
  shows "ingressCurrent prt (onceConfig f pa) a (wd_fs (snd (RenderOnce prt cs cc (onceConfig f pa) a now w)))"
proof -
  have "renderOnceRun en f pa = 0"
    using run by (auto simp: main_def split: option.splits if_splits)
  then have ok: "\<not> isl (fst (RenderOnce prt cs cc (onceConfig f pa) a now w))"
    using once by (auto simp: renderOnceRun_def split: if_splits)
  obtain r w' where r: "render prt cs cc (onceConfig f pa) a now w = (r, w')" by fastforce
  then obtain res where "r = Inr res" using ok by (cases r) (auto simp: RenderOnce_def)
  then show ?thesis using render_current [OF mode] r by (cases res) (auto simp: RenderOnce_def)
qed

text \<open>
  It is not gated: a one-shot counts as the leader whatever the flags say, so with the Gateway API every
  init container writes the shared status of the routes.
\<close>

theorem render_once_is_leader: "leader (onceConfig f pa) \<and> leader (ingressConfig f pa) = (\<not> fl_status_election f)"
  by (simp add: leader_def onceConfig_def ingressConfig_def)

end
