(* ===== verification/Spec2Isabelle.thy ===== *)
theory Spec2Isabelle
  imports Quoting Scenario Signal ConfigSync NetVars Resolver ConfigHash Identity Edges Startup
    Writers IngressLoop SidecarLoop EndToEnd ResolverLoop HashLoop NetVarsLoop Lifecycle
begin

text \<open>
  A verification library for the moat operator, a Kubernetes operator in Go that keeps the
  synapse proxy and its agents configured. One binary (main.go) runs one or more of its
  components; each is a Kubernetes reconciler or a loop that reads API objects and writes files,
  ConfigMaps, Secrets, annotations or uploads. The library models all of them.

  \<^bold>\<open>The program and its theories\<close>

  \<^item> Shared ground. Prelude: Go maps as association lists (a map of the program is never asked
    for its order except through a theorem that says the order does not matter), sorting, and
    the contracts of first-writer-wins registries and of conflict metering. GoStrings: the parts
    of strings, strconv and utf8 the code uses, on byte strings. Objects: the API objects with
    the fields the code reads, metrics.go, events and status writes. NetAddr: package net.
    Sha256: the hash, checked on the standard's test vector. Yaml: decoded documents.
  \<^item> Ingress mode. Routes, Quoting and RenderYaml model routes.go (registries, annotations, both
    document schemas); Backends models endpoints.go and backendAddr; FileSys the file writers;
    Certs certs.go; IngressRender and GatewayRender the two halves of a pass of
    ingress_controller.go and gateway.go; Reconcile the whole pass (\<open>render\<close>), the primer and the
    readiness check. Claims is the abstract specification of a pass: a list of claims and a
    registry. Scenario is a concrete cluster for the witnesses of the theorems of PassSafety.
  \<^item> Reload. Signal models signal.go: process discovery, the debouncer as a step relation over
    the critical sections of its lock, the delivery of SIGHUP.
  \<^item> Config-sync sidecar. ConfigSync models configsync_controller.go on FileSys.
  \<^item> Resolvers. NetVars models netvars_resolver.go; Resolver models upstreams_resolver.go.
  \<^item> Rollout. ConfigHash models configmap_controller.go.
  \<^item> Producers. Workloads models classify.go and the naming of workloads; Producer what the two
    producers share (requests, delta flush, baseline, event loop); Identity models
    identity_producer.go and Edges edge_producer.go.
  \<^item> Startup models main.go and leader.go: it builds the configurations the other theories take.
  \<^item> Processes. Watches models the \<open>SetupWithManager\<close> functions: which events queue which requests.
    WorkQueue is the controller as a step relation: changes, one reconcile at a time that reads while
    the cluster changes, and retries. IngressLoop, SidecarLoop, ResolverLoop and HashLoop put the
    reconcilers into it; NetVarsLoop has a relation of its own, because that reconciler
    updates the objects it watches. EndToEnd composes the central operator with the
    sidecar. Lifecycle goes from the flags to
    the readiness endpoint and the one-shot exit code. Writers models \<open>writeIfChanged\<close> by system calls, for writers that overlap.

  \<^bold>\<open>How code and model correspond\<close>

  A Go function or method is a definition of the same name where HOL allows it; a part of a long
  function (a loop body, a nested function) is a definition of its own, composed as the code
  composes it. Structs are records, errors are values of sums or options with every early return
  a branch, Go integers that can wrap are words, strings are byte strings. A reconciler that
  reads the API takes the answers as an argument (a snapshot of the pass, each answer possibly
  an error); one that writes returns what it wrote. Every file operation that changes something
  and every patch or request takes its outcome from a schedule or an argument, so a theorem
  covers every pattern of their failures; reading a file that exists does not fail (the writers
  take a failing read for an absent file, so it would only cost a rewrite). Iteration over a Go map is iteration over an arbitrary association list.

  \<^bold>\<open>What the lemmas show\<close>

  \<^item> Rendering: the first claim of a host and path wins, path regexes survive quoting, the emitted
    document is a function of the model's contents with one clean line per item, sizes are
    parsed exactly within 64 bits, backends fall back in order and are exactly the ready
    endpoints of the port.
  \<^item> Passes: a pass refines its list of claims, keeps the model well formed, does not depend on
    the order of the listings, leaves the last good document in place on an error, is quiet over
    unchanged inputs, and lets only the leader write status.
  \<^item> Files and certificates: readers see the old or the new document and never a torn one, keys
    are written before certificates, nothing outside the directory is touched, projection
    converges and settles, in directory and in Secret mode.
  \<^item> Reload: every trigger is followed by a call, calls are spaced by the window, and exactly the
    processes of the name are signalled.
  \<^item> Sidecar and resolvers: projected keys are file names of the directory, projection converges;
    the automatic network list is exact, settles and follows the cluster; exactly the server
    entries that name a Service are rewritten, once and for all.
  \<^item> Rollout: the combined hash depends on the contents only, separates contents up to SHA-256
    collisions and NUL bytes, ignores exactly the hot-reloadable fields, and is stamped so that a
    workload rolls once per change.
  \<^item> Producers: an address belongs to the latest serving claim, exposure is exact, the allow-list
    is what the code reads from the policies, line by line, the document and the deltas agree, agents that apply the
    deltas have the operator's table, and between two baselines no change that is noted is
    forgotten.
  \<^item> Processes: within the assumptions below no change is lost by any of the five reconcilers, whatever
    happens while they read, fail and retry: when nothing is left to do, the output is the one of the cluster as it is. The ingress
    controller catches up in one more pass, the sidecar and the network-variables resolver
    come to rest within a bound, and what the central operator renders is what the proxy reads.
    Where a watch ends (Opaque certificates, removed labels, failed listings) is stated too.
  \<^item> Start-up: a sidecar runs no controller that elects or writes cluster state; an ingress instance is
    ready exactly when a pass has succeeded, and in file mode the document of the last one is in place.

  Contracts between parts are locales: \<open>first_writer\<close> with its extension \<open>answering_writer\<close> (registries),
  \<open>content_target\<close> (outputs written when their content changes), \<open>conflict_meter\<close> (the counting of
  refused claims), \<open>pass_frame\<close> (observations a pass leaves alone), \<open>workload_store\<close> (the three kinds
  of workload in ConfigHash), \<open>delta_source\<close> (index, diff and application of deltas in Producer) and
  \<open>reconciler\<close> with its extension \<open>calm_reconciler\<close> (what a work queue needs of a reconciler so that
  nothing is lost, and so that it catches up), each interpreted on the definitions of the code.

  \<^bold>\<open>Bounds and recursion\<close>

  All definitions are total. Recursion that is not structural terminates by the length of the
  text (\<open>runes\<close>, \<open>strip_left\<close>, \<open>unquote\<close>) or the size of the number (\<open>show_uint\<close>). \<open>v6_groups\<close>
  counts at most eight groups, as many as an address has. Endless loops (the debouncer, the
  event loops, the controllers) are step relations or runs over a finite list of events, so their
  theorems hold for every prefix of an execution. The work left to a controller is a number (\<open>load\<close>,
  \<open>nv_load\<close>) that every step of a worker that is left alone decreases: two steps for each queued
  key, and two more where the reconcile's own write queues it again.

  \<^bold>\<open>What the process theorems assume\<close>

  Informers deliver every change and controller-runtime runs one reconcile of a controller at a time, queues
  a key once, and queues it again after an error. A read of a reconcile answers as of some moment
  since its start, or fails. Where the code takes a failing read for an absent object and reports
  success, nothing queues the key again, so the ingress and the upstreams-resolver theorems are
  stated for both: with reads that answer, the output is the one of the cluster; with reads that
  may fail (\<open>flaky\<close>), the one of the cluster with some objects unread (\<open>asRead\<close>). A listing inside
  an event handler succeeds (what happens otherwise is \<open>failed_listing_drops_event\<close>).

  \<^item> Outputs with one source each. The sidecar theorem is about the keys that one watched source
    alone provides, the upstreams-resolver theorem about the outputs one source alone names and
    only the resolver writes (\<open>homely\<close> and \<open>home\<close>): sources that share a name overwrite each other.
  \<^item> The config-hash theorem speaks of one namespace at a time and allows every change there but
    the removal of the selected label from a source (\<open>config_change\<close>, with \<open>label_removal_unseen\<close>
    for the contrary); workloads change only through the controller.
  \<^item> The ingress theorem is about file mode, the output apart from the certificate files, and
    certificates of TLS type (\<open>opaque_rotation_unseen\<close>).
  \<^item> The primers run beside the first reconcile. That overlap is left out of the process theorems
    and of the theorem on readiness, and treated in Writers, where two overlapping
    writers leave a torn file (\<open>overlapping_writers_tear\<close>).

  \<^bold>\<open>Not modelled\<close>

  Manager wiring (scheme registration, indexes, controller options), logging, the flag
  package, and the libraries: the API client and controller-runtime, client-go's lease election,
  the YAML codec, the MMDB writer, JSON, HTTP, label selector parsing, \<open>unicode.IsPrint\<close> above the
  Latin-1 range. Where a theorem needs a library's behaviour it is a named hypothesis with a
  witness (a document that is read back, CreateOrUpdate that stores what the mutation
  returns, and after an error has stored it or nothing).
  Concurrency is modelled where the code has it (the debouncer's lock, the producers' channels, the
  cluster that changes during a reconcile, two writers of a file). Directories are not tracked, and
  file contents change only through the operator.
\<close>

end
